(* ===== verification/Net_Prelude.thy ===== *)
theory Net_Prelude
  imports Main "HOL-Library.Word"
begin

text \<open>
  Shared material of the development: the machine types of the C++ sources, the network byte
  order used on the wire, the byte and character searches of the standard library that the
  sources call (\<open>std::search\<close>), and the lemma collections the component theories extend.
  \<^item> \<open>net_simps\<close>: unfolding and frame facts of the modelled operations;
  \<^item> \<open>inv_intros\<close>: preservation facts of the components' invariants.
\<close>

named_theorems net_simps \<open>unfolding and frame facts of modelled operations\<close>
named_theorems inv_intros \<open>preservation facts of component invariants\<close>

section \<open>Machine types\<close>

type_synonym u8 = "8 word"
type_synonym u16 = "16 word"
type_synonym u32 = "32 word"
type_synonym u64 = "64 word"

text \<open>\<open>caf::byte\<close> and \<open>std::vector<byte>\<close>.\<close>

type_synonym byte = "8 word"
type_synonym byte_buffer = "byte list"

lemma unat_less_pow: "unat (w :: 'a::len word) < 2 ^ LENGTH('a)"
  by (rule unsigned_less)

lemma unat_byte_less [simp]: "unat (b :: byte) < 256"
  using unat_less_pow [of b] by simp

section \<open>Network byte order\<close>

text \<open>
  The sources write integers as \<open>to_network_order\<close> followed by \<open>memcpy\<close> and read them as
  \<open>memcpy\<close> followed by \<open>from_network_order\<close>: most significant byte first. The model works
  on the resulting byte sequences; \<open>be_encode n v\<close> are the \<open>n\<close> bytes of \<open>v\<close>.
\<close>

fun be_encode :: "nat \<Rightarrow> nat \<Rightarrow> byte list" where
  "be_encode 0 v = []"
| "be_encode (Suc n) v = be_encode n (v div 256) @ [of_nat v]"

definition be_decode :: "byte list \<Rightarrow> nat" where
  "be_decode bs = foldl (\<lambda>a b. a * 256 + unat b) 0 bs"

lemma length_be_encode [simp]: "length (be_encode n v) = n"
  by (induction n arbitrary: v) auto

lemma be_decode_Nil [simp]: "be_decode [] = 0"
  by (simp add: be_decode_def)

lemma be_decode_snoc [simp]: "be_decode (bs @ [b]) = be_decode bs * 256 + unat b"
  by (simp add: be_decode_def)

lemma unat_of_nat_byte: "unat (of_nat v :: byte) = v mod 256"
  by (simp add: unat_of_nat)

lemma be_decode_encode: "v < 256 ^ n \<Longrightarrow> be_decode (be_encode n v) = v"
proof (induction n arbitrary: v)
  case 0
  then show ?case by simp
next
  case (Suc n)
  then have "v div 256 < 256 ^ n"
    by (simp add: div_less_iff_less_mult mult.commute)
  then have "be_decode (be_encode n (v div 256)) = v div 256"
    by (rule Suc.IH)
  then show ?case
    by (simp add: unat_of_nat_byte)
qed

lemma be_decode_less: "be_decode bs < 256 ^ length bs"
proof (induction bs rule: rev_induct)
  case Nil
  then show ?case by simp
next
  case (snoc b bs)
  have "be_decode bs * 256 + 256 \<le> 256 ^ length bs * 256"
    using snoc.IH by (metis Suc_leI add.commute mult.commute mult_Suc_right mult_le_mono2)
  then have "be_decode bs * 256 + unat b < 256 ^ length bs * 256"
    using unat_byte_less [of b] by linarith
  then show ?case
    by (simp add: mult.commute)
qed

lemma be_encode_decode: "be_encode (length bs) (be_decode bs) = bs"
proof (induction bs rule: rev_induct)
  case Nil
  then show ?case by simp
next
  case (snoc b bs)
  have "unat b < 256"
    by simp
  then have "(be_decode bs * 256 + unat b) div 256 = be_decode bs"
    by simp
  moreover have "of_nat (be_decode bs * 256 + unat b) = b"
  proof -
    have "(256 :: byte) = 0" by simp
    then show ?thesis by (simp only: of_nat_add of_nat_mult of_nat_numeral) simp
  qed
  ultimately show ?case
    using snoc.IH by simp
qed

text \<open>The byte sequences of the word types, and back.\<close>

definition net16 :: "u16 \<Rightarrow> byte list" where "net16 w = be_encode 2 (unat w)"
definition net32 :: "u32 \<Rightarrow> byte list" where "net32 w = be_encode 4 (unat w)"
definition net64 :: "u64 \<Rightarrow> byte list" where "net64 w = be_encode 8 (unat w)"

definition from_net16 :: "byte list \<Rightarrow> u16" where "from_net16 bs = of_nat (be_decode bs)"
definition from_net32 :: "byte list \<Rightarrow> u32" where "from_net32 bs = of_nat (be_decode bs)"
definition from_net64 :: "byte list \<Rightarrow> u64" where "from_net64 bs = of_nat (be_decode bs)"

lemma length_net [simp]:
  "length (net16 a) = 2" "length (net32 b) = 4" "length (net64 c) = 8"
  by (simp_all add: net16_def net32_def net64_def)

lemma from_net16_net16 [simp]: "from_net16 (net16 w) = w"
  using unat_less_pow [of w] by (simp add: from_net16_def net16_def be_decode_encode)

lemma from_net32_net32 [simp]: "from_net32 (net32 w) = w"
  using unat_less_pow [of w] by (simp add: from_net32_def net32_def be_decode_encode)

lemma from_net64_net64 [simp]: "from_net64 (net64 w) = w"
  using unat_less_pow [of w] by (simp add: from_net64_def net64_def be_decode_encode)

lemma net32_from_net32: "length bs = 4 \<Longrightarrow> net32 (from_net32 bs) = bs"
  using be_decode_less [of bs] be_encode_decode [of bs]
  by (simp add: from_net32_def net32_def unat_of_nat)

lemma net64_from_net64: "length bs = 8 \<Longrightarrow> net64 (from_net64 bs) = bs"
  using be_decode_less [of bs] be_encode_decode [of bs]
  by (simp add: from_net64_def net64_def unat_of_nat)

section \<open>Searching\<close>

text \<open>
  \<open>std::search\<close>: the position of the first occurrence of \<open>pat\<close>, \<open>None\<close> for the end
  iterator.
\<close>

fun search :: "'a list \<Rightarrow> 'a list \<Rightarrow> nat option" where
  "search pat [] = (if pat = [] then Some 0 else None)"
| "search pat (x # xs) =
     (if take (length pat) (x # xs) = pat then Some 0 else map_option Suc (search pat xs))"

lemma search_Some:
  "search pat s = Some i \<Longrightarrow> i + length pat \<le> length s \<and> take (length pat) (drop i s) = pat"
proof (induction s arbitrary: i)
  case Nil
  then show ?case by (simp split: if_splits)
next
  case (Cons x s)
  show ?case
  proof (cases "take (length pat) (x # s) = pat")
    case True
    then have "length pat \<le> length (x # s)"
      by (metis length_take min.absorb_iff2)
    with True Cons.prems show ?thesis by simp
  next
    case False
    with Cons.prems obtain j where "search pat s = Some j" "i = Suc j" by auto
    with Cons.IH show ?thesis by simp
  qed
qed

lemma search_Some_first: "search pat s = Some i \<Longrightarrow> j < i \<Longrightarrow> take (length pat) (drop j s) \<noteq> pat"
proof (induction s arbitrary: i j)
  case Nil
  then show ?case by (simp split: if_splits)
next
  case (Cons x s)
  then obtain k where k: "search pat s = Some k" "i = Suc k" "take (length pat) (x # s) \<noteq> pat"
    by (auto split: if_splits)
  with Cons.IH [of k] Cons.prems show ?case by (cases j) auto
qed

lemma search_None: "search pat s = None \<Longrightarrow> take (length pat) (drop j s) \<noteq> pat"
proof (induction s arbitrary: j)
  case Nil
  then show ?case by (simp split: if_splits)
next
  case (Cons x s)
  then show ?case by (cases j) (auto split: if_splits)
qed

lemma search_append_hit:
  assumes "\<And>j. j < length a \<Longrightarrow> take (length pat) (drop j (a @ pat @ b)) \<noteq> pat"
  shows "search pat (a @ pat @ b) = Some (length a)"
  using assms
proof (induction a)
  case Nil
  then show ?case by (cases "pat @ b") (auto simp flip: append_eq_conv_conj simp: append_eq_Cons_conv)
next
  case (Cons x a)
  have "take (length pat) (x # a @ pat @ b) \<noteq> pat"
    using Cons.prems [of 0] by simp
  moreover have "search pat (a @ pat @ b) = Some (length a)"
    using Cons.prems [of "Suc _"] by (intro Cons.IH) fastforce
  ultimately show ?case by simp
qed

section \<open>Lists\<close>

lemma take_append_drop_add: "take n xs @ take m (drop n xs) = take (n + m) xs"
  by (simp add: take_add)

text \<open>
  A loop over a byte stream that stops in the middle: of \<open>xs\<close>, it has consumed \<open>k - c\<close> bytes, and with more input
  \<open>ys\<close> it behaves like a loop \<open>f\<close> over what is left, from a state with \<open>P\<close>.
\<close>

definition resumes :: "('s \<Rightarrow> bool) \<Rightarrow> ('b list \<Rightarrow> 's \<Rightarrow> 'r) \<Rightarrow> 'b list \<Rightarrow> 'b list \<Rightarrow> nat \<Rightarrow> nat \<Rightarrow> 'r \<Rightarrow> bool" where
  "resumes P f xs ys c k r \<longleftrightarrow> c \<le> k \<and> k - c \<le> length xs \<and> (\<exists>s. P s \<and> r = f (drop (k - c) xs @ ys) s)"

lemma resumes_drop: "resumes P f (drop j xs) ys (c + j) k r \<Longrightarrow> j \<le> length xs \<Longrightarrow> resumes P f xs ys c k r"
  by (auto simp: resumes_def add.commute)

lemma resumes_here: "P s \<Longrightarrow> r = f (xs @ ys) s \<Longrightarrow> resumes P f xs ys c c r"
  by (auto simp: resumes_def)

end
