(* ===== verification/Net_Enums.thy ===== *)
theory Net_Enums
  imports Net_Prelude
begin

unbundle bit_operations_syntax

text \<open>
  The enumerations of \<open>libcaf_net\<close> with their generated string conversions
  (\<open>src/net/operation_strings.cpp\<close>, \<open>src/net/basp/*_strings.cpp\<close>).
  \<^item> \<open>ec\<close> and \<open>connection_state\<close> only ever hold enumerators and are datatypes;
  \<^item> \<open>operation\<close> is a bit mask over \<open>int\<close>: its operators leave the enumerators (\<open>~x\<close>), so it
    is a 32-bit word;
  \<^item> \<open>message_type\<close> is read from the wire by a \<open>reinterpret_cast\<close> and holds any byte.
  The out parameter of \<open>from_string\<close> and \<open>from_integer\<close> is assigned exactly when they return
  true: \<open>Some\<close> is true with the assigned value, \<open>None\<close> is false.
\<close>

section \<open>I/O operations (caf/net/operation.hpp)\<close>

type_synonym operation = "32 word"

abbreviation (input) op_none :: operation where "op_none \<equiv> 0"
abbreviation (input) op_read :: operation where "op_read \<equiv> 1"
abbreviation (input) op_write :: operation where "op_write \<equiv> 2"
abbreviation (input) op_read_write :: operation where "op_read_write \<equiv> 3"
abbreviation (input) op_shutdown :: operation where "op_shutdown \<equiv> 4"

definition operation_or :: "operation \<Rightarrow> operation \<Rightarrow> operation" where
  [simp]: "operation_or x y = x OR y"

definition operation_and :: "operation \<Rightarrow> operation \<Rightarrow> operation" where
  [simp]: "operation_and x y = x AND y"

definition operation_xor :: "operation \<Rightarrow> operation \<Rightarrow> operation" where
  [simp]: "operation_xor x y = x XOR y"

definition operation_not :: "operation \<Rightarrow> operation" where
  [simp]: "operation_not x = NOT x"

definition operation_to_string :: "operation \<Rightarrow> string" where
  "operation_to_string x =
     (if x = op_none then ''none''
      else if x = op_read then ''read''
      else if x = op_write then ''write''
      else if x = op_read_write then ''read_write''
      else if x = op_shutdown then ''shutdown''
      else ''???'')"

definition operation_from_string :: "string \<Rightarrow> operation option" where
  "operation_from_string s =
     (if s = ''none'' then Some op_none
      else if s = ''read'' then Some op_read
      else if s = ''write'' then Some op_write
      else if s = ''read_write'' then Some op_read_write
      else if s = ''shutdown'' then Some op_shutdown
      else None)"

definition operation_from_integer :: "32 word \<Rightarrow> operation option" where
  "operation_from_integer i =
     (if i \<in> {op_none, op_read, op_write, op_read_write, op_shutdown} then Some i else None)"

section \<open>BASP error codes (caf/net/basp/ec.hpp)\<close>

datatype ec =
    ec_invalid_magic_number
  | ec_unexpected_number_of_bytes
  | ec_unexpected_payload
  | ec_missing_payload
  | ec_illegal_state
  | ec_invalid_handshake
  | ec_missing_handshake
  | ec_unexpected_handshake
  | ec_version_mismatch
  | ec_unimplemented
  | ec_app_identifiers_mismatch
  | ec_invalid_payload
  | ec_invalid_scheme
  | ec_invalid_locator

fun ec_to_string :: "ec \<Rightarrow> string" where
  "ec_to_string ec_invalid_magic_number = ''invalid_magic_number''"
| "ec_to_string ec_unexpected_number_of_bytes = ''unexpected_number_of_bytes''"
| "ec_to_string ec_unexpected_payload = ''unexpected_payload''"
| "ec_to_string ec_missing_payload = ''missing_payload''"
| "ec_to_string ec_illegal_state = ''illegal_state''"
| "ec_to_string ec_invalid_handshake = ''invalid_handshake''"
| "ec_to_string ec_missing_handshake = ''missing_handshake''"
| "ec_to_string ec_unexpected_handshake = ''unexpected_handshake''"
| "ec_to_string ec_version_mismatch = ''version_mismatch''"
| "ec_to_string ec_unimplemented = ''unimplemented''"
| "ec_to_string ec_app_identifiers_mismatch = ''app_identifiers_mismatch''"
| "ec_to_string ec_invalid_payload = ''invalid_payload''"
| "ec_to_string ec_invalid_scheme = ''invalid_scheme''"
| "ec_to_string ec_invalid_locator = ''invalid_locator''"

definition ec_from_string :: "string \<Rightarrow> ec option" where
  "ec_from_string s =
     (if s = ''invalid_magic_number'' then Some ec_invalid_magic_number
      else if s = ''unexpected_number_of_bytes'' then Some ec_unexpected_number_of_bytes
      else if s = ''unexpected_payload'' then Some ec_unexpected_payload
      else if s = ''missing_payload'' then Some ec_missing_payload
      else if s = ''illegal_state'' then Some ec_illegal_state
      else if s = ''invalid_handshake'' then Some ec_invalid_handshake
      else if s = ''missing_handshake'' then Some ec_missing_handshake
      else if s = ''unexpected_handshake'' then Some ec_unexpected_handshake
      else if s = ''version_mismatch'' then Some ec_version_mismatch
      else if s = ''unimplemented'' then Some ec_unimplemented
      else if s = ''app_identifiers_mismatch'' then Some ec_app_identifiers_mismatch
      else if s = ''invalid_payload'' then Some ec_invalid_payload
      else if s = ''invalid_scheme'' then Some ec_invalid_scheme
      else if s = ''invalid_locator'' then Some ec_invalid_locator
      else None)"

text \<open>The underlying \<open>uint8_t\<close> values.\<close>

fun ec_to_integer :: "ec \<Rightarrow> u8" where
  "ec_to_integer ec_invalid_magic_number = 1"
| "ec_to_integer ec_unexpected_number_of_bytes = 2"
| "ec_to_integer ec_unexpected_payload = 3"
| "ec_to_integer ec_missing_payload = 4"
| "ec_to_integer ec_illegal_state = 5"
| "ec_to_integer ec_invalid_handshake = 6"
| "ec_to_integer ec_missing_handshake = 7"
| "ec_to_integer ec_unexpected_handshake = 8"
| "ec_to_integer ec_version_mismatch = 9"
| "ec_to_integer ec_unimplemented = 10"
| "ec_to_integer ec_app_identifiers_mismatch = 11"
| "ec_to_integer ec_invalid_payload = 12"
| "ec_to_integer ec_invalid_scheme = 13"
| "ec_to_integer ec_invalid_locator = 14"

definition ec_from_integer :: "u8 \<Rightarrow> ec option" where
  "ec_from_integer n =
     (if n = 1 then Some ec_invalid_magic_number
      else if n = 2 then Some ec_unexpected_number_of_bytes
      else if n = 3 then Some ec_unexpected_payload
      else if n = 4 then Some ec_missing_payload
      else if n = 5 then Some ec_illegal_state
      else if n = 6 then Some ec_invalid_handshake
      else if n = 7 then Some ec_missing_handshake
      else if n = 8 then Some ec_unexpected_handshake
      else if n = 9 then Some ec_version_mismatch
      else if n = 10 then Some ec_unimplemented
      else if n = 11 then Some ec_app_identifiers_mismatch
      else if n = 12 then Some ec_invalid_payload
      else if n = 13 then Some ec_invalid_scheme
      else if n = 14 then Some ec_invalid_locator
      else None)"

section \<open>BASP connection states (caf/net/basp/connection\_state.hpp)\<close>

datatype connection_state =
    cs_await_handshake_header
  | cs_await_handshake_payload
  | cs_await_header
  | cs_await_payload
  | cs_shutdown

fun connection_state_to_string :: "connection_state \<Rightarrow> string" where
  "connection_state_to_string cs_await_handshake_header = ''await_handshake_header''"
| "connection_state_to_string cs_await_handshake_payload = ''await_handshake_payload''"
| "connection_state_to_string cs_await_header = ''await_header''"
| "connection_state_to_string cs_await_payload = ''await_payload''"
| "connection_state_to_string cs_shutdown = ''shutdown''"

definition connection_state_from_string :: "string \<Rightarrow> connection_state option" where
  "connection_state_from_string s =
     (if s = ''await_handshake_header'' then Some cs_await_handshake_header
      else if s = ''await_handshake_payload'' then Some cs_await_handshake_payload
      else if s = ''await_header'' then Some cs_await_header
      else if s = ''await_payload'' then Some cs_await_payload
      else if s = ''shutdown'' then Some cs_shutdown
      else None)"

text \<open>The underlying \<open>uint8_t\<close> values.\<close>

fun connection_state_to_integer :: "connection_state \<Rightarrow> u8" where
  "connection_state_to_integer cs_await_handshake_header = 0"
| "connection_state_to_integer cs_await_handshake_payload = 1"
| "connection_state_to_integer cs_await_header = 2"
| "connection_state_to_integer cs_await_payload = 3"
| "connection_state_to_integer cs_shutdown = 4"

definition connection_state_from_integer :: "u8 \<Rightarrow> connection_state option" where
  "connection_state_from_integer n =
     (if n = 0 then Some cs_await_handshake_header
      else if n = 1 then Some cs_await_handshake_payload
      else if n = 2 then Some cs_await_header
      else if n = 3 then Some cs_await_payload
      else if n = 4 then Some cs_shutdown
      else None)"

section \<open>BASP message types (caf/net/basp/message\_type.hpp)\<close>

type_synonym message_type = u8

abbreviation (input) mt_handshake :: message_type where "mt_handshake \<equiv> 0"
abbreviation (input) mt_actor_message :: message_type where "mt_actor_message \<equiv> 1"
abbreviation (input) mt_resolve_request :: message_type where "mt_resolve_request \<equiv> 2"
abbreviation (input) mt_resolve_response :: message_type where "mt_resolve_response \<equiv> 3"
abbreviation (input) mt_monitor_message :: message_type where "mt_monitor_message \<equiv> 4"
abbreviation (input) mt_down_message :: message_type where "mt_down_message \<equiv> 5"
abbreviation (input) mt_heartbeat :: message_type where "mt_heartbeat \<equiv> 6"

definition message_type_to_string :: "message_type \<Rightarrow> string" where
  "message_type_to_string x =
     (if x = mt_handshake then ''handshake''
      else if x = mt_actor_message then ''actor_message''
      else if x = mt_resolve_request then ''resolve_request''
      else if x = mt_resolve_response then ''resolve_response''
      else if x = mt_monitor_message then ''monitor_message''
      else if x = mt_down_message then ''down_message''
      else if x = mt_heartbeat then ''heartbeat''
      else ''???'')"

definition message_type_from_string :: "string \<Rightarrow> message_type option" where
  "message_type_from_string s =
     (if s = ''handshake'' then Some mt_handshake
      else if s = ''actor_message'' then Some mt_actor_message
      else if s = ''resolve_request'' then Some mt_resolve_request
      else if s = ''resolve_response'' then Some mt_resolve_response
      else if s = ''monitor_message'' then Some mt_monitor_message
      else if s = ''down_message'' then Some mt_down_message
      else if s = ''heartbeat'' then Some mt_heartbeat
      else None)"

definition message_type_from_integer :: "u8 \<Rightarrow> message_type option" where
  "message_type_from_integer n =
     (if n \<in> {mt_handshake, mt_actor_message, mt_resolve_request, mt_resolve_response, mt_monitor_message, mt_down_message, mt_heartbeat} then Some n else None)"

section \<open>The conversions invert each other\<close>

lemma ec_string_roundtrip [simp]: "ec_from_string (ec_to_string x) = Some x"
  by (cases x) (simp_all add: ec_from_string_def)

lemma ec_integer_roundtrip [simp]: "ec_from_integer (ec_to_integer x) = Some x"
  by (cases x) (simp_all add: ec_from_integer_def)

lemma connection_state_string_roundtrip [simp]:
  "connection_state_from_string (connection_state_to_string x) = Some x"
  by (cases x) (simp_all add: connection_state_from_string_def)

lemma connection_state_integer_roundtrip [simp]:
  "connection_state_from_integer (connection_state_to_integer x) = Some x"
  by (cases x) (simp_all add: connection_state_from_integer_def)

lemma ec_from_string_Some: "ec_from_string s = Some x \<Longrightarrow> ec_to_string x = s"
  by (auto simp: ec_from_string_def split: if_splits)

lemma connection_state_from_string_Some:
  "connection_state_from_string s = Some x \<Longrightarrow> connection_state_to_string x = s"
  by (auto simp: connection_state_from_string_def split: if_splits)

lemma message_type_string_roundtrip:
  "message_type_from_integer x = Some y \<Longrightarrow> message_type_from_string (message_type_to_string y) = Some y"
  by (auto simp: message_type_from_integer_def message_type_to_string_def
      message_type_from_string_def split: if_splits)

lemma message_type_from_string_Some:
  "message_type_from_string s = Some x \<Longrightarrow> message_type_to_string x = s"
  by (auto simp: message_type_from_string_def message_type_to_string_def split: if_splits)

lemma operation_string_roundtrip:
  "operation_from_integer x = Some y \<Longrightarrow> operation_from_string (operation_to_string y) = Some y"
  by (auto simp: operation_from_integer_def operation_to_string_def
      operation_from_string_def split: if_splits)

lemma operation_from_string_Some: "operation_from_string s = Some x \<Longrightarrow> operation_to_string x = s"
  by (auto simp: operation_from_string_def operation_to_string_def split: if_splits)

section \<open>Errors\<close>

text \<open>
  \<open>caf::error\<close> carries a category, a code and a message; a default-constructed error is "no
  error", here \<open>None\<close> of \<open>caf_error option\<close>. \<open>sec\<close> and \<open>pec\<close> are enumerations of the CAF
  core library; the constructors are the enumerators the sources of this repository name.
  \<open>Foreign_error\<close> stands for the error values that code outside of the repository
  (serializers, applications, operating system wrappers) hands in.
\<close>

datatype sec =
    sec_runtime_error
  | sec_connection_closed
  | sec_socket_invalid
  | sec_socket_disconnected
  | sec_socket_operation_failed
  | sec_unavailable_or_would_block
  | sec_invalid_argument
  | sec_cannot_connect_to_node
  | sec_cannot_open_port
  | sec_network_syscall_failed
  | sec_invalid_protocol_family
  | sec_request_receiver_down
  | sec_remote_lookup_failed
  | sec_unexpected_message
  | sec_unexpected_response

datatype pec =
    pec_too_many_characters
  | pec_invalid_argument
  | pec_missing_field
  | pec_exponent_underflow
  | pec_exponent_overflow
  | pec_unexpected_character

datatype caf_error =
    Sec_error sec string
  | Pec_error pec string
  | Ec_error ec
  | Foreign_error nat

end
