(* ===== verification/Layers.thy ===== *)
theory Layers
  imports Net_Enums
begin

text \<open>
  The interfaces between protocol layers (\<open>libcaf_net/ProtocolLayering.rst\<close>). A C++ layer is a
  class template over its upper layer that receives a \<open>LowerLayerPtr\<close> with every call. The
  \<open>*_layer_ptr::access\<close> classes are records of operations here: a layer's operations take the
  operations of the layer below as an argument, together with its state, and thread that state
  explicitly. A reference to a buffer (\<open>output_buffer()\<close>) is a pair of a read and a write operation.
\<close>

section \<open>Receive policies (caf/net/receive\_policy.hpp)\<close>

record receive_policy =
  min_size :: u32
  max_size :: u32

definition policy_between :: "u32 \<Rightarrow> u32 \<Rightarrow> receive_policy" where
  "policy_between lo hi = \<lparr>min_size = lo, max_size = hi\<rparr>"

definition policy_exactly :: "u32 \<Rightarrow> receive_policy" where
  "policy_exactly n = \<lparr>min_size = n, max_size = n\<rparr>"

definition policy_up_to :: "u32 \<Rightarrow> receive_policy" where
  "policy_up_to hi = \<lparr>min_size = 1, max_size = hi\<rparr>"

definition policy_stop :: receive_policy where
  "policy_stop = \<lparr>min_size = 0, max_size = 0\<rparr>"

section \<open>The stream-oriented lower layer (caf/net/stream\_oriented\_layer\_ptr.hpp)\<close>

record 'd stream_oriented_layer_ptr =
  can_send_more :: "'d \<Rightarrow> bool"
  begin_output :: "'d \<Rightarrow> 'd"
  output_buffer :: "'d \<Rightarrow> byte_buffer"
  write_output :: "byte_buffer \<Rightarrow> 'd \<Rightarrow> 'd"
  end_output :: "'d \<Rightarrow> 'd"
  set_abort_reason :: "caf_error \<Rightarrow> 'd \<Rightarrow> 'd"
  abort_reason :: "'d \<Rightarrow> caf_error option"
  configure_read :: "receive_policy \<Rightarrow> 'd \<Rightarrow> 'd"

text \<open>\<open>begin_output(); f(output_buffer()); end_output()\<close>, the way every layer writes output.\<close>

definition append_output :: "'d stream_oriented_layer_ptr \<Rightarrow> (byte_buffer \<Rightarrow> byte_buffer) \<Rightarrow> 'd \<Rightarrow> 'd" where
  "append_output L f d =
     (let d1 = begin_output L d; d2 = write_output L (f (output_buffer L d1)) d1 in end_output L d2)"

text \<open>
  What upper layers rely on: the output buffer is a variable that only writes through its
  reference change, the abort reason is a variable that only \<open>abort_reason(reason)\<close> changes.
\<close>

locale stream_lower =
  fixes L :: "'d stream_oriented_layer_ptr"
  assumes output_write [simp]: "output_buffer L (write_output L b d) = b"
    and output_begin [simp]: "output_buffer L (begin_output L d) = output_buffer L d"
    and output_end [simp]: "output_buffer L (end_output L d) = output_buffer L d"
    and output_configure [simp]: "output_buffer L (configure_read L p d) = output_buffer L d"
    and output_abort [simp]: "output_buffer L (set_abort_reason L e d) = output_buffer L d"
    and abort_set [simp]: "abort_reason L (set_abort_reason L e d) = Some e"
    and abort_write [simp]: "abort_reason L (write_output L b d) = abort_reason L d"
    and abort_begin [simp]: "abort_reason L (begin_output L d) = abort_reason L d"
    and abort_end [simp]: "abort_reason L (end_output L d) = abort_reason L d"
    and abort_configure [simp]: "abort_reason L (configure_read L p d) = abort_reason L d"
begin

lemma output_append: "output_buffer L (append_output L f d) = f (output_buffer L d)"
  by (simp add: append_output_def Let_def)

lemma abort_append: "abort_reason L (append_output L f d) = abort_reason L d"
  by (simp add: append_output_def Let_def)

end

section \<open>Upper layers of a stream\<close>

text \<open>
  The callbacks of a stream-oriented upper layer. \<open>consume\<close> returns the number of consumed bytes,
  negative on errors. The \<open>socket_manager*\<close> and the settings that \<open>init\<close> receives are captured in
  the operation.
\<close>

record ('u, 'd) stream_upper =
  su_init :: "'u \<Rightarrow> 'd \<Rightarrow> 'u \<times> 'd \<times> caf_error option"
  su_prepare_send :: "'u \<Rightarrow> 'd \<Rightarrow> 'u \<times> 'd \<times> bool"
  su_done_sending :: "'u \<Rightarrow> 'd \<Rightarrow> 'u \<times> 'd \<times> bool"
  su_abort :: "caf_error \<Rightarrow> 'u \<Rightarrow> 'd \<Rightarrow> 'u \<times> 'd"
  su_consume :: "byte list \<Rightarrow> byte list \<Rightarrow> 'u \<Rightarrow> 'd \<Rightarrow> 'u \<times> 'd \<times> int"

end
