(* ===== verification/Handshake.thy ===== *)
theory Handshake
  imports Layers
begin

text \<open>
  The WebSocket opening handshake (\<open>caf/net/web_socket/handshake.hpp\<close>,
  \<open>src/net/web_socket/handshake.cpp\<close>). Text is a list of characters; \<open>bytes_of\<close> and
  \<open>chars_of\<close> are the casts between \<open>char\<close> and \<open>byte\<close>. Base64, SHA-1, the dictionary iteration and the
  settings of CAF are fields of an environment record.
\<close>

section \<open>Text\<close>

definition byte_of_char :: "char \<Rightarrow> byte" where "byte_of_char c = of_nat (of_char c)"
definition char_of_byte :: "byte \<Rightarrow> char" where "char_of_byte b = char_of (unat b)"

definition bytes_of :: "string \<Rightarrow> byte list" where "bytes_of s = map byte_of_char s"
definition chars_of :: "byte list \<Rightarrow> string" where "chars_of bs = map char_of_byte bs"

abbreviation (input) cr :: char where "cr \<equiv> CHR 0x0D"
abbreviation (input) lf :: char where "lf \<equiv> CHR 0x0A"
abbreviation (input) crlf :: string where "crlf \<equiv> [cr, lf]"

lemma char_of_byte_of_char [simp]: "char_of_byte (byte_of_char c) = c"
  by (simp add: byte_of_char_def char_of_byte_def unat_of_nat)

lemma byte_of_char_of_byte [simp]: "byte_of_char (char_of_byte b) = b"
  using unat_less_pow [of b] by (simp add: byte_of_char_def char_of_byte_def)

lemma chars_of_bytes_of [simp]: "chars_of (bytes_of s) = s"
  by (simp add: chars_of_def bytes_of_def comp_def)

lemma bytes_of_chars_of [simp]: "bytes_of (chars_of bs) = bs"
  by (simp add: chars_of_def bytes_of_def comp_def)

lemma bytes_of_append: "bytes_of (s @ t) = bytes_of s @ bytes_of t"
  by (simp add: bytes_of_def)

lemma bytes_of_Nil [simp]: "bytes_of [] = []"
  by (simp add: bytes_of_def)

lemma length_bytes_of [simp]: "length (bytes_of s) = length s"
  by (simp add: bytes_of_def)

section \<open>The handshake data\<close>

record 'f ws_env =
  base64_encode :: "byte list \<Rightarrow> string"
  base64_decode :: "string \<Rightarrow> byte list option"
  sha1_compute :: "string \<Rightarrow> byte list"
  dict_items :: "(string \<rightharpoonup> string) \<Rightarrow> (string \<times> string) list"
  settings_put :: "string \<Rightarrow> string \<Rightarrow> 'f \<Rightarrow> 'f"
  settings_get :: "string \<Rightarrow> 'f \<Rightarrow> string option"

record handshake =
  hs_key :: "byte list"
  hs_fields :: "string \<rightharpoonup> string"

abbreviation (input) max_http_size :: nat where "max_http_size \<equiv> 2048"

definition handshake_new :: handshake where
  "handshake_new = \<lparr>hs_key = replicate 16 0, hs_fields = Map.empty\<rparr>"

definition set_endpoint :: "string \<Rightarrow> handshake \<Rightarrow> handshake" where
  "set_endpoint v hs = hs\<lparr>hs_fields := (hs_fields hs)(''_endpoint'' \<mapsto> v)\<rparr>"

definition set_host :: "string \<Rightarrow> handshake \<Rightarrow> handshake" where
  "set_host v hs = hs\<lparr>hs_fields := (hs_fields hs)(''_host'' \<mapsto> v)\<rparr>"

definition set_origin :: "string \<Rightarrow> handshake \<Rightarrow> handshake" where
  "set_origin v hs = hs\<lparr>hs_fields := (hs_fields hs)(''Origin'' \<mapsto> v)\<rparr>"

definition set_protocols :: "string \<Rightarrow> handshake \<Rightarrow> handshake" where
  "set_protocols v hs = hs\<lparr>hs_fields := (hs_fields hs)(''Sec-WebSocket-Protocol'' \<mapsto> v)\<rparr>"

definition set_extensions :: "string \<Rightarrow> handshake \<Rightarrow> handshake" where
  "set_extensions v hs = hs\<lparr>hs_fields := (hs_fields hs)(''Sec-WebSocket-Extensions'' \<mapsto> v)\<rparr>"

definition has_valid_key :: "handshake \<Rightarrow> bool" where
  "has_valid_key hs = list_ex (\<lambda>x. x \<noteq> 0) (hs_key hs)"

definition has_mandatory_fields :: "handshake \<Rightarrow> bool" where
  "has_mandatory_fields hs \<longleftrightarrow> hs_fields hs ''_endpoint'' \<noteq> None \<and> hs_fields hs ''_host'' \<noteq> None"

definition assign_key :: "'f ws_env \<Rightarrow> string \<Rightarrow> handshake \<Rightarrow> handshake \<times> bool" where
  "assign_key E base64_key hs =
     (if length base64_key = 24 \<and> drop 22 base64_key = ''=='' then
        case base64_decode E base64_key of
          Some buf \<Rightarrow> (hs\<lparr>hs_key := buf\<rparr>, True)
        | None \<Rightarrow> (hs, False)
      else (hs, False))"

definition response_key :: "'f ws_env \<Rightarrow> handshake \<Rightarrow> string" where
  "response_key E hs =
     base64_encode E
       (sha1_compute E (base64_encode E (hs_key hs) @ ''258EAFA5-E914-47DA-95CA-C5AB0DC85B11''))"

text \<open>\<open>randomize_key\<close> fills the key from a generator of numbers in the range 0 to 255.\<close>

fun draw_bytes :: "('g \<Rightarrow> nat \<times> 'g) \<Rightarrow> nat \<Rightarrow> 'g \<Rightarrow> byte list" where
  "draw_bytes f 0 g = []"
| "draw_bytes f (Suc n) g = (let (x, g') = f g in of_nat x # draw_bytes f n g')"

definition randomize_key :: "('g \<Rightarrow> nat \<times> 'g) \<Rightarrow> 'g \<Rightarrow> handshake \<Rightarrow> handshake" where
  "randomize_key f seed hs = hs\<lparr>hs_key := draw_bytes f (length (hs_key hs)) seed\<rparr>"

definition lookup :: "string \<Rightarrow> handshake \<Rightarrow> string" where
  "lookup name hs = (case hs_fields hs name of Some v \<Rightarrow> v | None \<Rightarrow> [])"

section \<open>HTTP generation\<close>

definition http_field :: "string \<Rightarrow> string \<Rightarrow> string" where
  "http_field name val = name @ '': '' @ val @ crlf"

definition user_fields :: "'f ws_env \<Rightarrow> handshake \<Rightarrow> (string \<times> string) list" where
  "user_fields E hs = filter (\<lambda>(k, v). take 1 k \<noteq> ''_'') (dict_items E (hs_fields hs))"

definition http_1_request :: "'f ws_env \<Rightarrow> handshake \<Rightarrow> string" where
  "http_1_request E hs =
     ''GET '' @ lookup ''_endpoint'' hs @ '' HTTP/1.1'' @ crlf @
     ''Host: '' @ lookup ''_host'' hs @ crlf @
     ''Upgrade: websocket'' @ crlf @
     ''Connection: Upgrade'' @ crlf @
     ''Sec-WebSocket-Version: 13'' @ crlf @
     ''Sec-WebSocket-Key: '' @ base64_encode E (hs_key hs) @ crlf @
     concat (map (\<lambda>(k, v). http_field k v) (user_fields E hs)) @
     crlf"

definition write_http_1_request :: "'f ws_env \<Rightarrow> handshake \<Rightarrow> byte_buffer \<Rightarrow> byte_buffer" where
  "write_http_1_request E hs buf = buf @ bytes_of (http_1_request E hs)"

definition http_1_response :: "'f ws_env \<Rightarrow> handshake \<Rightarrow> string" where
  "http_1_response E hs =
     ''HTTP/1.1 101 Switching Protocols'' @ crlf @
     ''Upgrade: websocket'' @ crlf @
     ''Connection: Upgrade'' @ crlf @
     ''Sec-WebSocket-Accept: '' @ response_key E hs @ crlf @ crlf"

definition write_http_1_response :: "'f ws_env \<Rightarrow> handshake \<Rightarrow> byte_buffer \<Rightarrow> byte_buffer" where
  "write_http_1_response E hs buf = buf @ bytes_of (http_1_response E hs)"

definition write_http_1_header_too_large :: "byte_buffer \<Rightarrow> byte_buffer" where
  "write_http_1_header_too_large buf =
     buf @ bytes_of (''HTTP/1.1 431 Request Header Fields Too Large'' @ crlf @
       ''Content-Type: text/plain'' @ crlf @ crlf @ ''Header exceeds 2048 Bytes.'' @ crlf)"

section \<open>HTTP parsing\<close>

text \<open>The lines of \<open>for_each_http_line\<close> and \<open>server::for_each_line\<close>: text after the last line
  break is ignored.\<close>

function crlf_lines :: "string \<Rightarrow> string list" where
  "crlf_lines s =
     (case search crlf s of
        None \<Rightarrow> []
      | Some pos \<Rightarrow> take pos s # crlf_lines (drop (pos + 2) s))"
  by pat_completeness auto
termination
  by (relation "measure length") (auto dest: search_Some)

declare crlf_lines.simps [simp del]

definition for_each_http_line :: "string \<Rightarrow> (string \<Rightarrow> 's \<Rightarrow> 's) \<Rightarrow> 's \<Rightarrow> 's" where
  "for_each_http_line lines f s = fold f (filter (\<lambda>l. l \<noteq> []) (crlf_lines lines)) s"

definition split_at :: "string \<Rightarrow> string \<Rightarrow> string \<times> string" where
  "split_at str sep =
     (case search sep str of
        Some i \<Rightarrow> (take i str, drop (i + length sep) str)
      | None \<Rightarrow> (str, []))"

definition split2 :: "string \<Rightarrow> string \<Rightarrow> string \<times> string \<times> string" where
  "split2 str sep =
     (let (a, r1) = split_at str sep; (b, c) = split_at r1 sep in (a, b, c))"

definition is_space :: "char \<Rightarrow> bool" where
  "is_space c \<longleftrightarrow> c \<in> {CHR '' '', CHR 0x09, CHR 0x0A, CHR 0x0B, CHR 0x0C, CHR 0x0D}"

definition strip_blanks :: "string \<Rightarrow> string" where
  "strip_blanks s = rev (dropWhile (\<lambda>c. c = CHR '' '') (rev (dropWhile (\<lambda>c. c = CHR '' '') s)))"

definition trim :: "string \<Rightarrow> string" where
  "trim str = (if list_ex (\<lambda>c. \<not> is_space c) str then strip_blanks str else [])"

definition to_lower :: "char \<Rightarrow> char" where
  "to_lower c = (let n = of_char c :: nat in if 65 \<le> n \<and> n \<le> 90 then char_of (n + 32) else c)"

definition lowercase_equal :: "string \<Rightarrow> string \<Rightarrow> bool" where
  "lowercase_equal x y \<longleftrightarrow> length x = length y \<and> map to_lower x = map to_lower y"

record response_checker =
  ws_key :: string
  has_status_101 :: bool
  has_upgrade_field :: bool
  has_connection_field :: bool
  has_ws_accept_field :: bool

definition response_checker_new :: "string \<Rightarrow> response_checker" where
  "response_checker_new k =
     \<lparr>ws_key = k, has_status_101 = False, has_upgrade_field = False, has_connection_field = False,
      has_ws_accept_field = False\<rparr>"

definition checker_ok :: "response_checker \<Rightarrow> bool" where
  "checker_ok c \<longleftrightarrow>
     has_status_101 c \<and> has_upgrade_field c \<and> has_connection_field c \<and> has_ws_accept_field c"

definition check_line :: "string \<Rightarrow> response_checker \<Rightarrow> response_checker" where
  "check_line line c =
     (if take 6 line = ''HTTP/1'' then
        let (ignore1, code, ignore2) = split2 line '' '' in c\<lparr>has_status_101 := (code = ''101'')\<rparr>
      else
        let (f, v) = split_at line '':''; field = trim f; val = trim v in
        if field = ''Upgrade'' then c\<lparr>has_upgrade_field := lowercase_equal val ''websocket''\<rparr>
        else if field = ''Connection'' then c\<lparr>has_connection_field := lowercase_equal val ''upgrade''\<rparr>
        else if field = ''Sec-WebSocket-Accept'' then c\<lparr>has_ws_accept_field := (val = ws_key c)\<rparr>
        else c)"

definition is_valid_http_1_response :: "'f ws_env \<Rightarrow> handshake \<Rightarrow> string \<Rightarrow> bool" where
  "is_valid_http_1_response E hs http_response =
     (let seed = base64_encode E (hs_key hs) @ ''258EAFA5-E914-47DA-95CA-C5AB0DC85B11'';
          k = base64_encode E (sha1_compute E seed)
      in checker_ok (for_each_http_line http_response check_line (response_checker_new k)))"

definition split_http_1_header :: "byte list \<Rightarrow> string \<times> byte list" where
  "split_http_1_header bytes =
     (case search [0x0D, 0x0A, 0x0D, 0x0A] bytes of
        None \<Rightarrow> ([], bytes)
      | Some i \<Rightarrow> (chars_of (take (i + 4) bytes), drop (i + 4) bytes))"

section \<open>Lemmas on parsing\<close>

lemma search_fresh:
  assumes "c \<notin> set a"
  shows "search (c # cs) (a @ c # cs @ b) = Some (length a)"
proof -
  have "search (c # cs) (a @ (c # cs) @ b) = Some (length a)"
  proof (rule search_append_hit)
    fix j assume j: "j < length a"
    have "hd (drop j (a @ (c # cs) @ b)) = a ! j"
      using j by (simp add: hd_drop_conv_nth nth_append)
    moreover have "a ! j \<noteq> c" using assms j by (metis nth_mem)
    ultimately show "take (length (c # cs)) (drop j (a @ (c # cs) @ b)) \<noteq> c # cs"
      by (metis hd_take length_0_conv list.distinct(1) list.sel(1) neq0_conv)
  qed
  then show ?thesis by simp
qed

lemma search_absent: "c \<notin> set s \<Longrightarrow> search (c # cs) s = None"
  by (induction s) auto

lemma crlf_lines_Cons: "cr \<notin> set l \<Longrightarrow> crlf_lines (l @ cr # lf # rest) = l # crlf_lines rest"
  using search_fresh [of cr l "[lf]" rest] by (subst crlf_lines.simps) simp

lemma crlf_lines_Nil [simp]: "crlf_lines [] = []"
  by (subst crlf_lines.simps) simp

lemma split_at_fresh: "c \<notin> set a \<Longrightarrow> split_at (a @ c # b) [c] = (a, b)"
  using search_fresh [of c a "[]" b] by (simp add: split_at_def)

lemma split_at_absent: "c \<notin> set s \<Longrightarrow> split_at s [c] = (s, [])"
  by (simp add: split_at_def search_absent)

lemma dropWhile_hd: "s = [] \<or> \<not> P (hd s) \<Longrightarrow> dropWhile P s = s"
  by (cases s) auto

lemma strip_blanks_id: "CHR '' '' \<notin> set s \<Longrightarrow> strip_blanks (CHR '' '' # s) = s"
proof -
  assume "CHR '' '' \<notin> set s"
  then have "dropWhile (\<lambda>c. c = CHR '' '') s = s" "dropWhile (\<lambda>c. c = CHR '' '') (rev s) = rev s"
    by (intro dropWhile_hd; metis hd_in_set set_rev)+
  then show ?thesis by (simp add: strip_blanks_def)
qed

lemma trim_value: "\<forall>c \<in> set s. \<not> is_space c \<Longrightarrow> trim (CHR '' '' # s) = s"
proof -
  assume a: "\<forall>c \<in> set s. \<not> is_space c"
  then have "CHR '' '' \<notin> set s" by (auto simp: is_space_def)
  then show ?thesis
    using a by (cases s) (auto simp: trim_def strip_blanks_id is_space_def)
qed

section \<open>Responses\<close>

text \<open>The alphabet of Base64 (RFC 4648) has neither white space nor control characters.\<close>

definition base64_alphabet :: string where
  "base64_alphabet = ''ABCDEFGHIJKLMNOPQRSTUVWXYZabcdefghijklmnopqrstuvwxyz0123456789+/=''"

definition base64_text :: "string \<Rightarrow> bool" where
  "base64_text s \<longleftrightarrow> list_all (\<lambda>c. c \<in> set base64_alphabet) s"

definition base64_sound :: "'f ws_env \<Rightarrow> bool" where
  "base64_sound E \<longleftrightarrow> (\<forall>bs. base64_text (base64_encode E bs))"

lemma base64_text_clean:
  assumes "base64_text s"
  shows "cr \<notin> set s" "\<forall>c \<in> set s. \<not> is_space c"
proof -
  have "list_all (\<lambda>c. \<not> is_space c) base64_alphabet" by code_simp
  then show n: "\<forall>c \<in> set s. \<not> is_space c"
    using assms by (simp add: base64_text_def list_all_iff)
  have "is_space cr" by (simp add: is_space_def)
  with n show "cr \<notin> set s" by blast
qed

lemma response_lines:
  assumes "cr \<notin> set (response_key E hs)"
  shows "crlf_lines (http_1_response E hs) =
    [''HTTP/1.1 101 Switching Protocols'', ''Upgrade: websocket'', ''Connection: Upgrade'',
     ''Sec-WebSocket-Accept: '' @ response_key E hs, []]"
proof -
  note step = crlf_lines_Cons
  have "crlf_lines (http_1_response E hs) =
    crlf_lines (''HTTP/1.1 101 Switching Protocols'' @ cr # lf #
      (''Upgrade: websocket'' @ cr # lf #
      (''Connection: Upgrade'' @ cr # lf #
      ((''Sec-WebSocket-Accept: '' @ response_key E hs) @ cr # lf # ([] @ cr # lf # [])))))"
    by (simp add: http_1_response_def)
  also have "\<dots> = [''HTTP/1.1 101 Switching Protocols'', ''Upgrade: websocket'', ''Connection: Upgrade'',
     ''Sec-WebSocket-Accept: '' @ response_key E hs, []]"
    using assms
    by (subst step, simp, subst step, simp, subst step, simp, subst step, simp, subst step, simp, simp)
  finally show ?thesis .
qed

lemma check_status_line:
  "check_line ''HTTP/1.1 101 Switching Protocols'' c = c\<lparr>has_status_101 := True\<rparr>"
proof -
  have "split2 ''HTTP/1.1 101 Switching Protocols'' '' '' = (''HTTP/1.1'', ''101'', ''Switching Protocols'')"
    by code_simp
  then show ?thesis by (simp add: check_line_def)
qed

lemma check_upgrade_line: "check_line ''Upgrade: websocket'' c = c\<lparr>has_upgrade_field := True\<rparr>"
proof -
  have "split_at ''Upgrade: websocket'' '':'' = (''Upgrade'', '' websocket'')" by code_simp
  moreover have "trim ''Upgrade'' = ''Upgrade''" "trim '' websocket'' = ''websocket''" by code_simp+
  ultimately show ?thesis by (simp add: check_line_def lowercase_equal_def)
qed

lemma check_connection_line: "check_line ''Connection: Upgrade'' c = c\<lparr>has_connection_field := True\<rparr>"
proof -
  have "split_at ''Connection: Upgrade'' '':'' = (''Connection'', '' Upgrade'')" by code_simp
  moreover have "trim ''Connection'' = ''Connection''" "trim '' Upgrade'' = ''Upgrade''"
    "lowercase_equal ''Upgrade'' ''upgrade''" by code_simp+
  ultimately show ?thesis by (simp add: check_line_def)
qed

lemma check_accept_line:
  assumes "\<forall>c \<in> set k. \<not> is_space c"
  shows "check_line (''Sec-WebSocket-Accept: '' @ k) c = c\<lparr>has_ws_accept_field := (k = ws_key c)\<rparr>"
proof -
  have "split_at (''Sec-WebSocket-Accept'' @ CHR '':'' # CHR '' '' # k) '':''
      = (''Sec-WebSocket-Accept'', CHR '' '' # k)"
    by (rule split_at_fresh) simp
  then have "split_at (''Sec-WebSocket-Accept: '' @ k) '':'' = (''Sec-WebSocket-Accept'', CHR '' '' # k)"
    by simp
  moreover have "trim ''Sec-WebSocket-Accept'' = ''Sec-WebSocket-Accept''" by code_simp
  ultimately show ?thesis
    using trim_value [OF assms] by (simp add: check_line_def)
qed

text \<open>A response is accepted exactly by the clients whose key gives the same response key.\<close>

lemma response_accepted_iff:
  assumes "base64_sound E"
  shows "is_valid_http_1_response E client_hs (http_1_response E server_hs)
    \<longleftrightarrow> response_key E server_hs = response_key E client_hs"
proof -
  have b: "base64_text (response_key E server_hs)"
    using assms by (simp add: base64_sound_def response_key_def)
  note c = base64_text_clean [OF b]
  show ?thesis
    using check_accept_line [OF c(2)]
    by (simp add: is_valid_http_1_response_def Let_def for_each_http_line_def response_lines [OF c(1)]
        check_status_line check_upgrade_line check_connection_line response_checker_new_def
        checker_ok_def response_key_def)
qed

section \<open>Finding the header\<close>

lemma split_http_1_header_parts:
  assumes "split_http_1_header bytes = (hdr, rest)"
  shows "bytes_of hdr @ rest = bytes"
    and "hdr = [] \<longleftrightarrow> search [0x0D, 0x0A, 0x0D, 0x0A] bytes = None"
proof -
  show "bytes_of hdr @ rest = bytes"
    using assms by (auto simp: split_http_1_header_def split: option.splits)
  show "hdr = [] \<longleftrightarrow> search [0x0D, 0x0A, 0x0D, 0x0A] bytes = None"
    using assms
    by (auto simp: split_http_1_header_def chars_of_def dest: search_Some split: option.splits)
qed

lemma search_append_Some:
  assumes "search pat s = Some i"
  shows "search pat (s @ t) = Some i"
proof -
  have s: "i + length pat \<le> length s" "take (length pat) (drop i s) = pat"
    using search_Some [OF assms] by auto
  let ?a = "take i s" and ?b = "drop (i + length pat) s @ t"
  have "s @ t = ?a @ pat @ ?b"
    using s by (metis append.assoc append_take_drop_id drop_drop add.commute)
  moreover have "search pat (?a @ pat @ ?b) = Some (length ?a)"
  proof (rule search_append_hit)
    fix j assume j: "j < length ?a"
    have "take (length pat) (drop j (s @ t)) = take (length pat) (drop j s)"
      using j s by simp
    moreover have "take (length pat) (drop j s) \<noteq> pat"
      using search_Some_first [OF assms] j by simp
    ultimately show "take (length pat) (drop j (?a @ pat @ ?b)) \<noteq> pat"
      using \<open>s @ t = ?a @ pat @ ?b\<close> by simp
  qed
  ultimately show ?thesis using s by (metis length_take min.absorb2 add_leD1)
qed

lemma split_http_1_header_append:
  assumes "split_http_1_header bytes = (hdr, rest)" and "hdr \<noteq> []"
  shows "split_http_1_header (bytes @ later) = (hdr, rest @ later)"
  using assms search_append_Some [of "[0x0D, 0x0A, 0x0D, 0x0A]" bytes _ later]
  by (auto simp: split_http_1_header_def dest: search_Some split: option.splits)

section \<open>Messages made of header lines\<close>

definition header_text :: "string list \<Rightarrow> string" where
  "header_text ls = concat (map (\<lambda>l. l @ crlf) ls) @ crlf"

lemma header_text_Cons: "header_text (l # ls) = l @ cr # lf # header_text ls"
  by (simp add: header_text_def)

lemma crlf_lines_header: "\<forall>l \<in> set ls. cr \<notin> set l \<Longrightarrow> crlf_lines (header_text ls) = ls @ [[]]"
  using crlf_lines_Cons [of "[]" "[]"]
  by (induction ls) (simp_all add: header_text_Cons crlf_lines_Cons, simp add: header_text_def)

lemma search_skip: "c \<notin> set a \<Longrightarrow> search (c # cs) (a @ t) = map_option ((+) (length a)) (search (c # cs) t)"
proof (induction a)
  case Nil
  show ?case by (cases "search (c # cs) t") simp_all
next
  case (Cons x a)
  then show ?case by (cases "search (c # cs) t") auto
qed

lemma search_header_end:
  assumes "ls \<noteq> []" and "\<forall>l \<in> set ls. l \<noteq> [] \<and> cr \<notin> set l"
  shows "search [cr, lf, cr, lf] (header_text ls) = Some (length (header_text ls) - 4)"
  using assms
proof (induction ls)
  case Nil
  then show ?case by simp
next
  case (Cons l ls)
  have l: "cr \<notin> set l" using Cons.prems by simp
  show ?case
  proof (cases ls)
    case Nil
    then show ?thesis using l by (simp add: header_text_def search_skip)
  next
    case (Cons l2 ls2)
    have ne: "\<exists>x xs. header_text ls = x # xs \<and> x \<noteq> cr"
      using Cons Cons.prems by (cases l2) (auto simp: header_text_Cons)
    have IH: "search [cr, lf, cr, lf] (header_text ls) = Some (length (header_text ls) - 4)"
      by (rule Cons.IH) (use Cons Cons.prems in auto)
    have len: "4 \<le> length (header_text ls)" by (simp add: Cons header_text_def)
    have "search [cr, lf, cr, lf] (cr # lf # header_text ls) = Some (length (header_text ls) - 2)"
      using ne IH len by auto
    then show ?thesis
      using l len by (simp add: header_text_Cons search_skip)
  qed
qed

lemma inj_byte_of_char: "inj byte_of_char"
  by (metis char_of_byte_of_char injI)

lemma search_map: "inj f \<Longrightarrow> search (map f pat) (map f s) = search pat s"
proof (induction s)
  case (Cons a s)
  have "(take (length pat) (f a # map f s) = map f pat) = (take (length pat) (a # s) = pat)"
    using Cons.prems by (metis inj_map_eq_map list.map(2) take_map)
  with Cons show ?case by simp
qed simp

lemma split_header_text:
  assumes "ls \<noteq> []" and "\<forall>l \<in> set ls. l \<noteq> [] \<and> cr \<notin> set l"
  shows "split_http_1_header (bytes_of (header_text ls) @ rest) = (header_text ls, rest)"
proof -
  let ?s = "header_text ls"
  have pat: "[0x0D, 0x0A, 0x0D, 0x0A] = map byte_of_char [cr, lf, cr, lf]" by code_simp
  have "search [0x0D, 0x0A, 0x0D, 0x0A] (bytes_of ?s) = Some (length ?s - 4)"
    unfolding pat bytes_of_def search_map [OF inj_byte_of_char] by (rule search_header_end [OF assms])
  then have "search [0x0D, 0x0A, 0x0D, 0x0A] (bytes_of ?s @ rest) = Some (length ?s - 4)"
    by (rule search_append_Some)
  moreover have "4 \<le> length ?s" using assms by (cases ls) (auto simp: header_text_def)
  ultimately show ?thesis by (simp add: split_http_1_header_def)
qed

end
