(* ===== verification/RFC6455.thy ===== *)
theory RFC6455
  imports Net_Enums
begin

unbundle bit_operations_syntax

text \<open>
  \<open>detail::rfc6455\<close> (\<open>caf/detail/rfc6455.hpp\<close>, \<open>src/detail/rfc6455.cpp\<close>): masking, assembling and
  decoding of WebSocket frames. A \<open>span<byte>\<close> that the code writes in place is a list argument
  with the new content as the result; \<open>size_t\<close> is 64 bit wide.
\<close>

section \<open>Frame header\<close>

record ws_header =
  fin :: bool
  opcode :: u8
  mask_key :: u32
  payload_len :: u64

abbreviation (input) continuation_frame :: u8 where "continuation_frame \<equiv> 0x00"
abbreviation (input) text_frame :: u8 where "text_frame \<equiv> 0x01"
abbreviation (input) binary_frame :: u8 where "binary_frame \<equiv> 0x02"
abbreviation (input) connection_close :: u8 where "connection_close \<equiv> 0x08"
abbreviation (input) ping :: u8 where "ping \<equiv> 0x09"
abbreviation (input) pong :: u8 where "pong \<equiv> 0x0A"
abbreviation (input) fin_flag :: u8 where "fin_flag \<equiv> 0x80"

abbreviation (input) known_opcodes :: "u8 set" where
  "known_opcodes \<equiv> {continuation_frame, text_frame, binary_frame, connection_close, ping, pong}"

section \<open>Operations\<close>

text \<open>The loop of \<open>mask_data\<close>: \<open>x = x ^ arr[i]; i = (i + 1) % 4\<close>.\<close>

fun mask_loop :: "byte list \<Rightarrow> nat \<Rightarrow> byte list \<Rightarrow> byte list" where
  "mask_loop arr i [] = []"
| "mask_loop arr i (x # xs) = (x XOR arr ! i) # mask_loop arr ((i + 1) mod 4) xs"

definition mask_data :: "u32 \<Rightarrow> byte list \<Rightarrow> byte list" where
  "mask_data key data = mask_loop (net32 key) 0 data"

definition assemble_frame :: "u8 \<Rightarrow> u32 \<Rightarrow> byte list \<Rightarrow> byte list \<Rightarrow> u8 \<Rightarrow> byte list" where
  "assemble_frame opc key data out flags =
     (let mask_bit = (if key = 0 then 0x00 else 0x80) :: byte;
          sz = length data
      in out @ [flags OR opc] @
         (if sz < 126 then [mask_bit OR of_nat sz]
          else if sz < 65535 then [mask_bit OR 126] @ net16 (of_nat sz)
          else [mask_bit OR 127] @ net64 (of_nat sz)) @
         (if key \<noteq> 0 then net32 key else []) @
         data)"

definition assemble_text_frame :: "u32 \<Rightarrow> byte list \<Rightarrow> byte list \<Rightarrow> byte list" where
  "assemble_text_frame key data out = assemble_frame text_frame key data out fin_flag"

definition assemble_binary_frame :: "u32 \<Rightarrow> byte list \<Rightarrow> byte list \<Rightarrow> byte list" where
  "assemble_binary_frame key data out = assemble_frame binary_frame key data out fin_flag"

text \<open>
  The result of \<open>decode_header\<close>: \<open>Incomplete\<close> for 0, \<open>Malformed\<close> for -1 and \<open>Decoded n hdr\<close> for the
  header length \<open>n\<close> with the filled-in out parameter.
\<close>

datatype decode_result = Incomplete | Malformed | Decoded nat ws_header

definition decode_header :: "byte list \<Rightarrow> decode_result" where
  "decode_header data =
     (if length data < 2 then Incomplete
      else
        let byte1 = data ! 0; byte2 = data ! 1;
            is_fin = (byte1 AND 0x80 \<noteq> 0);
            opc = byte1 AND 0x0F;
            masked = (byte2 AND 0x80 \<noteq> 0);
            len_field = byte2 AND 0x7F;
            header_length = (if len_field < 126 then 2
                             else if len_field = 126 then 4 else 10) + (if masked then 4 else 0)
        in if length data < header_length then Incomplete
           else
             let len = (if len_field = 126 then ucast (from_net16 (take 2 (drop 2 data)))
                        else if len_field = 127 then from_net64 (take 8 (drop 2 data))
                        else ucast len_field) :: u64;
                 p = (if len_field = 126 then 4 else if len_field = 127 then 10 else 2);
                 key = (if masked then from_net32 (take 4 (drop p data)) else 0)
             in if byte1 AND 0x70 \<noteq> 0 then Malformed
                else if opc \<in> known_opcodes
                then Decoded header_length
                       \<lparr>fin = is_fin, opcode = opc, mask_key = key, payload_len = len\<rparr>
                else Malformed)"

section \<open>Masking\<close>

lemma length_mask_loop [simp]: "length (mask_loop arr i xs) = length xs"
  by (induction xs arbitrary: i) auto

lemma length_mask_data [simp]: "length (mask_data key xs) = length xs"
  by (simp add: mask_data_def)

lemma mask_loop_involution: "mask_loop arr i (mask_loop arr i xs) = xs"
  by (induction xs arbitrary: i) (auto simp: xor.assoc)

lemma mask_data_involution [simp]: "mask_data key (mask_data key xs) = xs"
  by (simp add: mask_data_def mask_loop_involution)

lemma nth_mask_loop:
  "j < length xs \<Longrightarrow> i < 4 \<Longrightarrow> mask_loop arr i xs ! j = xs ! j XOR arr ! ((i + j) mod 4)"
proof (induction xs arbitrary: i j)
  case Nil
  then show ?case by simp
next
  case (Cons x xs)
  show ?case
  proof (cases j)
    case 0
    with Cons.prems show ?thesis by simp
  next
    case (Suc k)
    with Cons show ?thesis by (simp add: mod_simps)
  qed
qed

section \<open>Bits of the second header byte\<close>

lemma low7:
  assumes "n < 128"
  shows "(of_nat n :: byte) AND 127 = of_nat n" "(of_nat n :: byte) AND 128 = 0"
    "(128 OR of_nat n :: byte) AND 127 = of_nat n" "(128 OR of_nat n :: byte) AND 128 = 128"
proof -
  have m: "(127 :: byte) = mask 7" by (simp add: mask_eq_exp_minus_1)
  have t: "take_bit 7 (of_nat n :: byte) = of_nat n"
    by (simp only: take_bit_of_nat) (simp add: take_bit_nat_eq_self assms)
  then show 1: "(of_nat n :: byte) AND 127 = of_nat n"
    by (simp only: m take_bit_eq_mask [symmetric])
  have "(of_nat n :: byte) AND 128 = (of_nat n AND 127) AND 128"
    using 1 by simp
  also have "\<dots> = 0" by (simp add: and.assoc)
  finally show 2: "(of_nat n :: byte) AND 128 = 0" .
  show "(128 OR of_nat n :: byte) AND 127 = of_nat n"
    using 1 by (simp add: bit.conj_disj_distrib2)
  show "(128 OR of_nat n :: byte) AND 128 = 128"
    using 2 by (simp add: bit.conj_disj_distrib2)
qed

lemma of_nat_byte_less: "n < 126 \<Longrightarrow> (of_nat n :: byte) < 126"
  by (simp add: word_less_nat_alt unat_of_nat)

lemma ucast_of_nat_byte: "n < 126 \<Longrightarrow> (ucast (of_nat n :: byte) :: u64) = of_nat n"
  by (simp add: unsigned_of_nat take_bit_nat_eq_self)

section \<open>Decoding an assembled frame\<close>

definition frame_header_length :: "u32 \<Rightarrow> nat \<Rightarrow> nat" where
  "frame_header_length key sz =
     (if sz < 126 then 2 else if sz < 65535 then 4 else 10) + (if key = 0 then 0 else 4)"

lemma length_assemble_frame:
  "length (assemble_frame opc key data out flags)
   = length out + frame_header_length key (length data) + length data"
  by (simp add: assemble_frame_def frame_header_length_def Let_def)

lemma flags_opcode:
  assumes "opc \<in> known_opcodes" and "flags \<in> {0, fin_flag}"
  shows "(flags OR opc) AND 0x0F = opc" "(flags OR opc) AND 0x70 = 0"
    "((flags OR opc) AND 0x80 \<noteq> 0) = (flags = fin_flag)"
  using assms by auto

lemma decode_two_bytes:
  assumes "data = b1 # b2 # ext @ k @ rest" and "b1 AND 0x0F \<in> known_opcodes" and "b1 AND 0x70 = 0"
    and "length ext = (if b2 AND 0x7F < 126 then 0 else if b2 AND 0x7F = 126 then 2 else 8)"
    and "length k = (if b2 AND 0x80 \<noteq> 0 then 4 else 0)" and "b2 AND 0x7F \<le> 127"
  shows "decode_header data =
    Decoded (2 + length ext + length k)
      \<lparr>fin = (b1 AND 0x80 \<noteq> 0), opcode = b1 AND 0x0F,
       mask_key = (if b2 AND 0x80 \<noteq> 0 then from_net32 k else 0),
       payload_len = (if b2 AND 0x7F < 126 then ucast (b2 AND 0x7F)
                      else if b2 AND 0x7F = 126 then ucast (from_net16 ext) else from_net64 ext)\<rparr>"
proof -
  let ?l = "b2 AND 0x7F"
  have l127: "?l < 126 \<or> ?l = 126 \<or> ?l = 127"
    using assms(6) by (auto simp: word_less_nat_alt word_le_nat_alt unat_arith_simps)
  have d: "data ! 0 = b1" "data ! 1 = b2" "drop 2 data = ext @ k @ rest"
    using assms(1) by simp_all
  have len: "length data = 2 + length ext + length k + length rest"
    using assms(1) by simp
  have k: "take 4 (drop (2 + length ext) data) = k" if "b2 AND 0x80 \<noteq> 0"
    using assms(1,5) that by simp
  from l127 show ?thesis
  proof (elim disjE)
    assume l: "?l < 126"
    then have "?l \<noteq> 126" "?l \<noteq> 127" by auto
    then show ?thesis
      using l assms(2-5) d len k by (simp add: decode_header_def Let_def)
  next
    assume l: "?l = 126"
    then show ?thesis
      using assms(2-5) d len k by (simp add: decode_header_def Let_def)
  next
    assume l: "?l = 127"
    then show ?thesis
      using assms(2-5) d len k by (simp add: decode_header_def Let_def)
  qed
qed

lemma decode_assemble:
  assumes opc: "opc \<in> known_opcodes" and flags: "flags \<in> {0, fin_flag}"
    and len: "length data < 2 ^ 64"
  shows "decode_header (assemble_frame opc key data [] flags @ rest) =
    Decoded (frame_header_length key (length data))
      \<lparr>fin = (flags = fin_flag), opcode = opc, mask_key = key, payload_len = of_nat (length data)\<rparr>"
proof -
  let ?sz = "length data"
  let ?k = "if key \<noteq> 0 then net32 key else []"
  let ?mb = "(if key = 0 then 0 else 0x80) :: byte"
  let ?lf = "if ?sz < 126 then ?sz else if ?sz < 65535 then 126 else 127"
  let ?ext = "if ?sz < 126 then [] else if ?sz < 65535 then net16 (of_nat ?sz) else net64 (of_nat ?sz)"
  let ?b2 = "?mb OR of_nat ?lf"
  note fo = flags_opcode [OF opc flags]
  have lf: "?lf < 128" by simp
  have b2: "?b2 AND 0x7F = of_nat ?lf" "(?b2 AND 0x80 \<noteq> 0) = (key \<noteq> 0)"
    using low7 [OF lf] by (cases "key = 0"; simp only: if_True if_False or.left_neutral simp_thms; simp)+
  have less: "((of_nat ?lf :: byte) < 126) = (?sz < 126)"
    by (auto simp: of_nat_byte_less)
  have eq: "((of_nat ?lf :: byte) = 126) = (\<not> ?sz < 126 \<and> ?sz < 65535)"
    using of_nat_byte_less [of ?sz] by auto
  have "assemble_frame opc key data [] flags @ rest
        = (flags OR opc) # ?b2 # ?ext @ ?k @ (data @ rest)"
    by (simp add: assemble_frame_def Let_def)
  moreover have "decode_header \<dots> =
    Decoded (2 + length ?ext + length ?k)
      \<lparr>fin = ((flags OR opc) AND 0x80 \<noteq> 0), opcode = (flags OR opc) AND 0x0F,
       mask_key = (if ?b2 AND 0x80 \<noteq> 0 then from_net32 ?k else 0),
       payload_len = (if ?b2 AND 0x7F < 126 then ucast (?b2 AND 0x7F)
                      else if ?b2 AND 0x7F = 126 then ucast (from_net16 ?ext) else from_net64 ?ext)\<rparr>"
    by (rule decode_two_bytes [OF refl])
      (use opc in \<open>simp_all only: fo b2 less eq\<close>,
       auto simp: word_le_nat_alt unat_of_nat)
  moreover have "(ucast (of_nat ?sz :: u16) :: u64) = of_nat ?sz" if "?sz < 65535"
    using that by (simp add: unsigned_of_nat take_bit_nat_eq_self)
  ultimately show ?thesis
    by (simp only: fo b2 less eq) (auto simp: frame_header_length_def ucast_of_nat_byte)
qed

lemma drop_assemble_header:
  "drop (frame_header_length key (length data)) (assemble_frame opc key data [] flags @ rest)
   = data @ rest"
  by (simp add: assemble_frame_def frame_header_length_def Let_def)

section \<open>Decoding arbitrary input\<close>

lemma decode_header_Decoded:
  assumes "decode_header data = Decoded n hdr"
  shows "2 \<le> n \<and> n \<le> 14 \<and> n \<le> length data \<and> opcode hdr \<in> known_opcodes"
  using assms by (auto simp: decode_header_def Let_def split: if_splits)

text \<open>Once a header is complete, later bytes of the stream do not change what is decoded.\<close>

lemma decode_header_append:
  assumes "decode_header data \<noteq> Incomplete"
  shows "decode_header (data @ later) = decode_header data"
proof -
  have l2: "\<not> length data < 2"
    using assms by (auto simp: decode_header_def)
  let ?hl = "(if data ! 1 AND 0x7F < 126 then 2 else if data ! 1 AND 0x7F = 126 then 4 else 10) +
     (if data ! 1 AND 0x80 \<noteq> 0 then 4 else 0) :: nat"
  have hl: "\<not> length data < ?hl"
    using assms l2 by (auto simp: decode_header_def Let_def)
  have nth: "(data @ later) ! 0 = data ! 0" "(data @ later) ! 1 = data ! 1"
    using l2 by (auto simp: nth_append)
  have tk: "take m (drop p (data @ later)) = take m (drop p data)" if "p + m \<le> length data" for m p
    using that by simp
  have big: "10 \<le> length data" if "data ! 1 AND 0x7F = 127"
    using hl that by (auto split: if_splits)
  have mid: "4 \<le> length data" if "data ! 1 AND 0x7F = 126"
    using hl that by (auto split: if_splits)
  show ?thesis
    using l2 hl big mid unfolding decode_header_def Let_def nth
    by (auto split: if_splits simp: tk)
qed

end
