(* ===== verification/WebSocket_Framing.thy ===== *)
theory WebSocket_Framing
  imports RFC6455 Layers
begin

text \<open>
  \<open>web_socket::framing\<close> (\<open>caf/net/web_socket/framing.hpp\<close>): splits a byte stream into WebSocket
  messages for an upper layer and frames outgoing messages. The random number generator
  \<open>std::mt19937\<close> is an argument \<open>nxt\<close> that yields the next 32-bit number and the advanced
  generator. Byte spans are passed by value: the in-place unmasking of \<open>consume\<close> only touches bytes
  of frames that the same call reports as consumed or rejects the connection for.
\<close>

section \<open>State\<close>

record 'g framing =
  mask_outgoing_frames :: bool
  binary_buf :: "byte list"
  text_buf :: "byte list"
  rng :: 'g
  cur_opcode :: u8
  payload_buf :: "byte list"

abbreviation (input) max_frame_size :: nat where "max_frame_size \<equiv> 2147483647"
abbreviation (input) nil_code :: u8 where "nil_code \<equiv> 0xFF"

definition framing_new :: "'g \<Rightarrow> 'g framing" where
  "framing_new g = \<lparr>mask_outgoing_frames = True, binary_buf = [], text_buf = [], rng = g,
                     cur_opcode = nil_code, payload_buf = []\<rparr>"

section \<open>Interface for the upper layer (mixed\_message\_oriented\_layer\_ptr.hpp)\<close>

text \<open>The state an upper layer sees below itself: the framing layer and its own lower layer.\<close>

type_synonym ('g, 'd) framing_stack = "'g framing \<times> 'd"

record 'l mixed_message_oriented_layer_ptr =
  mm_can_send_more :: "'l \<Rightarrow> bool"
  mm_begin_binary_message :: "'l \<Rightarrow> 'l"
  mm_binary_message_buffer :: "'l \<Rightarrow> byte list"
  mm_write_binary :: "byte list \<Rightarrow> 'l \<Rightarrow> 'l"
  mm_end_binary_message :: "'l \<Rightarrow> 'l"
  mm_begin_text_message :: "'l \<Rightarrow> 'l"
  mm_text_message_buffer :: "'l \<Rightarrow> byte list"
  mm_write_text :: "byte list \<Rightarrow> 'l \<Rightarrow> 'l"
  mm_end_text_message :: "'l \<Rightarrow> 'l"
  mm_set_abort_reason :: "caf_error \<Rightarrow> 'l \<Rightarrow> 'l"
  mm_abort_reason :: "'l \<Rightarrow> caf_error option"

text \<open>
  The callbacks of a message-oriented application. \<open>framing\<close> hands its own lower layer, not itself,
  to \<open>prepare_send\<close>, \<open>done_sending\<close> and \<open>abort\<close>. But an application may keep the pointer to the framing
  layer that \<open>init\<close> received and use it in every callback, so all of them act on the whole stack.
\<close>

record ('u, 'l) mixed_upper =
  mu_init :: "'u \<Rightarrow> 'l \<Rightarrow> 'u \<times> 'l \<times> caf_error option"
  mu_prepare_send :: "'u \<Rightarrow> 'l \<Rightarrow> 'u \<times> 'l \<times> bool"
  mu_done_sending :: "'u \<Rightarrow> 'l \<Rightarrow> 'u \<times> 'l \<times> bool"
  mu_abort :: "caf_error \<Rightarrow> 'u \<Rightarrow> 'l \<Rightarrow> 'u \<times> 'l"
  mu_consume_text :: "byte list \<Rightarrow> 'u \<Rightarrow> 'l \<Rightarrow> 'u \<times> 'l \<times> int"
  mu_consume_binary :: "byte list \<Rightarrow> 'u \<Rightarrow> 'l \<Rightarrow> 'u \<times> 'l \<times> int"

section \<open>Output\<close>

text \<open>The common part of \<open>ship_frame\<close> and \<open>ship_pong\<close>: draw a key, mask, assemble, write.\<close>

definition draw_key :: "('g \<Rightarrow> u32 \<times> 'g) \<Rightarrow> 'g framing \<Rightarrow> u32 \<times> 'g framing" where
  "draw_key nxt f =
     (if mask_outgoing_frames f then let (key, g') = nxt (rng f) in (key, f\<lparr>rng := g'\<rparr>) else (0, f))"

definition masked_payload :: "'g framing \<Rightarrow> u32 \<Rightarrow> byte list \<Rightarrow> byte list" where
  "masked_payload f key data = (if mask_outgoing_frames f then mask_data key data else data)"

definition ship_pong ::
  "'d stream_oriented_layer_ptr \<Rightarrow> ('g \<Rightarrow> u32 \<times> 'g) \<Rightarrow> byte list \<Rightarrow> 'g framing \<Rightarrow> 'd \<Rightarrow> 'g framing \<times> 'd" where
  "ship_pong L nxt payload f d =
     (let (key, f') = draw_key nxt f;
          payload' = masked_payload f key payload
      in (f', append_output L (\<lambda>out. assemble_frame pong key payload' out fin_flag) d))"

definition ship_frame ::
  "'d stream_oriented_layer_ptr \<Rightarrow> ('g \<Rightarrow> u32 \<times> 'g) \<Rightarrow> (u32 \<Rightarrow> byte list \<Rightarrow> byte list \<Rightarrow> byte list) \<Rightarrow>
   byte list \<Rightarrow> 'g framing \<Rightarrow> 'd \<Rightarrow> 'g framing \<times> 'd" where
  "ship_frame L nxt assemble buf f d =
     (let (key, f') = draw_key nxt f;
          buf' = masked_payload f key buf
      in (f', append_output L (assemble key buf') d))"

definition end_binary_message ::
  "'d stream_oriented_layer_ptr \<Rightarrow> ('g \<Rightarrow> u32 \<times> 'g) \<Rightarrow> ('g, 'd) framing_stack \<Rightarrow> ('g, 'd) framing_stack" where
  "end_binary_message L nxt l =
     (case l of (f, d) \<Rightarrow>
        let (f', d') = ship_frame L nxt assemble_binary_frame (binary_buf f) f d
        in (f'\<lparr>binary_buf := []\<rparr>, d'))"

definition end_text_message ::
  "'d stream_oriented_layer_ptr \<Rightarrow> ('g \<Rightarrow> u32 \<times> 'g) \<Rightarrow> ('g, 'd) framing_stack \<Rightarrow> ('g, 'd) framing_stack" where
  "end_text_message L nxt l =
     (case l of (f, d) \<Rightarrow>
        let (f', d') = ship_frame L nxt assemble_text_frame (text_buf f) f d
        in (f'\<lparr>text_buf := []\<rparr>, d'))"

definition make_mixed_message_oriented_layer_ptr ::
  "'d stream_oriented_layer_ptr \<Rightarrow> ('g \<Rightarrow> u32 \<times> 'g) \<Rightarrow>
   ('g, 'd) framing_stack mixed_message_oriented_layer_ptr" where
  "make_mixed_message_oriented_layer_ptr L nxt =
     \<lparr>mm_can_send_more = (\<lambda>(f, d). can_send_more L d),
      mm_begin_binary_message = (\<lambda>l. l),
      mm_binary_message_buffer = (\<lambda>(f, d). binary_buf f),
      mm_write_binary = (\<lambda>b (f, d). (f\<lparr>binary_buf := b\<rparr>, d)),
      mm_end_binary_message = end_binary_message L nxt,
      mm_begin_text_message = (\<lambda>l. l),
      mm_text_message_buffer = (\<lambda>(f, d). text_buf f),
      mm_write_text = (\<lambda>b (f, d). (f\<lparr>text_buf := b\<rparr>, d)),
      mm_end_text_message = end_text_message L nxt,
      mm_set_abort_reason = (\<lambda>e (f, d). (f, set_abort_reason L e d)),
      mm_abort_reason = (\<lambda>(f, d). abort_reason L d)\<rparr>"

section \<open>Input\<close>

text \<open>\<open>framing::handle\<close>: dispatch on the opcode of a complete message.\<close>

definition framing_handle ::
  "'d stream_oriented_layer_ptr \<Rightarrow> ('u, ('g, 'd) framing_stack) mixed_upper \<Rightarrow> ('g \<Rightarrow> u32 \<times> 'g) \<Rightarrow>
   u8 \<Rightarrow> byte list \<Rightarrow> 'u \<Rightarrow> 'g framing \<Rightarrow> 'd \<Rightarrow> 'u \<times> 'g framing \<times> 'd \<times> bool" where
  "framing_handle L U nxt opc payload u f d =
     (if opc = text_frame then
        let (u', (f', d'), res) = mu_consume_text U payload u (f, d) in (u', f', d', res \<ge> 0)
      else if opc = binary_frame then
        let (u', (f', d'), res) = mu_consume_binary U payload u (f, d) in (u', f', d', res \<ge> 0)
      else if opc = connection_close then
        (u, f, set_abort_reason L (Sec_error sec_connection_closed []) d, False)
      else if opc = ping then
        let (f', d') = ship_pong L nxt payload f d in (u, f', d', True)
      else if opc = pong then (u, f, d, True)
      else (u, f, d, False))"

text \<open>
  The treatment of one complete frame (the body of the loop after the payload was decoded):
  \<open>None\<close> for "go on with the next frame", \<open>Some\<close> unit for \<open>return -1\<close>.
\<close>

definition framing_frame ::
  "'d stream_oriented_layer_ptr \<Rightarrow> ('u, ('g, 'd) framing_stack) mixed_upper \<Rightarrow> ('g \<Rightarrow> u32 \<times> 'g) \<Rightarrow>
   ws_header \<Rightarrow> byte list \<Rightarrow> 'u \<Rightarrow> 'g framing \<Rightarrow> 'd \<Rightarrow> 'u \<times> 'g framing \<times> 'd \<times> bool" where
  "framing_frame L U nxt hdr payload u f d =
     (let fail = (\<lambda>msg. (u, f, set_abort_reason L (Sec_error sec_runtime_error msg) d, False)) in
      if fin hdr then
        if cur_opcode f = nil_code then framing_handle L U nxt (opcode hdr) payload u f d
        else if opcode hdr \<noteq> continuation_frame then
          fail ''invalid WebSocket frame (expected a continuation frame)''
        else if length (payload_buf f) + length payload > max_frame_size then
          fail ''fragmented payload exceeds maximum size''
        else
          let f1 = f\<lparr>payload_buf := payload_buf f @ payload\<rparr>;
              (u', f', d', ok) = framing_handle L U nxt (cur_opcode f1) (payload_buf f1) u f1 d
          in if ok then (u', f'\<lparr>cur_opcode := nil_code, payload_buf := []\<rparr>, d', True)
             else (u', f', d', False)
      else if cur_opcode f = nil_code then
        if opcode hdr = continuation_frame then
          fail ''invalid WebSocket continuation frame (no prior opcode)''
        else (u, f\<lparr>cur_opcode := opcode hdr, payload_buf := payload_buf f @ payload\<rparr>, d, True)
      else if opcode hdr \<noteq> continuation_frame then fail ''expected a continuation frame''
      else if length (payload_buf f) + length payload > max_frame_size then
        fail ''fragmented payload exceeds maximum size''
      else (u, f\<lparr>payload_buf := payload_buf f @ payload\<rparr>, d, True))"

text \<open>The loop over all frames in the input, with the bytes consumed so far.\<close>

function consume_frames ::
  "'d stream_oriented_layer_ptr \<Rightarrow> ('u, ('g, 'd) framing_stack) mixed_upper \<Rightarrow> ('g \<Rightarrow> u32 \<times> 'g) \<Rightarrow>
   byte list \<Rightarrow> nat \<Rightarrow> 'u \<Rightarrow> 'g framing \<Rightarrow> 'd \<Rightarrow> 'u \<times> 'g framing \<times> 'd \<times> int" where
  "consume_frames L U nxt buffer consumed u f d =
     (case decode_header buffer of
        Malformed \<Rightarrow>
          (u, f, set_abort_reason L (Sec_error sec_runtime_error ''invalid WebSocket frame header'') d, -1)
      | Incomplete \<Rightarrow> (u, f, configure_read L (policy_up_to 2048) d, int consumed)
      | Decoded hdr_bytes hdr \<Rightarrow>
          if unat (payload_len hdr) \<ge> max_frame_size - hdr_bytes then
            (u, f, set_abort_reason L (Sec_error sec_runtime_error ''WebSocket frame too large'') d, -1)
          else
            let frame_size = hdr_bytes + unat (payload_len hdr) in
            if length buffer < frame_size then
              (u, f, configure_read L (policy_exactly (of_nat frame_size)) d, int consumed)
            else
              let raw = take (unat (payload_len hdr)) (drop hdr_bytes buffer);
                  payload = (if mask_key hdr \<noteq> 0 then mask_data (mask_key hdr) raw else raw);
                  (u', f', d', ok) = framing_frame L U nxt hdr payload u f d
              in if \<not> ok then (u', f', d', -1)
                 else if drop frame_size buffer = [] then
                   (u', f', configure_read L (policy_up_to 2048) d', int (consumed + frame_size))
                 else consume_frames L U nxt (drop frame_size buffer) (consumed + frame_size) u' f' d')"
  by pat_completeness auto
termination
proof (relation "measure (\<lambda>(L, U, nxt, buffer, consumed, u, f, d). length buffer)", goal_cases)
  case 1
  show ?case by simp
next
  case (2 L U nxt buffer consumed u f d hdr_bytes hdr)
  then show ?case
    using decode_header_Decoded [of buffer hdr_bytes hdr] by auto
qed

declare consume_frames.simps [simp del]

definition framing_consume ::
  "'d stream_oriented_layer_ptr \<Rightarrow> ('u, ('g, 'd) framing_stack) mixed_upper \<Rightarrow> ('g \<Rightarrow> u32 \<times> 'g) \<Rightarrow>
   byte list \<Rightarrow> byte list \<Rightarrow> 'u \<times> 'g framing \<Rightarrow> 'd \<Rightarrow> ('u \<times> 'g framing) \<times> 'd \<times> int" where
  "framing_consume L U nxt input delta uf d =
     (case uf of (u, f) \<Rightarrow>
        let (u', f', d', res) = consume_frames L U nxt input 0 u f d in ((u', f'), d', res))"

section \<open>Pass-through callbacks\<close>

text \<open>\<open>init\<close> seeds the generator from \<open>std::random_device\<close>, then initializes the upper layer.\<close>

definition framing_init ::
  "('u, ('g, 'd) framing_stack) mixed_upper \<Rightarrow> 'g \<Rightarrow> 'u \<times> 'g framing \<Rightarrow> 'd \<Rightarrow>
   ('u \<times> 'g framing) \<times> 'd \<times> caf_error option" where
  "framing_init U seeded uf d =
     (case uf of (u, f) \<Rightarrow>
        let (u', (f', d'), err) = mu_init U u (f\<lparr>rng := seeded\<rparr>, d) in ((u', f'), d', err))"

definition framing_prepare_send ::
  "('u, ('g, 'd) framing_stack) mixed_upper \<Rightarrow> 'u \<times> 'g framing \<Rightarrow> 'd \<Rightarrow> ('u \<times> 'g framing) \<times> 'd \<times> bool" where
  "framing_prepare_send U uf d =
     (case uf of (u, f) \<Rightarrow> let (u', (f', d'), b) = mu_prepare_send U u (f, d) in ((u', f'), d', b))"

definition framing_done_sending ::
  "('u, ('g, 'd) framing_stack) mixed_upper \<Rightarrow> 'u \<times> 'g framing \<Rightarrow> 'd \<Rightarrow> ('u \<times> 'g framing) \<times> 'd \<times> bool" where
  "framing_done_sending U uf d =
     (case uf of (u, f) \<Rightarrow> let (u', (f', d'), b) = mu_done_sending U u (f, d) in ((u', f'), d', b))"

definition framing_abort ::
  "('u, ('g, 'd) framing_stack) mixed_upper \<Rightarrow> caf_error \<Rightarrow> 'u \<times> 'g framing \<Rightarrow> 'd \<Rightarrow> ('u \<times> 'g framing) \<times> 'd" where
  "framing_abort U reason uf d =
     (case uf of (u, f) \<Rightarrow> let (u', (f', d')) = mu_abort U reason u (f, d) in ((u', f'), d'))"

text \<open>The framing layer as the upper layer of a stream.\<close>

definition framing_layer ::
  "'d stream_oriented_layer_ptr \<Rightarrow> ('u, ('g, 'd) framing_stack) mixed_upper \<Rightarrow> ('g \<Rightarrow> u32 \<times> 'g) \<Rightarrow> 'g \<Rightarrow>
   ('u \<times> 'g framing, 'd) stream_upper" where
  "framing_layer L U nxt seeded =
     \<lparr>su_init = framing_init U seeded, su_prepare_send = framing_prepare_send U,
      su_done_sending = framing_done_sending U, su_abort = framing_abort U,
      su_consume = framing_consume L U nxt\<rparr>"

section \<open>One step of the loop\<close>

text \<open>The bytes of a frame whose payload is masked with \<open>key\<close>.\<close>

definition wire_frame :: "u8 \<Rightarrow> u8 \<Rightarrow> u32 \<Rightarrow> byte list \<Rightarrow> byte list" where
  "wire_frame flags opc key p = assemble_frame opc key (mask_data key p) [] flags"

abbreviation final_frame :: "u8 \<Rightarrow> u32 \<Rightarrow> byte list \<Rightarrow> byte list" where
  "final_frame \<equiv> wire_frame fin_flag"

lemma mask_loop_zero:
  assumes "\<forall>j < 4. arr ! j = 0" and "i < 4"
  shows "mask_loop arr i xs = xs"
  using assms(2)
proof (induction xs arbitrary: i)
  case (Cons x xs)
  have "arr ! i = 0" using assms(1) Cons.prems by blast
  moreover have "mask_loop arr ((i + 1) mod 4) xs = xs" by (rule Cons.IH) simp
  ultimately show ?case by simp
qed simp

lemma be_encode_zero: "be_encode n 0 = replicate n 0"
  by (induction n) (simp_all add: replicate_append_same)

lemma mask_data_zero [simp]: "mask_data 0 xs = xs"
  by (simp add: mask_data_def net32_def be_encode_zero mask_loop_zero)

lemma mask_data_if: "(if key \<noteq> 0 then mask_data key p else p) = mask_data key p"
  by simp

lemma decode_wire_frame:
  assumes "opc \<in> known_opcodes" and "flags \<in> {0, fin_flag}" and "length p < 2 ^ 64"
  shows "decode_header (wire_frame flags opc key p @ rest) =
    Decoded (frame_header_length key (length p))
      \<lparr>fin = (flags = fin_flag), opcode = opc, mask_key = key, payload_len = of_nat (length p)\<rparr>"
  using decode_assemble [of opc flags "mask_data key p" key rest] assms
  by (simp add: wire_frame_def)

lemma length_wire_frame [simp]:
  "length (wire_frame flags opc key p) = frame_header_length key (length p) + length p"
  by (simp add: wire_frame_def length_assemble_frame)

lemma drop_wire_frame:
  "drop (frame_header_length key (length p)) (wire_frame flags opc key p @ rest) = mask_data key p @ rest"
  using drop_assemble_header [of key "mask_data key p" opc flags rest]
  by (simp add: wire_frame_def)

lemma consume_wire_frame:
  assumes opc: "opc \<in> known_opcodes" and flags: "flags \<in> {0, fin_flag}"
    and len: "length p < max_frame_size - frame_header_length key (length p)"
  shows "consume_frames L U nxt (wire_frame flags opc key p @ rest) c u f d =
    (let (u', f', d', ok) =
           framing_frame L U nxt
             \<lparr>fin = (flags = fin_flag), opcode = opc, mask_key = key, payload_len = of_nat (length p)\<rparr>
             p u f d;
         c' = c + length (wire_frame flags opc key p)
     in if \<not> ok then (u', f', d', -1)
        else if rest = [] then (u', f', configure_read L (policy_up_to 2048) d', int c')
        else consume_frames L U nxt rest c' u' f' d')"
proof -
  let ?h = "frame_header_length key (length p)"
  have small: "length p < 2 ^ 64" using len by simp
  have un: "unat (of_nat (length p) :: u64) = length p"
    using small by (simp add: unat_of_nat)
  have tk: "take (length p) (drop ?h (wire_frame flags opc key p @ rest)) = mask_data key p"
    unfolding drop_wire_frame by simp
  have dr: "drop (?h + length p) (wire_frame flags opc key p @ rest) = rest"
    using drop_append [of "length (wire_frame flags opc key p)" "wire_frame flags opc key p" rest]
    by simp
  have nl: "\<not> length (wire_frame flags opc key p @ rest) < ?h + length p" by simp
  have big: "\<not> length p \<ge> max_frame_size - ?h" using len by linarith
  show ?thesis
    by (subst consume_frames.simps)
      (simp only: decode_wire_frame [OF opc flags small] decode_result.case un tk dr nl Let_def
        ws_header.select_convs if_False big mask_data_if mask_data_involution
        length_wire_frame simp_thms split: prod.split)
qed

lemma consume_frames_step:
  assumes "decode_header xs = Decoded n hdr" and "\<not> unat (payload_len hdr) \<ge> max_frame_size - n"
    and "\<not> length xs < n + unat (payload_len hdr)"
    and "framing_frame L U nxt hdr (mask_data (mask_key hdr) (take (unat (payload_len hdr)) (drop n xs))) u f d
         = (u', f', d', ok)"
  shows "consume_frames L U nxt xs c u f d =
    (if \<not> ok then (u', f', d', -1)
     else if drop (n + unat (payload_len hdr)) xs = []
     then (u', f', configure_read L (policy_up_to 2048) d', int (c + (n + unat (payload_len hdr))))
     else consume_frames L U nxt (drop (n + unat (payload_len hdr)) xs)
            (c + (n + unat (payload_len hdr))) u' f' d')"
  by (subst consume_frames.simps)
    (simp only: assms decode_result.case Let_def if_False mask_data_if prod.case)

section \<open>Independence from the chunking of the stream\<close>

text \<open>
  A call that consumes \<open>k\<close> bytes leaves the layer in a state in which the remaining bytes together
  with any later input \<open>ys\<close> have the effect that the whole input would have had in one call. The
  only trace of the split is the read policy, which the next call overwrites.
\<close>

lemma consume_frames_Nil:
  "consume_frames L U nxt [] c u f d = (u, f, configure_read L (policy_up_to 2048) d, int c)"
  by (simp add: consume_frames.simps [of L U nxt "[]"] decode_header_def)

lemma consume_frames_resumes:
  "consume_frames L U nxt xs c u f d = (u', f', d', int k) \<Longrightarrow>
   resumes (\<lambda>d0. \<exists>pol. d' = configure_read L pol d0) (\<lambda>zs d0. consume_frames L U nxt zs k u' f' d0) xs ys c k
     (consume_frames L U nxt (xs @ ys) c u f d)"
proof (induction L U nxt xs c u f d rule: consume_frames.induct)
  case (1 L U nxt xs c u f d)
  show ?case
  proof (cases "\<exists>n hdr. decode_header xs = Decoded n hdr \<and> n + unat (payload_len hdr) \<le> length xs")
    case False
    then have "k = c \<and> u' = u \<and> f' = f \<and> (\<exists>pol. d' = configure_read L pol d)"
      using 1(2) by (auto simp: consume_frames.simps [of L U nxt xs] Let_def split: decode_result.splits if_splits)
    then show ?thesis by (auto intro: resumes_here)
  next
    case True
    then obtain n hdr where Decoded: "decode_header xs = Decoded n hdr" and len: "n + unat (payload_len hdr) \<le> length xs"
      by blast
    note dec = decode_header_append [of xs ys, unfolded Decoded, simplified]
    let ?fs = "n + unat (payload_len hdr)"
    let ?p = "mask_data (mask_key hdr) (take (unat (payload_len hdr)) (drop n xs))"
    obtain u1 f1 d1 ok where fr: "framing_frame L U nxt hdr ?p u f d = (u1, f1, d1, ok)"
      by (metis prod_cases4)
    have small: "\<not> unat (payload_len hdr) \<ge> max_frame_size - n"
      using 1(2) Decoded by (auto simp: consume_frames.simps [of L U nxt xs])
    have tk: "take (unat (payload_len hdr)) (drop n (xs @ ys)) = take (unat (payload_len hdr)) (drop n xs)"
      and dr: "drop ?fs (xs @ ys) = drop ?fs xs @ ys" and nl: "\<not> length xs < ?fs" "\<not> length (xs @ ys) < ?fs"
      using len by auto
    note part = consume_frames_step [OF Decoded small nl(1) fr, of c]
    have ok using 1(2) part by (auto split: if_splits)
    note whole = consume_frames_step [OF dec small nl(2), unfolded tk dr, OF fr, of c]
    have eq: "consume_frames L U nxt (xs @ ys) c u f d = consume_frames L U nxt (drop ?fs xs @ ys) (c + ?fs) u1 f1 d1"
      using whole \<open>ok\<close> consume_frames_Nil [of L U nxt "c + ?fs" u1 f1 d1] by simp
    show ?thesis unfolding eq
    proof (rule resumes_drop [OF _ len], cases "drop ?fs xs = []")
      case True
      then have "u' = u1" "f' = f1" "d' = configure_read L (policy_up_to 2048) d1" "k = c + ?fs"
        using trans [OF 1(2) [symmetric] part] \<open>ok\<close>
        by (simp_all only: if_True if_False simp_thms prod.inject of_nat_eq_iff)
      then show "resumes (\<lambda>d0. \<exists>pol. d' = configure_read L pol d0) (\<lambda>zs. consume_frames L U nxt zs k u' f')
          (drop ?fs xs) ys (c + ?fs) k (consume_frames L U nxt (drop ?fs xs @ ys) (c + ?fs) u1 f1 d1)"
        by (auto intro: resumes_here)
    next
      case more_frames: False
      have rec: "consume_frames L U nxt (drop ?fs xs) (c + ?fs) u1 f1 d1 = (u', f', d', int k)"
        using 1(2) \<open>ok\<close> part more_frames by simp
      from 1(1) [OF Decoded small refl nl(1) refl mask_data_if [symmetric] refl fr [symmetric] refl refl _
          more_frames rec]
      show "resumes (\<lambda>d0. \<exists>pol. d' = configure_read L pol d0) (\<lambda>zs. consume_frames L U nxt zs k u' f')
          (drop ?fs xs) ys (c + ?fs) k (consume_frames L U nxt (drop ?fs xs @ ys) (c + ?fs) u1 f1 d1)"
        using \<open>ok\<close> by simp
    qed
  qed
qed

lemma consume_frames_append:
  "consume_frames L U nxt xs c u f d = (u', f', d', int k) \<Longrightarrow>
   \<exists>pol d0. d' = configure_read L pol d0 \<and> c \<le> k \<and> k - c \<le> length xs \<and>
     consume_frames L U nxt (xs @ ys) c u f d
     = consume_frames L U nxt (drop (k - c) xs @ ys) k u' f' d0"
  using consume_frames_resumes [of L U nxt xs c u f d u' f' d' k ys] by (auto simp: resumes_def)

section \<open>Streams of messages\<close>

datatype ws_message = Text_message "byte list" | Binary_message "byte list"

fun msg_opcode :: "ws_message \<Rightarrow> u8" where
  "msg_opcode (Text_message p) = text_frame"
| "msg_opcode (Binary_message p) = binary_frame"

fun msg_payload :: "ws_message \<Rightarrow> byte list" where
  "msg_payload (Text_message p) = p"
| "msg_payload (Binary_message p) = p"

text \<open>What an application does to send a message through its \<open>mixed_message_oriented_layer_ptr\<close>.\<close>

fun send_message :: "'l mixed_message_oriented_layer_ptr \<Rightarrow> ws_message \<Rightarrow> 'l \<Rightarrow> 'l" where
  "send_message P (Text_message p) l =
     (let l1 = mm_begin_text_message P l; l2 = mm_write_text P (mm_text_message_buffer P l1 @ p) l1
      in mm_end_text_message P l2)"
| "send_message P (Binary_message p) l =
     (let l1 = mm_begin_binary_message P l;
          l2 = mm_write_binary P (mm_binary_message_buffer P l1 @ p) l1
      in mm_end_binary_message P l2)"

text \<open>What the receiving application sees of a message.\<close>

fun deliver_message :: "('u, 'l) mixed_upper \<Rightarrow> ws_message \<Rightarrow> 'u \<Rightarrow> 'l \<Rightarrow> 'u \<times> 'l \<times> int" where
  "deliver_message U (Text_message p) u l = mu_consume_text U p u l"
| "deliver_message U (Binary_message p) u l = mu_consume_binary U p u l"

text \<open>Messages delivered in order, until the application rejects one.\<close>

fun deliver_messages ::
  "('u, ('g, 'd) framing_stack) mixed_upper \<Rightarrow> ws_message list \<Rightarrow> 'u \<Rightarrow> 'g framing \<Rightarrow> 'd \<Rightarrow>
   'u \<times> 'g framing \<times> 'd \<times> bool" where
  "deliver_messages U [] u f d = (u, f, d, True)"
| "deliver_messages U (m # ms) u f d =
     (let (u', (f', d'), res) = deliver_message U m u (f, d)
      in if res \<ge> 0 then deliver_messages U ms u' f' d' else (u', f', d', False))"

text \<open>
  An application reaches the framing layer only through its layer pointer, which gives no access to
  the reassembly state.
\<close>

definition keeps_assembly :: "('u, ('g, 'd) framing_stack) mixed_upper \<Rightarrow> bool" where
  "keeps_assembly U \<longleftrightarrow>
     (\<forall>m u f d u' f' d' res. deliver_message U m u (f, d) = (u', (f', d'), res) \<longrightarrow>
        cur_opcode f' = cur_opcode f \<and> payload_buf f' = payload_buf f)"

lemma keeps_assemblyD:
  assumes "keeps_assembly U" and "deliver_message U m u (f, d) = (u', (f', d'), res)"
  shows "cur_opcode f' = cur_opcode f" "payload_buf f' = payload_buf f"
  using assms unfolding keeps_assembly_def by blast+

definition keyed_frames :: "(u32 \<times> ws_message) list \<Rightarrow> byte list" where
  "keyed_frames kms = concat (map (\<lambda>(k, m). final_frame (msg_opcode m) k (msg_payload m)) kms)"

definition fits_frame :: "ws_message \<Rightarrow> bool" where
  "fits_frame m \<longleftrightarrow> length (msg_payload m) < max_frame_size - 14"

lemma frame_header_length_le: "frame_header_length k n \<le> 14"
  by (simp add: frame_header_length_def)

lemma msg_opcode_known: "msg_opcode m \<in> known_opcodes"
  by (cases m) simp_all

lemma framing_frame_message:
  assumes "cur_opcode f = nil_code" and "fin h" and "opcode h = msg_opcode m"
  shows "framing_frame L U nxt h (msg_payload m) u f d =
    (let (u', (f', d'), res) = deliver_message U m u (f, d) in (u', f', d', res \<ge> 0))"
  using assms by (cases m) (simp_all add: framing_frame_def framing_handle_def)

lemma consume_message:
  assumes "cur_opcode f = nil_code" and "fits_frame m"
    and "deliver_message U m u (f, d) = (u', (f', d'), res)"
  shows "consume_frames L U nxt (final_frame (msg_opcode m) k (msg_payload m) @ rest) c u f d =
    (let c' = c + length (final_frame (msg_opcode m) k (msg_payload m)) in
     if \<not> res \<ge> 0 then (u', f', d', -1)
     else if rest = [] then (u', f', configure_read L (policy_up_to 2048) d', int c')
     else consume_frames L U nxt rest c' u' f' d')"
proof -
  have "length (msg_payload m) < max_frame_size - frame_header_length k (length (msg_payload m))"
    using assms(2) frame_header_length_le [of k "length (msg_payload m)"]
    by (simp add: fits_frame_def)
  note step = consume_wire_frame [OF msg_opcode_known _ this, of fin_flag, simplified]
  show ?thesis
    unfolding step using assms(1,3) by (simp add: framing_frame_message Let_def)
qed

lemma wire_frame_not_Nil: "wire_frame fl opc k p \<noteq> []"
  by (simp add: wire_frame_def assemble_frame_def Let_def)

text \<open>Consuming a stream of messages delivers all of them in order and consumes everything.\<close>

lemma consume_keyed_frames:
  assumes keep: "keeps_assembly U"
  shows "kms \<noteq> [] \<Longrightarrow> cur_opcode f = nil_code \<Longrightarrow> \<forall>(k, m) \<in> set kms. fits_frame m \<Longrightarrow>
    consume_frames L U nxt (keyed_frames kms) c u f d =
    (let (u', f', d', ok) = deliver_messages U (map snd kms) u f d
     in if ok then (u', f', configure_read L (policy_up_to 2048) d', int (c + length (keyed_frames kms)))
        else (u', f', d', -1))"
proof (induction kms arbitrary: c u f d)
  case Nil
  then show ?case by simp
next
  case (Cons km kms)
  obtain k m where km: "km = (k, m)" by (cases km)
  obtain u' f' d' res where dl: "deliver_message U m u (f, d) = (u', (f', d'), res)"
    by (metis prod_cases4 surj_pair)
  have f': "cur_opcode f' = nil_code"
    using keeps_assemblyD [OF keep dl] Cons.prems(2) by simp
  have kf: "keyed_frames (km # kms) = final_frame (msg_opcode m) k (msg_payload m) @ keyed_frames kms"
    by (simp add: keyed_frames_def km)
  have fit: "fits_frame m" "\<forall>(k, m) \<in> set kms. fits_frame m" using Cons.prems(3) km by auto
  have e: "keyed_frames kms = [] \<longleftrightarrow> kms = []"
    by (cases kms) (auto simp: keyed_frames_def wire_frame_not_Nil split: prod.splits)
  note step = consume_message [OF Cons.prems(2) fit(1) dl, where rest = "keyed_frames kms" and c = c]
  show ?case
  proof (cases "kms = []")
    case True
    then show ?thesis
      unfolding kf step using dl e by (simp add: km keyed_frames_def)
  next
    case False
    then show ?thesis
      unfolding kf step using dl e Cons.IH [OF False f' fit(2)] by (simp add: km Let_def add.assoc split: prod.split)
  qed
qed

section \<open>The sending side\<close>

fun send_messages :: "'l mixed_message_oriented_layer_ptr \<Rightarrow> ws_message list \<Rightarrow> 'l \<Rightarrow> 'l" where
  "send_messages P [] l = l"
| "send_messages P (m # ms) l = send_messages P ms (send_message P m l)"

lemma ship_frame_wire:
  assumes "stream_lower L"
    and "\<And>key data out. assemble key data out = assemble_frame opc key data out fin_flag"
  obtains k f' d' where "ship_frame L nxt assemble p f d = (f', d')"
    and "output_buffer L d' = output_buffer L d @ final_frame opc k p"
    and "text_buf f' = text_buf f" and "binary_buf f' = binary_buf f"
    and "mask_outgoing_frames f' = mask_outgoing_frames f" and "\<not> mask_outgoing_frames f \<longrightarrow> k = 0"
proof -
  obtain k g where kg: "nxt (rng f) = (k, g)" by (cases "nxt (rng f)")
  let ?k = "if mask_outgoing_frames f then k else 0"
  let ?f = "if mask_outgoing_frames f then f\<lparr>rng := g\<rparr> else f"
  let ?d = "append_output L (\<lambda>out. out @ final_frame opc ?k p) d"
  have af: "assemble_frame opc q (mask_data q p) out fin_flag = out @ final_frame opc q p" for q out
    by (simp add: wire_frame_def assemble_frame_def Let_def)
  have "ship_frame L nxt assemble p f d = (?f, ?d)"
    using af [of 0] by (simp add: ship_frame_def draw_key_def masked_payload_def kg assms(2) Let_def
        append_output_def af)
  moreover have "output_buffer L ?d = output_buffer L d @ final_frame opc ?k p"
    using stream_lower.output_append [OF assms(1)] by metis
  ultimately show ?thesis
    by (rule that) simp_all
qed

lemma send_message_wire:
  assumes "stream_lower L" and "text_buf f = []" and "binary_buf f = []"
  obtains k f' d' where "send_message (make_mixed_message_oriented_layer_ptr L nxt) m (f, d) = (f', d')"
    and "output_buffer L d' = output_buffer L d @ final_frame (msg_opcode m) k (msg_payload m)"
    and "text_buf f' = []" and "binary_buf f' = []"
    and "mask_outgoing_frames f' = mask_outgoing_frames f" and "\<not> mask_outgoing_frames f \<longrightarrow> k = 0"
proof (cases m)
  case (Text_message p)
  let ?f = "f\<lparr>text_buf := p\<rparr>"
  from assms(1) obtain k f' d' where w: "ship_frame L nxt assemble_text_frame p ?f d = (f', d')"
    "output_buffer L d' = output_buffer L d @ final_frame text_frame k p"
    "binary_buf f' = []" "mask_outgoing_frames f' = mask_outgoing_frames f"
    "\<not> mask_outgoing_frames f \<longrightarrow> k = 0"
    by (rule ship_frame_wire [of L assemble_text_frame text_frame nxt p ?f d])
      (use assms in \<open>auto simp: assemble_text_frame_def\<close>)
  show ?thesis
    by (rule that [of "f'\<lparr>text_buf := []\<rparr>" d' k])
      (use w assms(2) Text_message in \<open>simp_all add: make_mixed_message_oriented_layer_ptr_def
         end_text_message_def Let_def\<close>)
next
  case (Binary_message p)
  let ?f = "f\<lparr>binary_buf := p\<rparr>"
  from assms(1) obtain k f' d' where w: "ship_frame L nxt assemble_binary_frame p ?f d = (f', d')"
    "output_buffer L d' = output_buffer L d @ final_frame binary_frame k p"
    "text_buf f' = []" "mask_outgoing_frames f' = mask_outgoing_frames f"
    "\<not> mask_outgoing_frames f \<longrightarrow> k = 0"
    by (rule ship_frame_wire [of L assemble_binary_frame binary_frame nxt p ?f d])
      (use assms in \<open>auto simp: assemble_binary_frame_def\<close>)
  show ?thesis
    by (rule that [of "f'\<lparr>binary_buf := []\<rparr>" d' k])
      (use w assms(3) Binary_message in \<open>simp_all add: make_mixed_message_oriented_layer_ptr_def
         end_binary_message_def Let_def\<close>)
qed

lemma keyed_frames_Cons:
  "keyed_frames ((k, m) # kms) = final_frame (msg_opcode m) k (msg_payload m) @ keyed_frames kms"
  by (simp add: keyed_frames_def)

lemma send_messages_wire:
  assumes "stream_lower L"
  shows "text_buf f = [] \<Longrightarrow> binary_buf f = [] \<Longrightarrow>
    \<exists>kms. map snd kms = ms \<and>
      output_buffer L (snd (send_messages (make_mixed_message_oriented_layer_ptr L nxt) ms (f, d)))
      = output_buffer L d @ keyed_frames kms"
proof (induction ms arbitrary: f d)
  case Nil
  show ?case by (simp add: keyed_frames_def)
next
  case (Cons m ms)
  obtain k f' d' where s: "send_message (make_mixed_message_oriented_layer_ptr L nxt) m (f, d) = (f', d')"
    "output_buffer L d' = output_buffer L d @ final_frame (msg_opcode m) k (msg_payload m)"
    "text_buf f' = []" "binary_buf f' = []"
    using send_message_wire [OF assms Cons.prems] by blast
  from Cons.IH [OF s(3,4), of d'] obtain kms where "map snd kms = ms"
    "output_buffer L (snd (send_messages (make_mixed_message_oriented_layer_ptr L nxt) ms (f', d')))
     = output_buffer L d' @ keyed_frames kms" by blast
  then show ?case
    by (intro exI [of _ "(k, m) # kms"]) (simp add: s keyed_frames_Cons)
qed

text \<open>Everything one endpoint sends, the other endpoint's application receives.\<close>

lemma sent_is_received:
  assumes "stream_lower L" and "text_buf f = []" and "binary_buf f = []" and "output_buffer L d = []"
    and "keeps_assembly U" and "ms \<noteq> []" and "cur_opcode g = nil_code" and "\<forall>m \<in> set ms. fits_frame m"
    and "wire = output_buffer L (snd (send_messages (make_mixed_message_oriented_layer_ptr L nxt) ms (f, d)))"
  shows "consume_frames L' U nxt' wire 0 u g e =
    (let (u', g', e', ok) = deliver_messages U ms u g e
     in if ok then (u', g', configure_read L' (policy_up_to 2048) e', int (length wire))
        else (u', g', e', -1))"
proof -
  from send_messages_wire [OF assms(1-3), of ms nxt d] obtain kms where
    k: "map snd kms = ms" "wire = keyed_frames kms"
    using assms(4,9) by auto
  have "kms \<noteq> []" using k assms(6) by auto
  moreover have "\<forall>(x, m) \<in> set kms. fits_frame m" using k(1) assms(8) by force
  ultimately show ?thesis
    using consume_keyed_frames [OF assms(5) _ assms(7), of kms L' nxt' 0 u e] k by (simp split: prod.split)
qed

section \<open>Fragmented messages\<close>

fun continuation_frames :: "(u32 \<times> byte list) list \<Rightarrow> byte list" where
  "continuation_frames [] = []"
| "continuation_frames ((k, p) # kps) = wire_frame 0 continuation_frame k p @ continuation_frames kps"

definition piece_fits :: "u32 \<times> byte list \<Rightarrow> bool" where
  "piece_fits kp \<longleftrightarrow> length (snd kp) < max_frame_size - 14"

lemma piece_fits_frame:
  "piece_fits (k, p) \<Longrightarrow> length p < max_frame_size - frame_header_length k (length p)"
  using frame_header_length_le [of k "length p"] by (simp add: piece_fits_def)

lemma consume_continuations:
  assumes "rest \<noteq> []"
  shows "\<forall>kp \<in> set kps. piece_fits kp \<Longrightarrow> cur_opcode f \<noteq> nil_code \<Longrightarrow>
    length (payload_buf f) + length (concat (map snd kps)) \<le> max_frame_size \<Longrightarrow>
    consume_frames L U nxt (continuation_frames kps @ rest) c u f d =
    consume_frames L U nxt rest (c + length (continuation_frames kps)) u
      (f\<lparr>payload_buf := payload_buf f @ concat (map snd kps)\<rparr>) d"
proof (induction kps arbitrary: c f)
  case Nil
  show ?case by simp
next
  case (Cons kp kps)
  obtain k p where kp: "kp = (k, p)" by (cases kp)
  let ?f = "f\<lparr>payload_buf := payload_buf f @ p\<rparr>"
  note fit = piece_fits_frame [of k p]
  have "consume_frames L U nxt (wire_frame 0 continuation_frame k p @ continuation_frames kps @ rest) c u f d
      = consume_frames L U nxt (continuation_frames kps @ rest)
          (c + length (wire_frame 0 continuation_frame k p)) u ?f d"
    using Cons.prems assms fit
    by (subst consume_wire_frame) (simp_all add: kp framing_frame_def Let_def)
  moreover have "consume_frames L U nxt (continuation_frames kps @ rest) c' u ?f d =
      consume_frames L U nxt rest (c' + length (continuation_frames kps)) u
        (?f\<lparr>payload_buf := payload_buf ?f @ concat (map snd kps)\<rparr>) d" for c'
    by (rule Cons.IH) (use Cons.prems kp in auto)
  ultimately show ?case by (simp add: kp add.assoc)
qed

lemma consume_fragmented:
  assumes nil: "cur_opcode f = nil_code" "payload_buf f = []"
    and fits: "piece_fits (k0, p0)" "\<forall>kp \<in> set kps. piece_fits kp" "piece_fits (k1, p1)"
    and total: "length (p0 @ concat (map snd kps) @ p1) \<le> max_frame_size"
    and handled: "deliver_message U m u
      (f\<lparr>cur_opcode := msg_opcode m, payload_buf := msg_payload m\<rparr>, d) = (u', (f', d'), res)"
    and res: "0 \<le> res" and m: "msg_payload m = p0 @ concat (map snd kps) @ p1"
    and wire: "wire = wire_frame 0 (msg_opcode m) k0 p0 @ continuation_frames kps @
                      final_frame continuation_frame k1 p1"
  shows "consume_frames L U nxt wire 0 u f d =
    (u', f'\<lparr>cur_opcode := nil_code, payload_buf := []\<rparr>, configure_read L (policy_up_to 2048) d',
     int (length wire))"
proof -
  let ?last = "final_frame continuation_frame k1 p1"
  let ?f0 = "f\<lparr>cur_opcode := msg_opcode m, payload_buf := p0\<rparr>"
  let ?c0 = "length (wire_frame 0 (msg_opcode m) k0 p0)"
  have op: "msg_opcode m \<noteq> nil_code" "msg_opcode m \<noteq> continuation_frame" by (cases m; simp)+
  have "consume_frames L U nxt wire 0 u f d =
      consume_frames L U nxt (continuation_frames kps @ ?last) ?c0 u ?f0 d"
    unfolding wire using nil op piece_fits_frame [OF fits(1)] msg_opcode_known [of m]
    by (subst consume_wire_frame) (simp_all add: framing_frame_def Let_def wire_frame_not_Nil)
  also have "\<dots> = consume_frames L U nxt ?last (?c0 + length (continuation_frames kps)) u
      (?f0\<lparr>payload_buf := p0 @ concat (map snd kps)\<rparr>) d"
    using consume_continuations [OF wire_frame_not_Nil fits(2), of ?f0 L U nxt] op total by simp
  also have "\<dots> = (u', f'\<lparr>cur_opcode := nil_code, payload_buf := []\<rparr>,
      configure_read L (policy_up_to 2048) d', int (length wire))"
    using consume_wire_frame [of continuation_frame fin_flag p1 k1 L U nxt "[]"] op total handled res m
      piece_fits_frame [OF fits(3)]
    by (cases m) (simp_all add: framing_frame_def framing_handle_def Let_def wire)
  finally show ?thesis .
qed

section \<open>The result of consume\<close>

lemma consume_frames_sign:
  "consume_frames L U nxt xs c u f d = (u', f', d', res) \<Longrightarrow> res = -1 \<or> 0 \<le> res"
proof (induction L U nxt xs c u f d rule: consume_frames.induct)
  case (1 L U nxt xs c u f d)
  show ?case
  proof (cases "decode_header xs")
    case (Decoded n hdr)
    let ?fs = "n + unat (payload_len hdr)"
    let ?p = "mask_data (mask_key hdr) (take (unat (payload_len hdr)) (drop n xs))"
    obtain u1 f1 d1 ok where fr: "framing_frame L U nxt hdr ?p u f d = (u1, f1, d1, ok)"
      by (metis prod_cases4)
    show ?thesis
    proof (cases "unat (payload_len hdr) \<ge> max_frame_size - n \<or> length xs < ?fs")
      case True
      then show ?thesis
        using 1(2) Decoded
        by (auto simp: consume_frames.simps [of L U nxt xs] Let_def split: if_splits)
    next
      case False
      then have small: "\<not> unat (payload_len hdr) \<ge> max_frame_size - n" and nl: "\<not> length xs < ?fs"
        by simp_all
      from 1(2) 1(1) [OF Decoded small refl nl refl mask_data_if [symmetric] refl fr [symmetric] refl refl]
      show ?thesis
        unfolding consume_frames_step [OF Decoded small nl fr, of c] by (auto split: if_splits)
    qed
  qed (use 1(2) in \<open>auto simp: consume_frames.simps [of L U nxt xs]\<close>)
qed

lemma consume_frames_range:
  assumes "consume_frames L U nxt xs c u f d = (u', f', d', res)"
  shows "res = -1 \<or> (int c \<le> res \<and> res \<le> int c + int (length xs))"
proof (cases "res = -1")
  case False
  then obtain k where "res = int k"
    using consume_frames_sign [OF assms] by (metis nonneg_int_cases)
  with assms consume_frames_append [of L U nxt xs c u f d u' f' d' k "[]"] show ?thesis by auto
qed simp

end
