(* ===== verification/WebSocket_Endpoint.thy ===== *)
theory WebSocket_Endpoint
  imports Handshake WebSocket_Framing
begin

text \<open>
  \<open>web_socket::server\<close> and \<open>web_socket::client\<close> (\<open>caf/net/web_socket/server.hpp\<close>,
  \<open>client.hpp\<close>): stream layers that perform the opening handshake and then pass all input to the
  framing layer. The framing layer is a record of callbacks \<open>F\<close> on its state \<open>'v\<close>; its
  initialization gets the settings the server has collected from the request.
\<close>

section \<open>Server\<close>

record 'f ws_settings =
  ws_method :: string
  ws_request_uri :: string
  ws_http_version :: string
  ws_fields :: 'f

record ('v, 'f) ws_server =
  srv_complete :: bool
  srv_upper :: 'v
  srv_cfg :: "'f ws_settings"

definition server_new :: "'u \<times> 'g framing \<Rightarrow> 'f ws_settings \<Rightarrow> ('u \<times> 'g framing, 'f) ws_server" where
  "server_new v cfg =
     \<lparr>srv_complete = False, srv_upper = (fst v, (snd v)\<lparr>mask_outgoing_frames := False\<rparr>), srv_cfg = cfg\<rparr>"

definition server_init ::
  "'d stream_oriented_layer_ptr \<Rightarrow> 'f ws_settings \<Rightarrow> ('v, 'f) ws_server \<Rightarrow> 'd \<Rightarrow>
   ('v, 'f) ws_server \<times> 'd \<times> caf_error option" where
  "server_init L cfg s d =
     (s\<lparr>srv_cfg := cfg\<rparr>, configure_read L (policy_up_to (of_nat max_http_size)) d, None)"

definition server_prepare_send ::
  "('v, 'd) stream_upper \<Rightarrow> ('v, 'f) ws_server \<Rightarrow> 'd \<Rightarrow> ('v, 'f) ws_server \<times> 'd \<times> bool" where
  "server_prepare_send F s d =
     (if srv_complete s
      then let (v, d', b) = su_prepare_send F (srv_upper s) d in (s\<lparr>srv_upper := v\<rparr>, d', b)
      else (s, d, True))"

definition server_done_sending ::
  "('v, 'd) stream_upper \<Rightarrow> ('v, 'f) ws_server \<Rightarrow> 'd \<Rightarrow> ('v, 'f) ws_server \<times> 'd \<times> bool" where
  "server_done_sending F s d =
     (if srv_complete s
      then let (v, d', b) = su_done_sending F (srv_upper s) d in (s\<lparr>srv_upper := v\<rparr>, d', b)
      else (s, d, True))"

definition server_abort ::
  "('v, 'd) stream_upper \<Rightarrow> caf_error \<Rightarrow> ('v, 'f) ws_server \<Rightarrow> 'd \<Rightarrow> ('v, 'f) ws_server \<times> 'd" where
  "server_abort F reason s d =
     (if srv_complete s
      then let (v, d') = su_abort F reason (srv_upper s) d in (s\<lparr>srv_upper := v\<rparr>, d')
      else (s, d))"

text \<open>\<open>server::trim\<close> removes blanks only; a line without a colon is skipped.\<close>

definition parse_field :: "'f ws_env \<Rightarrow> string \<Rightarrow> 'f \<Rightarrow> 'f" where
  "parse_field E line fs =
     (case search '':'' line of
        None \<Rightarrow> fs
      | Some sep \<Rightarrow>
          let k = strip_blanks (take sep line); v = strip_blanks (drop (sep + 1) line)
          in if k = [] then fs else settings_put E k v fs)"

definition server_handle_header ::
  "'f ws_env \<Rightarrow> 'd stream_oriented_layer_ptr \<Rightarrow>
   ('f ws_settings \<Rightarrow> 'v \<Rightarrow> 'd \<Rightarrow> 'v \<times> 'd \<times> caf_error option) \<Rightarrow>
   string \<Rightarrow> ('v, 'f) ws_server \<Rightarrow> 'd \<Rightarrow> ('v, 'f) ws_server \<times> 'd \<times> bool" where
  "server_handle_header E L finit http s d =
     (let (first_line, remainder) = split_at http crlf;
          (http_method, request_uri, version) = split2 first_line '' '' in
      if http_method \<noteq> ''GET'' then
        (s, set_abort_reason L (Pec_error pec_invalid_argument
              (''invalid operation: expected GET, got '' @ http_method)) d, False)
      else
        let fs = fold (parse_field E) (crlf_lines remainder) (ws_fields (srv_cfg s));
            cfg = \<lparr>ws_method = http_method, ws_request_uri = request_uri, ws_http_version = version,
                   ws_fields = fs\<rparr>;
            s1 = s\<lparr>srv_cfg := cfg\<rparr>;
            missing = (s1, set_abort_reason L (Pec_error pec_missing_field
                        ''mandatory field Sec-WebSocket-Key missing or invalid'') d, False)
        in case settings_get E ''Sec-WebSocket-Key'' fs of
             None \<Rightarrow> missing
           | Some skey \<Rightarrow>
               let (hs, ok) = assign_key E skey handshake_new in
               if \<not> ok then missing
               else
                 let d1 = append_output L (write_http_1_response E hs) d;
                     (v, d2, err) = finit cfg (srv_upper s1) d1;
                     s2 = s1\<lparr>srv_upper := v\<rparr>
                 in case err of
                      Some e \<Rightarrow> (s2, set_abort_reason L e d2, False)
                    | None \<Rightarrow> (s2\<lparr>srv_complete := True\<rparr>, d2, True))"

text \<open>The part of \<open>consume\<close> that server and client share: wait for the header or reject the input.\<close>

definition header_too_large :: "'d stream_oriented_layer_ptr \<Rightarrow> 'd \<Rightarrow> 'd" where
  "header_too_large L d =
     set_abort_reason L (Pec_error pec_too_many_characters ''exceeded maximum header size'')
       (append_output L write_http_1_header_too_large d)"

definition server_consume ::
  "'f ws_env \<Rightarrow> 'd stream_oriented_layer_ptr \<Rightarrow> ('v, 'd) stream_upper \<Rightarrow>
   ('f ws_settings \<Rightarrow> 'v \<Rightarrow> 'd \<Rightarrow> 'v \<times> 'd \<times> caf_error option) \<Rightarrow>
   byte list \<Rightarrow> byte list \<Rightarrow> ('v, 'f) ws_server \<Rightarrow> 'd \<Rightarrow> ('v, 'f) ws_server \<times> 'd \<times> int" where
  "server_consume E L F finit input delta s d =
     (if srv_complete s then
        let (v, d', res) = su_consume F input delta (srv_upper s) d in (s\<lparr>srv_upper := v\<rparr>, d', res)
      else
        let (hdr, remainder) = split_http_1_header input in
        if hdr = [] then
          if length input \<ge> max_http_size then (s, header_too_large L d, -1) else (s, d, 0)
        else
          let (s1, d1, ok) = server_handle_header E L finit hdr s d in
          if \<not> ok then (s1, d1, -1)
          else if remainder = [] then (s1, d1, int (length hdr))
          else
            let (v, d2, sub_result) = su_consume F remainder remainder (srv_upper s1) d1 in
            (s1\<lparr>srv_upper := v\<rparr>, d2,
             if sub_result \<ge> 0 then int (length hdr) + sub_result else sub_result))"

section \<open>Client\<close>

text \<open>\<open>cl_handshake\<close> is \<open>None\<close> after \<open>handshake_.reset()\<close>; \<open>init\<close> asserts that it is set.\<close>

record 'v ws_client =
  cl_handshake :: "handshake option"
  cl_upper :: 'v

definition client_new :: "handshake \<Rightarrow> 'v \<Rightarrow> 'v ws_client" where
  "client_new hs v = \<lparr>cl_handshake = Some hs, cl_upper = v\<rparr>"

definition client_handshake_complete :: "'v ws_client \<Rightarrow> bool" where
  "client_handshake_complete c \<longleftrightarrow> cl_handshake c = None"

definition client_init ::
  "'f ws_env \<Rightarrow> 'd stream_oriented_layer_ptr \<Rightarrow> (handshake \<Rightarrow> handshake) \<Rightarrow> 'v ws_client \<Rightarrow> 'd \<Rightarrow>
   'v ws_client \<times> 'd \<times> caf_error option" where
  "client_init E L randomize c d =
     (case cl_handshake c of
        None \<Rightarrow> (c, d, None)
      | Some hs \<Rightarrow>
          if \<not> has_mandatory_fields hs then
            (c, d, Some (Sec_error sec_runtime_error ''handshake data lacks mandatory fields''))
          else
            let hs' = (if has_valid_key hs then hs else randomize hs);
                d1 = append_output L (write_http_1_request E hs') d
            in (c\<lparr>cl_handshake := Some hs'\<rparr>,
                configure_read L (policy_up_to (of_nat max_http_size)) d1, None))"

definition client_prepare_send ::
  "('v, 'd) stream_upper \<Rightarrow> 'v ws_client \<Rightarrow> 'd \<Rightarrow> 'v ws_client \<times> 'd \<times> bool" where
  "client_prepare_send F c d =
     (if client_handshake_complete c
      then let (v, d', b) = su_prepare_send F (cl_upper c) d in (c\<lparr>cl_upper := v\<rparr>, d', b)
      else (c, d, True))"

definition client_done_sending ::
  "('v, 'd) stream_upper \<Rightarrow> 'v ws_client \<Rightarrow> 'd \<Rightarrow> 'v ws_client \<times> 'd \<times> bool" where
  "client_done_sending F c d =
     (if client_handshake_complete c
      then let (v, d', b) = su_done_sending F (cl_upper c) d in (c\<lparr>cl_upper := v\<rparr>, d', b)
      else (c, d, True))"

definition client_abort ::
  "('v, 'd) stream_upper \<Rightarrow> caf_error \<Rightarrow> 'v ws_client \<Rightarrow> 'd \<Rightarrow> 'v ws_client \<times> 'd" where
  "client_abort F reason c d =
     (if client_handshake_complete c
      then let (v, d') = su_abort F reason (cl_upper c) d in (c\<lparr>cl_upper := v\<rparr>, d')
      else (c, d))"

definition client_handle_header ::
  "'f ws_env \<Rightarrow> 'd stream_oriented_layer_ptr \<Rightarrow> ('v \<Rightarrow> 'd \<Rightarrow> 'v \<times> 'd \<times> caf_error option) \<Rightarrow>
   handshake \<Rightarrow> string \<Rightarrow> 'v ws_client \<Rightarrow> 'd \<Rightarrow> 'v ws_client \<times> 'd \<times> bool" where
  "client_handle_header E L finit hs http c d =
     (let http_ok = is_valid_http_1_response E hs http;
          c1 = c\<lparr>cl_handshake := None\<rparr>
      in if http_ok then
           let (v, d', err) = finit (cl_upper c1) d; c2 = c1\<lparr>cl_upper := v\<rparr>
           in case err of
                Some e \<Rightarrow> (c2, set_abort_reason L e d', False)
              | None \<Rightarrow> (c2, d', True)
         else
           (c1, set_abort_reason L (Sec_error sec_runtime_error
                  ''received invalid WebSocket handshake response from server'') d, False))"

definition client_consume ::
  "'f ws_env \<Rightarrow> 'd stream_oriented_layer_ptr \<Rightarrow> ('v, 'd) stream_upper \<Rightarrow>
   byte list \<Rightarrow> byte list \<Rightarrow> 'v ws_client \<Rightarrow> 'd \<Rightarrow> 'v ws_client \<times> 'd \<times> int" where
  "client_consume E L F input delta c d =
     (case cl_handshake c of
        None \<Rightarrow>
          let (v, d', res) = su_consume F input delta (cl_upper c) d in (c\<lparr>cl_upper := v\<rparr>, d', res)
      | Some hs \<Rightarrow>
          let (hdr, remainder) = split_http_1_header input in
          if hdr = [] then
            if length input \<ge> max_http_size then (c, header_too_large L d, -1) else (c, d, 0)
          else
            let (c1, d1, ok) = client_handle_header E L (su_init F) hs hdr c d in
            if \<not> ok then (c1, d1, -1)
            else if remainder = [] then (c1, d1, int (length hdr))
            else
              let (v, d2, sub_result) = su_consume F remainder remainder (cl_upper c1) d1 in
              (c1\<lparr>cl_upper := v\<rparr>, d2,
               if sub_result \<ge> 0 then int (length hdr) + sub_result else sub_result))"

section \<open>The handshake between client and server\<close>

text \<open>What the endpoints rely on from CAF: Base64 is invertible and codes 16 bytes with 24 characters,
  and the settings are a map as long as no key has a dot, which addresses nested dictionaries.\<close>

definition base64_codes_keys :: "'f ws_env \<Rightarrow> bool" where
  "base64_codes_keys E \<longleftrightarrow>
     (\<forall>k. length k = 16 \<longrightarrow>
        length (base64_encode E k) = 24 \<and> drop 22 (base64_encode E k) = ''=='' \<and>
        base64_decode E (base64_encode E k) = Some k)"

definition settings_sound :: "'f ws_env \<Rightarrow> bool" where
  "settings_sound E \<longleftrightarrow>
     (\<forall>k k' v f. CHR ''.'' \<notin> set k \<longrightarrow> CHR ''.'' \<notin> set k' \<longrightarrow>
        settings_get E k' (settings_put E k v f) = (if k' = k then Some v else settings_get E k' f))"

text \<open>Header fields that survive the trip: no line breaks, no colon or dot in the name, and not the key.\<close>

definition clean_field :: "string \<times> string \<Rightarrow> bool" where
  "clean_field = (\<lambda>(n, v).
     cr \<notin> set n \<and> cr \<notin> set v \<and> CHR '':'' \<notin> set n \<and> CHR ''.'' \<notin> set n \<and>
     strip_blanks n \<noteq> ''Sec-WebSocket-Key'')"

definition clean_request :: "'f ws_env \<Rightarrow> handshake \<Rightarrow> bool" where
  "clean_request E hs \<longleftrightarrow>
     length (hs_key hs) = 16 \<and>
     cr \<notin> set (lookup ''_endpoint'' hs) \<and> CHR '' '' \<notin> set (lookup ''_endpoint'' hs) \<and>
     cr \<notin> set (lookup ''_host'' hs) \<and> (\<forall>f \<in> set (user_fields E hs). clean_field f)"

definition field_line :: "string \<times> string \<Rightarrow> string" where
  "field_line = (\<lambda>(n, v). n @ '': '' @ v)"

definition request_lines :: "'f ws_env \<Rightarrow> handshake \<Rightarrow> string list" where
  "request_lines E hs =
     map field_line [(''Host'', lookup ''_host'' hs), (''Upgrade'', ''websocket''),
       (''Connection'', ''Upgrade''), (''Sec-WebSocket-Version'', ''13''),
       (''Sec-WebSocket-Key'', base64_encode E (hs_key hs))] @
     map field_line (user_fields E hs)"

definition request_line :: "handshake \<Rightarrow> string" where
  "request_line hs = ''GET '' @ lookup ''_endpoint'' hs @ '' HTTP/1.1''"

lemma http_1_request_text: "http_1_request E hs = header_text (request_line hs # request_lines E hs)"
proof -
  have "concat (map (\<lambda>(k, v). http_field k v) fs) = concat (map (\<lambda>l. l @ crlf) (map field_line fs))" for fs
    by (induction fs) (auto simp: http_field_def field_line_def)
  then show ?thesis
    by (simp add: http_1_request_def header_text_def request_line_def request_lines_def field_line_def)
qed

lemma request_lines_clean:
  assumes "base64_sound E" and "clean_request E hs"
  shows "\<forall>l \<in> set (request_line hs # request_lines E hs). l \<noteq> [] \<and> cr \<notin> set l"
proof -
  have k: "cr \<notin> set (base64_encode E (hs_key hs))"
    using base64_text_clean(1) assms(1) by (auto simp: base64_sound_def)
  have "field_line f \<noteq> [] \<and> cr \<notin> set (field_line f)" if "f \<in> set (user_fields E hs)" for f
    using assms(2) that by (auto simp: clean_request_def clean_field_def field_line_def split: prod.splits)
  then show ?thesis
    using assms(2) k by (auto simp: request_line_def request_lines_def clean_request_def field_line_def)
qed

lemma parse_field_line:
  assumes "CHR '':'' \<notin> set n" and "strip_blanks n \<noteq> []"
  shows "parse_field E (field_line (n, v)) fs
    = settings_put E (strip_blanks n) (strip_blanks (CHR '' '' # v)) fs"
  using search_fresh [of "CHR '':''" n "[]" "CHR '' '' # v"] assms
  by (simp add: parse_field_def field_line_def Let_def)

lemma set_strip_blanks: "set (strip_blanks s) \<subseteq> set s"
  unfolding strip_blanks_def by (metis set_dropWhileD set_rev subsetI)

lemma parse_clean_field:
  assumes "settings_sound E" and "clean_field f"
  shows "settings_get E ''Sec-WebSocket-Key'' (parse_field E (field_line f) fs)
    = settings_get E ''Sec-WebSocket-Key'' fs"
proof -
  obtain n v where f: "f = (n, v)" by (cases f)
  have n: "CHR '':'' \<notin> set n" "CHR ''.'' \<notin> set n" "strip_blanks n \<noteq> ''Sec-WebSocket-Key''"
    using assms(2) by (auto simp: f clean_field_def)
  show ?thesis
  proof (cases "strip_blanks n = []")
    case True
    then show ?thesis
      using search_fresh [of "CHR '':''" n "[]" "CHR '' '' # v"] n
      by (simp add: parse_field_def field_line_def f)
  next
    case False
    have "CHR ''.'' \<notin> set (strip_blanks n)" using set_strip_blanks [of n] n(2) by blast
    then show ?thesis
      using assms(1) n(3) parse_field_line [OF n(1) False, of E v fs]
      by (auto simp: f settings_sound_def)
  qed
qed

lemma fold_clean_fields:
  assumes "settings_sound E" and "\<forall>f \<in> set ufs. clean_field f"
  shows "settings_get E ''Sec-WebSocket-Key'' (fold (parse_field E) (map field_line ufs) fs)
    = settings_get E ''Sec-WebSocket-Key'' fs"
  using assms(2) by (induction ufs arbitrary: fs) (simp_all add: parse_clean_field [OF assms(1)])

lemma strip_key_name: "strip_blanks ''Sec-WebSocket-Key'' = ''Sec-WebSocket-Key''"
  by code_simp

lemma request_key_parsed:
  assumes "settings_sound E" and "base64_sound E" and "clean_request E hs"
  shows "settings_get E ''Sec-WebSocket-Key'' (fold (parse_field E) (request_lines E hs @ [[]]) fs)
    = Some (base64_encode E (hs_key hs))"
proof -
  let ?k = "base64_encode E (hs_key hs)"
  have k: "strip_blanks (CHR '' '' # ?k) = ?k"
    using assms(2) base64_text_clean(2) [of ?k]
    by (intro strip_blanks_id) (auto simp: base64_sound_def is_space_def)
  have last: "parse_field E [] gs = gs" for gs by (simp add: parse_field_def)
  have "settings_get E ''Sec-WebSocket-Key''
      (parse_field E (field_line (''Sec-WebSocket-Key'', ?k)) gs) = Some ?k" for gs
    using assms(1) parse_field_line [of "''Sec-WebSocket-Key''" E ?k gs] k
    by (simp add: strip_key_name settings_sound_def)
  moreover have "\<forall>f \<in> set (user_fields E hs). clean_field f"
    using assms(3) by (simp add: clean_request_def)
  ultimately show ?thesis
    using fold_clean_fields [OF assms(1)] by (simp add: request_lines_def last)
qed

lemma split2_request_line:
  assumes "CHR '' '' \<notin> set (lookup ''_endpoint'' hs)"
  shows "split2 (request_line hs) '' '' = (''GET'', lookup ''_endpoint'' hs, ''HTTP/1.1'')"
proof -
  have "split_at (''GET'' @ CHR '' '' # (lookup ''_endpoint'' hs @ CHR '' '' # ''HTTP/1.1'')) '' ''
      = (''GET'', lookup ''_endpoint'' hs @ CHR '' '' # ''HTTP/1.1'')"
    by (rule split_at_fresh) simp
  moreover have "split_at (lookup ''_endpoint'' hs @ CHR '' '' # ''HTTP/1.1'') '' ''
      = (lookup ''_endpoint'' hs, ''HTTP/1.1'')"
    by (rule split_at_fresh) (rule assms)
  ultimately show ?thesis by (simp add: split2_def request_line_def)
qed

lemma server_accepts_request:
  assumes E: "settings_sound E" "base64_sound E" "base64_codes_keys E" and req: "clean_request E hs"
    and init: "\<And>cfg v d. \<exists>v' d'. finit cfg v d = (v', d', None)"
  shows "\<exists>s' d'. server_handle_header E L finit (http_1_request E hs) s d = (s', d', True) \<and>
    srv_complete s' \<and> ws_request_uri (srv_cfg s') = lookup ''_endpoint'' hs \<and>
    finit (srv_cfg s') (srv_upper s)
      (append_output L (write_http_1_response E (handshake_new\<lparr>hs_key := hs_key hs\<rparr>)) d)
    = (srv_upper s', d', None)"
proof -
  let ?lines = "request_lines E hs"
  have clean: "\<forall>l \<in> set (request_line hs # ?lines). l \<noteq> [] \<and> cr \<notin> set l"
    by (rule request_lines_clean [OF E(2) req])
  have "split_at (request_line hs @ cr # lf # header_text ?lines) crlf = (request_line hs, header_text ?lines)"
    using search_fresh [of cr "request_line hs" "[lf]" "header_text ?lines"] clean
    by (simp add: split_at_def)
  then have 1: "split_at (http_1_request E hs) crlf = (request_line hs, header_text ?lines)"
    by (simp only: http_1_request_text header_text_Cons)
  have 2: "split2 (request_line hs) '' '' = (''GET'', lookup ''_endpoint'' hs, ''HTTP/1.1'')"
    using req by (intro split2_request_line) (simp add: clean_request_def)
  have 3: "crlf_lines (header_text ?lines) = ?lines @ [[]]"
    using clean by (intro crlf_lines_header) simp
  have k: "length (base64_encode E (hs_key hs)) = 24" "drop 22 (base64_encode E (hs_key hs)) = ''==''"
    "base64_decode E (base64_encode E (hs_key hs)) = Some (hs_key hs)"
    using E(3) req by (simp_all add: base64_codes_keys_def clean_request_def)
  have 4: "assign_key E (base64_encode E (hs_key hs)) handshake_new
      = (handshake_new\<lparr>hs_key := hs_key hs\<rparr>, True)"
    by (simp add: assign_key_def k)
  note 5 = request_key_parsed [OF E(1,2) req, of "ws_fields (srv_cfg s)"]
  let ?cfg = "\<lparr>ws_method = ''GET'', ws_request_uri = lookup ''_endpoint'' hs, ws_http_version = ''HTTP/1.1'',
      ws_fields = fold (parse_field E) (?lines @ [[]]) (ws_fields (srv_cfg s))\<rparr>"
  let ?d1 = "append_output L (write_http_1_response E (handshake_new\<lparr>hs_key := hs_key hs\<rparr>)) d"
  have 6: "srv_upper (s\<lparr>srv_cfg := c\<rparr>) = srv_upper s" for c by simp
  obtain v' d' where f: "finit ?cfg (srv_upper s) ?d1 = (v', d', None)" using init by blast
  have "server_handle_header E L finit (http_1_request E hs) s d
      = (s\<lparr>srv_cfg := ?cfg, srv_upper := v', srv_complete := True\<rparr>, d', True)"
    unfolding server_handle_header_def 1 Let_def prod.case 2 3
    by (simp only: 4 5 6 option.case prod.case f simp_thms if_True if_False)
  with f show ?thesis
    by (intro exI [of _ "s\<lparr>srv_cfg := ?cfg, srv_upper := v', srv_complete := True\<rparr>"] exI [of _ d']) simp
qed

lemma response_text:
  "http_1_response E hs = header_text [''HTTP/1.1 101 Switching Protocols'', ''Upgrade: websocket'',
     ''Connection: Upgrade'', ''Sec-WebSocket-Accept: '' @ response_key E hs]"
  by (simp add: http_1_response_def header_text_def)

lemma split_response:
  assumes "base64_sound E"
  shows "split_http_1_header (bytes_of (http_1_response E hs) @ rest) = (http_1_response E hs, rest)"
proof -
  have "cr \<notin> set (response_key E hs)"
    using assms base64_text_clean(1) by (auto simp: base64_sound_def response_key_def)
  then show ?thesis
    unfolding response_text by (intro split_header_text) auto
qed

lemma split_request:
  assumes "base64_sound E" and "clean_request E hs"
  shows "split_http_1_header (bytes_of (http_1_request E hs) @ rest) = (http_1_request E hs, rest)"
  unfolding http_1_request_text
  by (rule split_header_text) (use request_lines_clean [OF assms] in auto)

lemma header_text_not_Nil: "header_text ls \<noteq> []"
  by (simp add: header_text_def)

text \<open>The client's view of the response of a server that has received its key.\<close>

lemma client_accepts_response:
  assumes "base64_sound E" and "cl_handshake c = Some hs" and "hs_key shs = hs_key hs"
    and "su_init F (cl_upper c) d = (v, d', None)"
  shows "client_consume E L F (bytes_of (http_1_response E shs)) delta c d
    = (c\<lparr>cl_handshake := None, cl_upper := v\<rparr>, d', int (length (http_1_response E shs)))"
proof -
  have "is_valid_http_1_response E hs (http_1_response E shs)"
    using response_accepted_iff [OF assms(1)] assms(3) by (simp add: response_key_def)
  then show ?thesis
    using split_response [OF assms(1), of shs "[]"] assms(2,4) header_text_not_Nil
    by (simp add: client_consume_def client_handle_header_def response_text)
qed

section \<open>An environment\<close>

text \<open>Base64 digits of a number, least significant first, as a concrete code for witnesses.\<close>

fun digits64 :: "nat \<Rightarrow> nat \<Rightarrow> string" where
  "digits64 0 n = []"
| "digits64 (Suc m) n = base64_alphabet ! (n mod 64) # digits64 m (n div 64)"

definition digit_value :: "char \<Rightarrow> nat" where
  "digit_value c = length (takeWhile (\<lambda>x. x \<noteq> c) base64_alphabet)"

fun value64 :: "string \<Rightarrow> nat" where
  "value64 [] = 0"
| "value64 (c # cs) = digit_value c + 64 * value64 cs"

lemma digit_value_nth: "j < 64 \<Longrightarrow> digit_value (base64_alphabet ! j) = j"
proof -
  have "list_all (\<lambda>j. digit_value (base64_alphabet ! j) = j) [0..<64]" by code_simp
  then show "j < 64 \<Longrightarrow> ?thesis" by (simp add: list_all_iff)
qed

lemma value64_digits64: "n < 64 ^ m \<Longrightarrow> value64 (digits64 m n) = n"
proof (induction m arbitrary: n)
  case (Suc m)
  then have "n div 64 < 64 ^ m" by (simp add: less_mult_imp_div_less mult.commute)
  with Suc show ?case by (simp add: digit_value_nth)
qed simp

lemma digits64_text: "base64_text (digits64 m n)"
proof (induction m arbitrary: n)
  case (Suc m)
  have "64 < length base64_alphabet" by code_simp
  then have "n mod 64 < length base64_alphabet" by (meson less_trans mod_less_divisor zero_less_numeral)
  with Suc show ?case by (simp add: base64_text_def)
qed (simp add: base64_text_def)

lemma length_digits64 [simp]: "length (digits64 m n) = m"
  by (induction m arbitrary: n) auto

definition sample_env :: "(string \<rightharpoonup> string) ws_env" where
  "sample_env =
     \<lparr>base64_encode = (\<lambda>bs. digits64 22 (be_decode bs) @ ''==''),
      base64_decode = (\<lambda>s. Some (be_encode 16 (value64 (take 22 s)))),
      sha1_compute = (\<lambda>s. bytes_of (take 20 s)),
      dict_items = (\<lambda>m. case m ''Origin'' of Some v \<Rightarrow> [(''Origin'', v)] | None \<Rightarrow> []),
      settings_put = (\<lambda>k v m. m(k \<mapsto> v)),
      settings_get = (\<lambda>k m. m k)\<rparr>"

lemma sample_env_sound:
  "base64_sound sample_env" "base64_codes_keys sample_env" "settings_sound sample_env"
proof -
  have "base64_text ''==''" by code_simp
  then show "base64_sound sample_env"
    using digits64_text by (simp add: base64_sound_def sample_env_def base64_text_def)
  show "base64_codes_keys sample_env"
    unfolding base64_codes_keys_def
  proof (intro allI impI)
    fix k :: "byte list" assume k: "length k = 16"
    have "be_decode k < 256 ^ 16" using be_decode_less [of k] k by simp
    also have "\<dots> < (64 :: nat) ^ 22" by simp
    finally have "value64 (digits64 22 (be_decode k)) = be_decode k" by (rule value64_digits64)
    then show "length (base64_encode sample_env k) = 24 \<and> drop 22 (base64_encode sample_env k) = ''=='' \<and>
        base64_decode sample_env (base64_encode sample_env k) = Some k"
      using be_encode_decode [of k] k by (simp add: sample_env_def)
  qed
  show "settings_sound sample_env"
    by (simp add: settings_sound_def sample_env_def)
qed

definition sample_handshake :: handshake where
  "sample_handshake =
     (set_origin ''example.org'' (set_host ''localhost'' (set_endpoint ''/chat'' handshake_new)))
       \<lparr>hs_key := map of_nat [1..<17]\<rparr>"

lemma sample_request_clean: "clean_request sample_env sample_handshake"
proof -
  have u: "user_fields sample_env sample_handshake = [(''Origin'', ''example.org'')]"
    by (simp add: user_fields_def sample_env_def sample_handshake_def set_origin_def set_host_def
        set_endpoint_def handshake_new_def)
  have l: "lookup ''_endpoint'' sample_handshake = ''/chat''" "lookup ''_host'' sample_handshake = ''localhost''"
    by (simp_all add: lookup_def sample_handshake_def set_origin_def set_host_def set_endpoint_def
        handshake_new_def)
  have "clean_field (''Origin'', ''example.org'')" by code_simp
  then show ?thesis
    by (simp add: clean_request_def u l) (simp add: sample_handshake_def)
qed

text \<open>An upper layer that initializes successfully and consumes everything.\<close>

definition sample_upper :: "(nat, byte list) stream_upper" where
  "sample_upper =
     \<lparr>su_init = (\<lambda>u d. (u, d, None)), su_prepare_send = (\<lambda>u d. (u, d, True)),
      su_done_sending = (\<lambda>u d. (u, d, True)), su_abort = (\<lambda>e u d. (u + 1, d)),
      su_consume = (\<lambda>bytes delta u d. (u, d, int (length bytes)))\<rparr>"

definition sample_lower :: "byte list stream_oriented_layer_ptr" where
  "sample_lower =
     \<lparr>can_send_more = (\<lambda>d. True), begin_output = (\<lambda>d. d), output_buffer = (\<lambda>d. d),
      write_output = (\<lambda>b d. b), end_output = (\<lambda>d. d), set_abort_reason = (\<lambda>e d. d),
      abort_reason = (\<lambda>d. None), configure_read = (\<lambda>p d. d)\<rparr>"

section \<open>Properties of the endpoints\<close>

text \<open>
  C5: The opening handshake succeeds: a server that receives the request of a client consumes exactly
  the request, writes a response for the client's key, initializes its upper layer and is complete; a
  client that receives this response accepts it, initializes its upper layer and is complete.
\<close>

theorem opening_handshake:
  assumes "settings_sound E" and "base64_sound E" and "base64_codes_keys E" and "clean_request E hs"
    and "\<And>cfg v d. \<exists>v' d'. finit cfg v d = (v', d', None)"
    and "\<not> srv_complete s" and "cl_handshake c = Some hs"
    and "\<And>v e. \<exists>v' e'. su_init G v e = (v', e', None)"
  shows "\<exists>s' d' c' e'.
    server_consume E L F finit (bytes_of (http_1_request E hs)) delta s d
      = (s', d', int (length (http_1_request E hs))) \<and>
    srv_complete s' \<and>
    finit (srv_cfg s') (srv_upper s)
      (append_output L (write_http_1_response E (handshake_new\<lparr>hs_key := hs_key hs\<rparr>)) d)
      = (srv_upper s', d', None) \<and>
    client_consume E M G (bytes_of (http_1_response E (handshake_new\<lparr>hs_key := hs_key hs\<rparr>))) delta' c e
      = (c', e', int (length (http_1_response E (handshake_new\<lparr>hs_key := hs_key hs\<rparr>)))) \<and>
    client_handshake_complete c'"
proof -
  obtain s' d' where srv: "server_handle_header E L finit (http_1_request E hs) s d = (s', d', True)"
    "srv_complete s'" "finit (srv_cfg s') (srv_upper s)
      (append_output L (write_http_1_response E (handshake_new\<lparr>hs_key := hs_key hs\<rparr>)) d)
      = (srv_upper s', d', None)"
    using server_accepts_request [where finit = finit and L = L and s = s and d = d, OF assms(1-5)] by blast
  have "server_consume E L F finit (bytes_of (http_1_request E hs)) delta s d
      = (s', d', int (length (http_1_request E hs)))"
    using split_request [OF assms(2,4), of "[]"] assms(6) srv(1) header_text_not_Nil
    by (simp add: server_consume_def http_1_request_text)
  moreover obtain v e' where "su_init G (cl_upper c) e = (v, e', None)" using assms(8) by blast
  ultimately show ?thesis
    using client_accepts_response [OF assms(2,7), of "handshake_new\<lparr>hs_key := hs_key hs\<rparr>" G e v e' M delta']
      srv(2,3)
    by (auto simp: client_handshake_complete_def)
qed

theorem opening_handshake_witness:
  "\<exists>s' d' c' e'.
    server_consume sample_env sample_lower sample_upper (\<lambda>cfg u d. (u, d, None))
      (bytes_of (http_1_request sample_env sample_handshake)) []
      \<lparr>srv_complete = False, srv_upper = 0,
       srv_cfg = \<lparr>ws_method = [], ws_request_uri = [], ws_http_version = [], ws_fields = Map.empty\<rparr>\<rparr> []
      = (s', d', int (length (http_1_request sample_env sample_handshake))) \<and>
    srv_complete s' \<and>
    client_consume sample_env sample_lower sample_upper
      (bytes_of (http_1_response sample_env (handshake_new\<lparr>hs_key := hs_key sample_handshake\<rparr>))) []
      (client_new sample_handshake 0) []
      = (c', e', int (length (http_1_response sample_env (handshake_new\<lparr>hs_key := hs_key sample_handshake\<rparr>)))) \<and>
    client_handshake_complete c'"
  using opening_handshake [OF sample_env_sound(3,1,2) sample_request_clean,
      of "\<lambda>cfg u d. (u, d, None)"
        "\<lparr>srv_complete = False, srv_upper = 0,
          srv_cfg = \<lparr>ws_method = [], ws_request_uri = [], ws_http_version = [], ws_fields = Map.empty\<rparr>\<rparr>"
        "client_new sample_handshake 0" sample_upper sample_lower sample_upper "[]" "[]" sample_lower "[]" "[]"]
  by (auto simp: client_new_def sample_upper_def)

end
