(* ===== verification/Length_Prefix.thy ===== *)
theory Length_Prefix
  imports Layers
begin

text \<open>
  \<open>length_prefix_framing\<close> (\<open>caf/net/length_prefix_framing.hpp\<close>): messages with a length prefix of
  four bytes in network order on top of a stream.
\<close>

section \<open>State and interfaces\<close>

record length_prefix_framing =
  message_offset :: nat
  receive_buf_upper_bound :: u32

abbreviation (input) max_message_length :: nat where "max_message_length \<equiv> 2147483643"
abbreviation (input) default_receive_size :: u32 where "default_receive_size \<equiv> 4096"

definition length_prefix_framing_new :: length_prefix_framing where
  "length_prefix_framing_new = \<lparr>message_offset = 0, receive_buf_upper_bound = default_receive_size\<rparr>"

type_synonym 'd lp_stack = "length_prefix_framing \<times> 'd"

text \<open>\<open>message_oriented_layer_ptr\<close> (\<open>caf/net/message_oriented_layer_ptr.hpp\<close>).\<close>

record 'l message_oriented_layer_ptr =
  mo_can_send_more :: "'l \<Rightarrow> bool"
  mo_begin_message :: "'l \<Rightarrow> 'l"
  mo_message_buffer :: "'l \<Rightarrow> byte_buffer"
  mo_write_message :: "byte_buffer \<Rightarrow> 'l \<Rightarrow> 'l"
  mo_end_message :: "'l \<Rightarrow> 'l \<times> bool"
  mo_set_abort_reason :: "caf_error \<Rightarrow> 'l \<Rightarrow> 'l"
  mo_abort_reason :: "'l \<Rightarrow> caf_error option"

record ('u, 'l) message_upper =
  mo_init :: "'u \<Rightarrow> 'l \<Rightarrow> 'u \<times> 'l \<times> caf_error option"
  mo_prepare_send :: "'u \<Rightarrow> 'l \<Rightarrow> 'u \<times> 'l \<times> bool"
  mo_done_sending :: "'u \<Rightarrow> 'l \<Rightarrow> 'u \<times> 'l \<times> bool"
  mo_abort :: "caf_error \<Rightarrow> 'u \<Rightarrow> 'l \<Rightarrow> 'u \<times> 'l"
  mo_consume :: "byte list \<Rightarrow> 'u \<Rightarrow> 'l \<Rightarrow> 'u \<times> 'l \<times> int"

section \<open>Output\<close>

definition begin_message :: "'d stream_oriented_layer_ptr \<Rightarrow> 'd lp_stack \<Rightarrow> 'd lp_stack" where
  "begin_message L = (\<lambda>(f, d).
     let d1 = begin_output L d; buf = output_buffer L d1
     in (f\<lparr>message_offset := length buf\<rparr>, write_output L (buf @ replicate 4 0) d1))"

definition end_message :: "'d stream_oriented_layer_ptr \<Rightarrow> 'd lp_stack \<Rightarrow> 'd lp_stack \<times> bool" where
  "end_message L = (\<lambda>(f, d).
     let buf = output_buffer L d;
         msg_size = int (length buf) - int (message_offset f + 4)
     in if msg_size > 0 \<and> nat msg_size < max_message_length then
          ((f, write_output L (take (message_offset f) buf @ net32 (of_int msg_size) @
                                drop (message_offset f + 4) buf) d), True)
        else
          ((f, set_abort_reason L (Sec_error sec_runtime_error
                 (if msg_size = 0 then ''logic error: message of size 0''
                  else ''maximum message size exceeded'')) d), False))"

definition make_message_oriented_layer_ptr ::
  "'d stream_oriented_layer_ptr \<Rightarrow> 'd lp_stack message_oriented_layer_ptr" where
  "make_message_oriented_layer_ptr L =
     \<lparr>mo_can_send_more = (\<lambda>(f, d). can_send_more L d),
      mo_begin_message = begin_message L,
      mo_message_buffer = (\<lambda>(f, d). output_buffer L d),
      mo_write_message = (\<lambda>b (f, d). (f, write_output L b d)),
      mo_end_message = end_message L,
      mo_set_abort_reason = (\<lambda>e (f, d). (f, set_abort_reason L e d)),
      mo_abort_reason = (\<lambda>(f, d). abort_reason L d)\<rparr>"

section \<open>Callbacks for the lower layer\<close>

definition lp_init ::
  "'d stream_oriented_layer_ptr \<Rightarrow> ('u, 'd lp_stack) message_upper \<Rightarrow> 'u \<times> length_prefix_framing \<Rightarrow> 'd \<Rightarrow>
   ('u \<times> length_prefix_framing) \<times> 'd \<times> caf_error option" where
  "lp_init L U uf d =
     (case uf of (u, f) \<Rightarrow>
        let (u', (f', d'), err) = mo_init U u (f, configure_read L (policy_between 4 default_receive_size) d)
        in ((u', f'), d', err))"

definition lp_prepare_send ::
  "('u, 'd lp_stack) message_upper \<Rightarrow> 'u \<times> length_prefix_framing \<Rightarrow> 'd \<Rightarrow>
   ('u \<times> length_prefix_framing) \<times> 'd \<times> bool" where
  "lp_prepare_send U uf d =
     (case uf of (u, f) \<Rightarrow> let (u', (f', d'), b) = mo_prepare_send U u (f, d) in ((u', f'), d', b))"

definition lp_done_sending ::
  "('u, 'd lp_stack) message_upper \<Rightarrow> 'u \<times> length_prefix_framing \<Rightarrow> 'd \<Rightarrow>
   ('u \<times> length_prefix_framing) \<times> 'd \<times> bool" where
  "lp_done_sending U uf d =
     (case uf of (u, f) \<Rightarrow> let (u', (f', d'), b) = mo_done_sending U u (f, d) in ((u', f'), d', b))"

definition lp_abort ::
  "('u, 'd lp_stack) message_upper \<Rightarrow> caf_error \<Rightarrow> 'u \<times> length_prefix_framing \<Rightarrow> 'd \<Rightarrow>
   ('u \<times> length_prefix_framing) \<times> 'd" where
  "lp_abort U reason uf d =
     (case uf of (u, f) \<Rightarrow> let (u', (f', d')) = mo_abort U reason u (f, d) in ((u', f'), d'))"

definition lp_split :: "byte list \<Rightarrow> nat \<times> byte list" where
  "lp_split buffer = (unat (from_net32 (take 4 buffer)), drop 4 buffer)"

function consume_messages ::
  "'d stream_oriented_layer_ptr \<Rightarrow> ('u, 'd lp_stack) message_upper \<Rightarrow> byte list \<Rightarrow> nat \<Rightarrow>
   'u \<Rightarrow> length_prefix_framing \<Rightarrow> 'd \<Rightarrow> 'u \<times> length_prefix_framing \<times> 'd \<times> int" where
  "consume_messages L U input consumed u f d =
     (if length input < 4 then (u, f, d, int consumed)
      else
        let (msg_size, sub_buffer) = lp_split input in
        if msg_size = 0 then consume_messages L U sub_buffer (consumed + 4) u f d
        else if msg_size > max_message_length then
          (u, f, set_abort_reason L (Sec_error sec_runtime_error ''maximum message size exceeded'') d, -1)
        else if msg_size > length sub_buffer then
          if msg_size + 4 > unat (receive_buf_upper_bound f) then
            let bound = of_nat (msg_size + 4)
            in (u, f\<lparr>receive_buf_upper_bound := bound\<rparr>,
                configure_read L (policy_between 4 bound) d, int consumed)
          else (u, f, d, int consumed)
        else
          let msg = take msg_size sub_buffer;
              (u', (f', d'), res) = mo_consume U msg u (f, d)
          in if res \<ge> 0
             then consume_messages L U (drop msg_size sub_buffer) (consumed + (msg_size + 4)) u' f' d'
             else (u', f', d', -1))"
  by pat_completeness auto
termination
  by (relation "measure (\<lambda>(L, U, input, consumed, u, f, d). length input)") (auto simp: lp_split_def)

declare consume_messages.simps [simp del]

definition lp_consume ::
  "'d stream_oriented_layer_ptr \<Rightarrow> ('u, 'd lp_stack) message_upper \<Rightarrow> byte list \<Rightarrow> byte list \<Rightarrow>
   'u \<times> length_prefix_framing \<Rightarrow> 'd \<Rightarrow> ('u \<times> length_prefix_framing) \<times> 'd \<times> int" where
  "lp_consume L U input delta uf d =
     (case uf of (u, f) \<Rightarrow>
        let (u', f', d', res) = consume_messages L U input 0 u f d in ((u', f'), d', res))"

definition length_prefix_layer ::
  "'d stream_oriented_layer_ptr \<Rightarrow> ('u, 'd lp_stack) message_upper \<Rightarrow>
   ('u \<times> length_prefix_framing, 'd) stream_upper" where
  "length_prefix_layer L U =
     \<lparr>su_init = lp_init L U, su_prepare_send = lp_prepare_send U, su_done_sending = lp_done_sending U,
      su_abort = lp_abort U, su_consume = lp_consume L U\<rparr>"

section \<open>Reading messages\<close>

definition lp_frame :: "byte list \<Rightarrow> byte list" where
  "lp_frame p = net32 (of_nat (length p)) @ p"

definition lp_sized :: "byte list \<Rightarrow> bool" where
  "lp_sized p \<longleftrightarrow> p \<noteq> [] \<and> length p \<le> max_message_length"

text \<open>Messages handed to the upper layer in order, until it rejects one.\<close>

fun hand_over ::
  "('u, 'd lp_stack) message_upper \<Rightarrow> byte list list \<Rightarrow> 'u \<Rightarrow> length_prefix_framing \<Rightarrow> 'd \<Rightarrow>
   'u \<times> length_prefix_framing \<times> 'd \<times> bool" where
  "hand_over U [] u f d = (u, f, d, True)"
| "hand_over U (m # ms) u f d =
     (let (u', (f', d'), res) = mo_consume U m u (f, d)
      in if res \<ge> 0 then hand_over U ms u' f' d' else (u', f', d', False))"

lemma length_lp_frame [simp]: "length (lp_frame p) = 4 + length p"
  by (simp add: lp_frame_def)

lemma lp_split_frame:
  assumes "length p < 2 ^ 32"
  shows "lp_split (lp_frame p @ rest) = (length p, p @ rest)"
  using assms by (simp add: lp_split_def lp_frame_def unat_of_nat)

lemma consume_one_message:
  assumes "lp_sized p" and "mo_consume U p u (f, d) = (u', (f', d'), res)"
  shows "consume_messages L U (lp_frame p @ rest) c u f d =
    (if res \<ge> 0 then consume_messages L U rest (c + length (lp_frame p)) u' f' d' else (u', f', d', -1))"
proof -
  have "length p < 2 ^ 32" using assms(1) by (simp add: lp_sized_def)
  then show ?thesis
    using assms lp_split_frame [of p rest]
    by (subst consume_messages.simps) (simp add: lp_sized_def add.commute)
qed

lemma consume_all_messages:
  assumes "\<forall>p \<in> set ps. lp_sized p"
  shows "consume_messages L U (concat (map lp_frame ps)) c u f d =
    (let (u', f', d', ok) = hand_over U ps u f d
     in (u', f', d', if ok then int (c + length (concat (map lp_frame ps))) else -1))"
  using assms
proof (induction ps arbitrary: c u f d)
  case Nil
  show ?case by (simp add: consume_messages.simps)
next
  case (Cons p ps)
  obtain u' f' d' res where m: "mo_consume U p u (f, d) = (u', (f', d'), res)" by (metis surj_pair)
  have sized: "lp_sized p" using Cons.prems by simp
  have IH: "consume_messages L U (concat (map lp_frame ps)) c' u' f' d' =
      (let (u', f', d', ok) = hand_over U ps u' f' d'
       in (u', f', d', if ok then int (c' + length (concat (map lp_frame ps))) else -1))" for c'
    using Cons by simp
  show ?case
    using consume_one_message [OF sized m, of L "concat (map lp_frame ps)" c] m
    by (simp add: IH Let_def add.assoc split: prod.split)
qed

section \<open>Writing messages\<close>

text \<open>What an application does to send a message.\<close>

definition lp_send :: "'l message_oriented_layer_ptr \<Rightarrow> byte list \<Rightarrow> 'l \<Rightarrow> 'l \<times> bool" where
  "lp_send M p l =
     (let l1 = mo_begin_message M l; l2 = mo_write_message M (mo_message_buffer M l1 @ p) l1
      in mo_end_message M l2)"

fun lp_send_all :: "'l message_oriented_layer_ptr \<Rightarrow> byte list list \<Rightarrow> 'l \<Rightarrow> 'l \<times> bool" where
  "lp_send_all M [] l = (l, True)"
| "lp_send_all M (p # ps) l = (let (l', ok) = lp_send M p l in if ok then lp_send_all M ps l' else (l', False))"

context stream_lower
begin

lemma lp_send_frame:
  assumes "p \<noteq> []" and "length p < max_message_length"
  obtains f' d' where "lp_send (make_message_oriented_layer_ptr L) p (f, d) = ((f', d'), True)"
    and "output_buffer L d' = output_buffer L d @ lp_frame p"
proof -
  have e: "lp_send (make_message_oriented_layer_ptr L) p (f, d) =
    ((f\<lparr>message_offset := length (output_buffer L d)\<rparr>,
      write_output L (output_buffer L d @ lp_frame p)
        (write_output L (output_buffer L d @ replicate 4 0 @ p)
          (write_output L (output_buffer L d @ replicate 4 0) (begin_output L d)))), True)"
    using assms
    by (simp add: lp_send_def make_message_oriented_layer_ptr_def begin_message_def end_message_def
        Let_def lp_frame_def)
  show ?thesis
    by (rule that [OF e]) simp
qed

lemma lp_send_empty_rejected:
  "snd (lp_send (make_message_oriented_layer_ptr L) [] (f, d)) = False"
  "abort_reason L (snd (fst (lp_send (make_message_oriented_layer_ptr L) [] (f, d)))) \<noteq> None"
  by (simp_all add: lp_send_def make_message_oriented_layer_ptr_def begin_message_def end_message_def
      Let_def)

lemma lp_send_all_frames:
  "\<forall>p \<in> set ps. p \<noteq> [] \<and> length p < max_message_length \<Longrightarrow>
   \<exists>f' d'. lp_send_all (make_message_oriented_layer_ptr L) ps (f, d) = ((f', d'), True) \<and>
     output_buffer L d' = output_buffer L d @ concat (map lp_frame ps)"
proof (induction ps arbitrary: f d)
  case Nil
  show ?case by simp
next
  case (Cons p ps)
  obtain f1 d1 where 1: "lp_send (make_message_oriented_layer_ptr L) p (f, d) = ((f1, d1), True)"
    "output_buffer L d1 = output_buffer L d @ lp_frame p"
    using lp_send_frame [of p f d] Cons.prems by auto
  from Cons.IH [of f1 d1] Cons.prems obtain f' d' where
    "lp_send_all (make_message_oriented_layer_ptr L) ps (f1, d1) = ((f', d'), True)"
    "output_buffer L d' = output_buffer L d1 @ concat (map lp_frame ps)" by auto
  with 1 show ?case by simp
qed

end

text \<open>The two limits differ: the longest message the receiver accepts cannot be sent.\<close>

lemma longest_message_unsendable:
  assumes "stream_lower L" and "length p = max_message_length"
  shows "lp_sized p" and "\<not> snd (lp_send (make_message_oriented_layer_ptr L) p (f, d))"
proof -
  show "lp_sized p" using assms(2) by (auto simp: lp_sized_def)
  show "\<not> snd (lp_send (make_message_oriented_layer_ptr L) p (f, d))"
    using assms stream_lower.output_write [OF assms(1)] stream_lower.output_begin [OF assms(1)]
    by (simp add: lp_send_def make_message_oriented_layer_ptr_def begin_message_def end_message_def
        Let_def)
qed

section \<open>Independence from the chunking of the stream\<close>

text \<open>How a call ends that waits for more input: at most with a larger bound on the receive buffer.\<close>

definition lp_waits ::
  "'d stream_oriented_layer_ptr \<Rightarrow> length_prefix_framing \<times> 'd \<Rightarrow> length_prefix_framing \<times> 'd \<Rightarrow> bool" where
  "lp_waits L fd fd' \<longleftrightarrow>
     fd' = fd \<or>
     (\<exists>bound. fd' = ((fst fd)\<lparr>receive_buf_upper_bound := bound\<rparr>,
                     configure_read L (policy_between 4 bound) (snd fd)))"

lemma consume_messages_skip:
  assumes "4 \<le> length xs" and "lp_split xs = (0, sub)"
  shows "consume_messages L U xs c u f d = consume_messages L U sub (c + 4) u f d"
  using assms by (subst consume_messages.simps) simp

lemma consume_messages_step:
  assumes "4 \<le> length xs" and "lp_split xs = (n, sub)" and "n \<noteq> 0" and "n \<le> max_message_length"
    and "n \<le> length sub" and "mo_consume U (take n sub) u (f, d) = (u', (f', d'), res)"
  shows "consume_messages L U xs c u f d =
    (if res \<ge> 0 then consume_messages L U (drop n sub) (c + (n + 4)) u' f' d' else (u', f', d', -1))"
  using assms by (subst consume_messages.simps) (simp add: Let_def)

lemma lp_split_append:
  assumes "4 \<le> length xs" and "lp_split xs = (n, sub)"
  shows "lp_split (xs @ ys) = (n, sub @ ys)" and "sub = drop 4 xs"
  using assms by (auto simp: lp_split_def)

lemma consume_messages_resumes:
  "consume_messages L U xs c u f d = (u', f', d', int k) \<Longrightarrow>
   resumes (\<lambda>s. lp_waits L s (f', d')) (\<lambda>zs (f0, d0). consume_messages L U zs k u' f0 d0) xs ys c k
     (consume_messages L U (xs @ ys) c u f d)"
proof (induction L U xs c u f d rule: consume_messages.induct)
  case (1 L U xs c u f d)
  obtain n sub where sp: "lp_split xs = (n, sub)" by (cases "lp_split xs")
  consider "length xs < 4 \<or> n \<noteq> 0 \<and> n > max_message_length \<or> n \<noteq> 0 \<and> n > length sub" | "4 \<le> length xs" "n = 0"
    | "4 \<le> length xs" "n \<noteq> 0" "n \<le> max_message_length" "n \<le> length sub" by linarith
  then show ?case
  proof cases
    case 1
    then have "lp_waits L (f, d) (f', d') \<and> k = c \<and> u' = u"
      using "1.prems" sp
      by (auto simp: consume_messages.simps [of L U xs] lp_waits_def Let_def split: if_splits)
    then show ?thesis by (auto intro: resumes_here [of _ "(f, d)"])
  next
    case 2
    note app = lp_split_append(1) [OF 2(1) sp, of ys] lp_split_append(2) [OF 2(1) sp]
    have part: "consume_messages L U sub (c + 4) u f d = (u', f', d', int k)"
      using "1.prems" consume_messages_skip [OF 2(1), of sub L U c u f d] sp 2 by simp
    have "\<not> length xs < 4" using 2 by simp
    note IH = "1.IH"(1) [OF this sp [symmetric] refl 2(2) part]
    have "consume_messages L U (xs @ ys) c u f d = consume_messages L U (sub @ ys) (c + 4) u f d"
      using consume_messages_skip [of "xs @ ys" "sub @ ys"] app(1) 2 by simp
    with IH show ?thesis using resumes_drop [OF _ 2(1)] by (simp only: app(2))
  next
    case 3
    obtain u1 f1 d1 res where m: "mo_consume U (take n sub) u (f, d) = (u1, (f1, d1), res)"
      by (metis surj_pair)
    note app = lp_split_append(1) [OF 3(1) sp, of ys] lp_split_append(2) [OF 3(1) sp]
    note step = consume_messages_step [OF 3(1) sp 3(2-4) m, of L c]
    have res: "res \<ge> 0" using "1.prems" step by (auto split: if_splits)
    have part: "consume_messages L U (drop n sub) (c + (n + 4)) u1 f1 d1 = (u', f', d', int k)"
      using "1.prems" step res by simp
    have c: "\<not> length xs < 4" "\<not> n > max_message_length" "\<not> n > length sub" using 3 by simp_all
    have "consume_messages L U (xs @ ys) c u f d = consume_messages L U (drop n sub @ ys) (c + (n + 4)) u1 f1 d1"
      using consume_messages_step [of "xs @ ys" n "sub @ ys" U u f d u1 f1 d1 res L c] app(1) 3 m res by simp
    moreover have "drop n sub = drop (n + 4) xs" "n + 4 \<le> length xs" using 3 app(2) by simp_all
    moreover note "1.IH"(2) [OF c(1) sp [symmetric] refl 3(2) c(2,3) refl refl m [symmetric] refl refl res part]
    ultimately show ?thesis using resumes_drop by metis
  qed
qed

lemma consume_messages_append:
  "consume_messages L U xs c u f d = (u', f', d', int k) \<Longrightarrow>
   \<exists>f0 d0. lp_waits L (f0, d0) (f', d') \<and> c \<le> k \<and> k - c \<le> length xs \<and>
     consume_messages L U (xs @ ys) c u f d = consume_messages L U (drop (k - c) xs @ ys) k u' f0 d0"
  using consume_messages_resumes [of L U xs c u f d u' f' d' k ys] by (auto simp: resumes_def)

end
