(* ===== verification/Stream_Transport.thy ===== *)
theory Stream_Transport
  imports Layers
begin

text \<open>
  \<open>stream_transport\<close> (\<open>caf/net/stream_transport.hpp\<close>): reads from and writes to a stream socket on
  behalf of an upper layer. The parent, a \<open>socket_manager\<close>, is a record of operations on a state
  \<open>'p\<close>. The socket calls \<open>read\<close>, \<open>write\<close>, \<open>nodelay\<close> and \<open>send_buffer_size\<close> are operations on
  the same state, because their results come from the operating system. Accesses outside of the read
  buffer, which are undefined in C++, are the outcome \<open>Out_of_bounds\<close>.
\<close>

section \<open>The parent and the socket\<close>

record 'p io_parent =
  register_reading :: "'p \<Rightarrow> 'p"
  register_writing :: "'p \<Rightarrow> 'p"
  parent_set_abort_reason :: "caf_error \<Rightarrow> 'p \<Rightarrow> 'p"
  parent_abort_reason :: "'p \<Rightarrow> caf_error option"

text \<open>\<open>socket_manager::abort_reason_or\<close>, in terms of the two accessors.\<close>

definition abort_reason_or :: "'p io_parent \<Rightarrow> caf_error \<Rightarrow> 'p \<Rightarrow> 'p \<times> caf_error" where
  "abort_reason_or P e p =
     (case parent_abort_reason P p of Some r \<Rightarrow> (p, r) | None \<Rightarrow> (parent_set_abort_reason P e p, e))"

locale io_parent =
  fixes P :: "'p io_parent"
  assumes reason_set [simp]: "parent_abort_reason P (parent_set_abort_reason P e p) = Some e"
    and reason_reading [simp]: "parent_abort_reason P (register_reading P p) = parent_abort_reason P p"
    and reason_writing [simp]: "parent_abort_reason P (register_writing P p) = parent_abort_reason P p"
begin

lemma abort_reason_or_sets: "parent_abort_reason P (fst (abort_reason_or P e p)) \<noteq> None"
  by (simp add: abort_reason_or_def split: option.split)

lemma abort_reason_or_keeps_first:
  "parent_abort_reason P p = Some r \<Longrightarrow> abort_reason_or P e p = (p, r)"
  by (simp add: abort_reason_or_def)

end

text \<open>The result of \<open>read\<close>: a positive number with the bytes, 0, or a negative number together with
  \<open>last_socket_error_is_temporary()\<close>; likewise for \<open>write\<close>.\<close>

datatype read_result = Read_some "byte list" | Read_closed | Read_failed bool

datatype write_result = Wrote nat | Write_closed | Write_failed bool

record 'p stream_sys =
  sys_read :: "nat \<Rightarrow> 'p \<Rightarrow> 'p \<times> read_result"
  sys_write :: "byte list \<Rightarrow> 'p \<Rightarrow> 'p \<times> write_result"
  sys_nodelay :: "'p \<Rightarrow> 'p \<times> caf_error option"
  sys_send_buffer_size :: "'p \<Rightarrow> 'p \<times> (caf_error + u32)"

section \<open>State\<close>

record stream_transport =
  max_consecutive_reads :: u32
  max_write_buf_size :: u32
  min_read_size :: u32
  max_read_size :: u32
  offset :: int
  delta_offset :: int
  read_buf :: byte_buffer
  write_buf :: byte_buffer

definition stream_transport_new :: stream_transport where
  "stream_transport_new =
     \<lparr>max_consecutive_reads = 0, max_write_buf_size = 0, min_read_size = 0, max_read_size = 0,
      offset = 0, delta_offset = 0, read_buf = [], write_buf = []\<rparr>"

type_synonym 'p transport_stack = "stream_transport \<times> 'p"

section \<open>Interface for stream\_oriented\_layer\_ptr\<close>

definition st_begin_output :: "'p io_parent \<Rightarrow> 'p transport_stack \<Rightarrow> 'p transport_stack" where
  "st_begin_output P = (\<lambda>(t, p). (t, if write_buf t = [] then register_writing P p else p))"

definition st_configure_read ::
  "'p io_parent \<Rightarrow> receive_policy \<Rightarrow> 'p transport_stack \<Rightarrow> 'p transport_stack" where
  "st_configure_read P policy = (\<lambda>(t, p).
     (t\<lparr>min_read_size := min_size policy, max_read_size := max_size policy\<rparr>,
      if max_size policy > 0 \<and> max_read_size t = 0 then register_reading P p else p))"

definition make_stream_oriented_layer_ptr ::
  "'p io_parent \<Rightarrow> 'p transport_stack stream_oriented_layer_ptr" where
  "make_stream_oriented_layer_ptr P =
     \<lparr>can_send_more = (\<lambda>(t, p). length (write_buf t) < unat (max_write_buf_size t)),
      begin_output = st_begin_output P,
      output_buffer = (\<lambda>(t, p). write_buf t),
      write_output = (\<lambda>b (t, p). (t\<lparr>write_buf := b\<rparr>, p)),
      end_output = (\<lambda>d. d),
      set_abort_reason = (\<lambda>e (t, p). (t, parent_set_abort_reason P e p)),
      abort_reason = (\<lambda>(t, p). parent_abort_reason P p),
      configure_read = st_configure_read P\<rparr>"

text \<open>The transport keeps what upper layers rely on, given that its parent does.\<close>

sublocale io_parent \<subseteq> transport: stream_lower "make_stream_oriented_layer_ptr P"
  by unfold_locales
    (auto simp: make_stream_oriented_layer_ptr_def st_begin_output_def st_configure_read_def
      split: prod.splits)

section \<open>Initialization\<close>

text \<open>
  \<open>max_reads\<close> is the value of \<open>caf.middleman.max-consecutive-reads\<close> or its default in CAF;
  \<open>is_tcp\<close> is the \<open>if constexpr\<close> on the socket type.
\<close>

definition st_init ::
  "'p stream_sys \<Rightarrow> ('u, 'p transport_stack) stream_upper \<Rightarrow> u32 \<Rightarrow> bool \<Rightarrow>
   'u \<Rightarrow> stream_transport \<Rightarrow> 'p \<Rightarrow> 'u \<times> 'p transport_stack \<times> caf_error option" where
  "st_init S U max_reads is_tcp u t p =
     (let t1 = t\<lparr>max_consecutive_reads := max_reads\<rparr>;
          (p1, nd) = (if is_tcp then sys_nodelay S p else (p, None))
      in case nd of
           Some err \<Rightarrow> (u, (t1, p1), Some err)
         | None \<Rightarrow>
             (case sys_send_buffer_size S p1 of
                (p2, Inl err) \<Rightarrow> (u, (t1, p2), Some err)
              | (p2, Inr n) \<Rightarrow> su_init U u (t1\<lparr>max_write_buf_size := n\<rparr>, p2)))"

section \<open>Event callbacks\<close>

datatype outcome = Returned bool | Out_of_bounds

definition resize :: "nat \<Rightarrow> byte list \<Rightarrow> byte list" where
  "resize n xs = take n xs @ replicate (n - length xs) 0"

text \<open>Bytes written into a buffer from an index on.\<close>

definition overwrite :: "nat \<Rightarrow> byte list \<Rightarrow> byte list \<Rightarrow> byte list" where
  "overwrite i bs xs = take i xs @ bs @ drop (i + length bs) xs"

text \<open>The lambda \<open>fail\<close> of the event handlers.\<close>

definition st_fail ::
  "'p io_parent \<Rightarrow> ('u, 'p transport_stack) stream_upper \<Rightarrow> sec \<Rightarrow> 'u \<Rightarrow> 'p transport_stack \<Rightarrow>
   'u \<times> 'p transport_stack" where
  "st_fail P U code u = (\<lambda>(t, p).
     let reason = Sec_error code []
     in su_abort U reason u (t, parent_set_abort_reason P reason p))"

definition st_abort_or ::
  "'p io_parent \<Rightarrow> ('u, 'p transport_stack) stream_upper \<Rightarrow> string \<Rightarrow> 'u \<Rightarrow> 'p transport_stack \<Rightarrow>
   'u \<times> 'p transport_stack" where
  "st_abort_or P U msg u = (\<lambda>(t, p).
     let (p', reason) = abort_reason_or P (Sec_error sec_runtime_error msg) p
     in su_abort U reason u (t, p'))"

text \<open>After \<open>consume\<close>: shift unconsumed bytes to the front, then fit the buffer to the thresholds.\<close>

definition st_shift :: "int \<Rightarrow> stream_transport \<Rightarrow> stream_transport" where
  "st_shift consumed t =
     (if consumed > 0
      then t\<lparr>read_buf :=
               (if consumed < offset t
                then overwrite 0 (drop (nat consumed) (take (nat (offset t)) (read_buf t))) (read_buf t)
                else read_buf t),
             offset := offset t - consumed, delta_offset := offset t - consumed\<rparr>
      else t)"

definition st_fit :: "stream_transport \<Rightarrow> stream_transport" where
  "st_fit t =
     (if length (read_buf t) \<noteq> unat (max_read_size t) \<and> offset t < int (unat (max_read_size t))
      then t\<lparr>read_buf := resize (unat (max_read_size t)) (read_buf t)\<rparr> else t)"

text \<open>
  The loop of \<open>handle_read_event\<close>; \<open>n\<close> is \<open>max_consecutive_reads_ - i\<close>, the number of iterations
  left. The bytes \<open>consume\<close> sees in the first branch are \<open>read_buf_[0..max_read_size_)\<close>.
\<close>

fun read_loop ::
  "'p io_parent \<Rightarrow> 'p stream_sys \<Rightarrow> ('u, 'p transport_stack) stream_upper \<Rightarrow> nat \<Rightarrow>
   'u \<Rightarrow> stream_transport \<Rightarrow> 'p \<Rightarrow> 'u \<times> 'p transport_stack \<times> outcome" where
  "read_loop P S U 0 u t p = (u, (t, p), Returned (max_read_size t > 0))"
| "read_loop P S U (Suc n) u t p =
     (let max = unat (max_read_size t) in
      if max = 0 then (u, (t, p), Returned False)
      else if offset t \<ge> int max then
        if length (read_buf t) < max then (u, (t, p), Out_of_bounds)
        else
          let (u', (t', p'), consumed) = su_consume U (take max (read_buf t)) [] u (t, p) in
          if consumed < 0 then
            let (u'', d) = st_abort_or P U [] u' (t', p') in (u'', d, Returned False)
          else if consumed = 0 \<and> max \<ge> unat (max_read_size t') then
            let (u'', d) = st_abort_or P U ''unable to make progress'' u' (t', p')
            in (u'', d, Returned False)
          else read_loop P S U n u' t' p'
      else if offset t < 0 \<or> length (read_buf t) < max then (u, (t, p), Out_of_bounds)
      else
        case sys_read S (max - nat (offset t)) p of
          (p1, Read_some bs) \<Rightarrow>
            let t1 = t\<lparr>read_buf := overwrite (nat (offset t)) bs (read_buf t),
                       offset := offset t + int (length bs)\<rparr> in
            if offset t1 < int (unat (min_read_size t1)) then read_loop P S U n u t1 p1
            else
              let bytes = take (nat (offset t1)) (read_buf t1);
                  (u', (t', p'), consumed) =
                    su_consume U bytes (drop (nat (delta_offset t1)) bytes) u (t1, p1)
              in if consumed < 0 then
                   let (u'', d) = st_abort_or P U ''consumed < 0'' u' (t', p')
                   in (u'', d, Returned False)
                 else
                   read_loop P S U n u' (st_fit (st_shift consumed t')) p'
        | (p1, Read_failed temporary) \<Rightarrow>
            if temporary then (u, (t, p1), Returned True)
            else let (u', d) = st_fail P U sec_socket_operation_failed u (t, p1)
                 in (u', d, Returned False)
        | (p1, Read_closed) \<Rightarrow>
            let (u', d) = st_fail P U sec_socket_disconnected u (t, p1) in (u', d, Returned False))"

definition st_handle_read_event ::
  "'p io_parent \<Rightarrow> 'p stream_sys \<Rightarrow> ('u, 'p transport_stack) stream_upper \<Rightarrow>
   'u \<Rightarrow> stream_transport \<Rightarrow> 'p \<Rightarrow> 'u \<times> 'p transport_stack \<times> outcome" where
  "st_handle_read_event P S U u t p =
     (let t1 = (if length (read_buf t) < unat (max_read_size t)
                then t\<lparr>read_buf := resize (unat (max_read_size t)) (read_buf t)\<rparr> else t)
      in read_loop P S U (unat (max_consecutive_reads t1)) u t1 p)"

definition st_handle_write_event ::
  "'p io_parent \<Rightarrow> 'p stream_sys \<Rightarrow> ('u, 'p transport_stack) stream_upper \<Rightarrow>
   'u \<Rightarrow> stream_transport \<Rightarrow> 'p \<Rightarrow> 'u \<times> 'p transport_stack \<times> bool" where
  "st_handle_write_event P S U u t p =
     (let (u1, (t1, p1), ready) = su_prepare_send U u (t, p) in
      if \<not> ready then
        let (u2, d) = st_abort_or P U ''prepare_send failed'' u1 (t1, p1) in (u2, d, False)
      else if write_buf t1 = [] then
        let (u2, d, done) = su_done_sending U u1 (t1, p1) in (u2, d, \<not> done)
      else
        case sys_write S (write_buf t1) p1 of
          (p2, Wrote n) \<Rightarrow>
            let t2 = t1\<lparr>write_buf := drop n (write_buf t1)\<rparr> in
            if write_buf t2 \<noteq> [] then (u1, (t2, p2), True)
            else let (u2, d, done) = su_done_sending U u1 (t2, p2) in (u2, d, \<not> done)
        | (p2, Write_failed temporary) \<Rightarrow>
            if temporary then (u1, (t1, p2), True)
            else let (u2, d) = st_fail P U sec_socket_operation_failed u1 (t1, p2) in (u2, d, False)
        | (p2, Write_closed) \<Rightarrow>
            let (u2, d) = st_fail P U sec_socket_disconnected u1 (t1, p2) in (u2, d, False))"

definition st_abort ::
  "('u, 'p transport_stack) stream_upper \<Rightarrow> caf_error \<Rightarrow> 'u \<Rightarrow> 'p transport_stack \<Rightarrow>
   'u \<times> 'p transport_stack" where
  "st_abort U reason u d = su_abort U reason u d"

section \<open>Integrity of the received stream\<close>

text \<open>The received bytes that the upper layer has not consumed yet.\<close>

definition pending_input :: "stream_transport \<Rightarrow> byte list" where
  "pending_input t = take (nat (offset t)) (read_buf t)"

definition reader_inv :: "stream_transport \<Rightarrow> bool" where
  "reader_inv t \<longleftrightarrow>
     0 \<le> delta_offset t \<and> delta_offset t \<le> offset t \<and> offset t \<le> int (length (read_buf t)) \<and>
     (max_read_size t = 0 \<or>
      offset t < int (unat (max_read_size t)) \<and> min_read_size t \<le> max_read_size t)"

text \<open>
  What an upper layer has to do: it reports at most the bytes it was given as consumed and asks for more
  than the bytes it leaves in the buffer, with a minimum not above the maximum, unless it stops reading.
  The private members of the transport and the bytes received so far (the ghost \<open>recvd\<close>) are out of its
  reach. The relation \<open>ok u xs ys lo hi\<close> is its invariant: \<open>u\<close> is its state after it has consumed \<open>xs\<close> and
  left \<open>ys\<close> in the buffer, with a receive policy between \<open>lo\<close> and \<open>hi\<close> bytes. It never gets more than \<open>hi\<close> bytes.
\<close>

definition same_input :: "stream_transport \<Rightarrow> stream_transport \<Rightarrow> bool" where
  "same_input t t' \<longleftrightarrow>
     read_buf t' = read_buf t \<and> offset t' = offset t \<and> delta_offset t' = delta_offset t \<and>
     max_consecutive_reads t' = max_consecutive_reads t"

locale stream_consumer =
  fixes U :: "('u, 'p transport_stack) stream_upper"
    and recvd :: "'p \<Rightarrow> byte list"
    and ok :: "'u \<Rightarrow> byte list \<Rightarrow> byte list \<Rightarrow> u32 \<Rightarrow> u32 \<Rightarrow> bool"
  assumes ok_wait: "ok u xs ys lo hi \<Longrightarrow> length (ys @ bs) < unat lo \<Longrightarrow> ok u xs (ys @ bs) lo hi"
    and consume_keeps: "ok u xs ys (min_read_size t) (max_read_size t) \<Longrightarrow> length (ys @ bs) \<le> unat (max_read_size t) \<Longrightarrow>
      su_consume U (ys @ bs) delta u (t, p) = (u', (t', p'), k) \<Longrightarrow> same_input t t' \<and> recvd p' = recvd p"
    and consume_le: "ok u xs ys (min_read_size t) (max_read_size t) \<Longrightarrow> length (ys @ bs) \<le> unat (max_read_size t) \<Longrightarrow>
      su_consume U (ys @ bs) delta u (t, p) = (u', (t', p'), k) \<Longrightarrow> 0 \<le> k \<Longrightarrow> k \<le> int (length (ys @ bs))"
    and consume_ok: "ok u xs ys (min_read_size t) (max_read_size t) \<Longrightarrow> length (ys @ bs) \<le> unat (max_read_size t) \<Longrightarrow>
      su_consume U (ys @ bs) delta u (t, p) = (u', (t', p'), k) \<Longrightarrow> 0 \<le> k \<Longrightarrow>
      ok u' (xs @ take (nat k) (ys @ bs)) (drop (nat k) (ys @ bs)) (min_read_size t') (max_read_size t')"
    and consume_room: "ok u xs ys (min_read_size t) (max_read_size t) \<Longrightarrow> length (ys @ bs) \<le> unat (max_read_size t) \<Longrightarrow>
      su_consume U (ys @ bs) delta u (t, p) = (u', (t', p'), k) \<Longrightarrow> 0 \<le> k \<Longrightarrow>
      max_read_size t' = 0 \<or>
      int (length (ys @ bs)) - k < int (unat (max_read_size t')) \<and> min_read_size t' \<le> max_read_size t'"

text \<open>\<open>recv\<close>: at least one and at most the requested number of bytes, the next ones of the stream.\<close>

definition reads_well :: "'p stream_sys \<Rightarrow> ('p \<Rightarrow> byte list) \<Rightarrow> bool" where
  "reads_well S recvd \<longleftrightarrow>
     (\<forall>n p. case sys_read S n p of
        (p', Read_some bs) \<Rightarrow> bs \<noteq> [] \<and> length bs \<le> n \<and> recvd p' = recvd p @ bs
      | (p', _) \<Rightarrow> recvd p' = recvd p)"

lemma reads_well_case:
  assumes "reads_well S recvd"
  shows "case sys_read S n p of
        (p', Read_some bs) \<Rightarrow> bs \<noteq> [] \<and> length bs \<le> n \<and> recvd p' = recvd p @ bs
      | (p', _) \<Rightarrow> recvd p' = recvd p"
  using assms unfolding reads_well_def by (elim allE)

lemma reads_wellD:
  assumes "reads_well S recvd" and "sys_read S n p = (p', Read_some bs)"
  shows "bs \<noteq> []" "length bs \<le> n" "recvd p' = recvd p @ bs"
  using reads_well_case [OF assms(1), of n p] assms(2) by simp_all

lemma reads_well_none:
  assumes "reads_well S recvd" and "sys_read S n p = (p', r)" and "\<And>bs. r \<noteq> Read_some bs"
  shows "recvd p' = recvd p"
proof (cases r)
  case (Read_some bs)
  with assms(3) show ?thesis by blast
qed (use reads_well_case [OF assms(1), of n p] assms(2) in simp_all)

lemma length_resize [simp]: "length (resize n xs) = n"
  by (simp add: resize_def)

lemma take_resize: "i \<le> length xs \<Longrightarrow> i \<le> n \<Longrightarrow> take i (resize n xs) = take i xs"
  by (simp add: resize_def)

lemma length_overwrite: "i + length bs \<le> length xs \<Longrightarrow> length (overwrite i bs xs) = length xs"
  by (simp add: overwrite_def)

lemma take_overwrite: "i + length bs \<le> length xs \<Longrightarrow> take (i + length bs) (overwrite i bs xs) = take i xs @ bs"
  by (simp add: overwrite_def)

text \<open>
  What one call keeps: the input is intact, or the upper layer has been told to abort and no further
  read event is wanted.
\<close>

definition input_intact ::
  "('u, 'p transport_stack) stream_upper \<Rightarrow> ('p \<Rightarrow> byte list) \<Rightarrow>
   ('u \<Rightarrow> byte list \<Rightarrow> byte list \<Rightarrow> u32 \<Rightarrow> u32 \<Rightarrow> bool) \<Rightarrow> 'u \<times> 'p transport_stack \<times> outcome \<Rightarrow> bool" where
  "input_intact U recvd ok = (\<lambda>(u, (t, p), out).
     out \<noteq> Out_of_bounds \<and>
     (reader_inv t \<and>
        (\<exists>xs. ok u xs (pending_input t) (min_read_size t) (max_read_size t) \<and> recvd p = xs @ pending_input t) \<or>
      out = Returned False \<and> (\<exists>reason u0 d0. su_abort U reason u0 d0 = (u, (t, p)))))"

lemma intact_fail:
  "input_intact U recvd ok (let (u', d) = st_fail P U code u (t, p) in (u', d, Returned False))"
  by (auto simp: input_intact_def st_fail_def Let_def split: prod.splits)

lemma intact_abort_or:
  "input_intact U recvd ok (let (u', d) = st_abort_or P U msg u (t, p) in (u', d, Returned False))"
  by (auto simp: input_intact_def st_abort_or_def Let_def split: prod.splits)

lemma st_shift_pending:
  assumes "0 \<le> k" "k \<le> offset t" "offset t \<le> int (length (read_buf t))"
  shows "pending_input (st_shift k t) = drop (nat k) (pending_input t)"
    and "length (read_buf (st_shift k t)) = length (read_buf t)"
    and "offset (st_shift k t) = offset t - k"
    and "max_read_size (st_shift k t) = max_read_size t"
    and "min_read_size (st_shift k t) = min_read_size t"
    and "delta_offset (st_shift k t) = (if 0 < k then offset t - k else delta_offset t)"
proof -
  let ?rest = "drop (nat k) (take (nat (offset t)) (read_buf t))"
  have len: "length ?rest = nat (offset t - k)"
    using assms by (simp add: nat_diff_distrib)
  then have "take (nat (offset t - k)) (overwrite 0 ?rest (read_buf t)) = ?rest"
    by (simp add: overwrite_def)
  then show "pending_input (st_shift k t) = drop (nat k) (pending_input t)"
    using assms by (auto simp: st_shift_def pending_input_def)
  show "length (read_buf (st_shift k t)) = length (read_buf t)"
    using assms len by (simp add: st_shift_def length_overwrite)
  show "offset (st_shift k t) = offset t - k"
    using assms by (simp add: st_shift_def)
qed (simp_all add: st_shift_def)

lemma st_fit_keeps:
  assumes "offset t \<le> int (length (read_buf t))"
  shows "pending_input (st_fit t) = pending_input t" "offset (st_fit t) = offset t"
    "delta_offset (st_fit t) = delta_offset t" "max_read_size (st_fit t) = max_read_size t"
    "min_read_size (st_fit t) = min_read_size t"
    "offset (st_fit t) \<le> int (length (read_buf (st_fit t)))"
    "offset t < int (unat (max_read_size t)) \<Longrightarrow>
     length (read_buf (st_fit t)) = unat (max_read_size t)"
proof -
  have "nat (offset t) \<le> unat (max_read_size t)" if "offset t < int (unat (max_read_size t))"
    using that by linarith
  moreover have "nat (offset t) \<le> length (read_buf t)" using assms by linarith
  ultimately show "pending_input (st_fit t) = pending_input t"
    by (simp add: st_fit_def pending_input_def take_resize del: of_nat_unat)
qed (use assms in \<open>auto simp: st_fit_def\<close>)

text \<open>An iteration on a consistent state always reads from the socket.\<close>

lemma read_loop_reads:
  assumes inv: "reader_inv t" and space: "length (read_buf t) \<ge> unat (max_read_size t)" "max_read_size t \<noteq> 0"
    and r: "sys_read S (unat (max_read_size t) - nat (offset t)) p = (p1, r)"
  shows "read_loop P S U (Suc n) u t p =
    (case r of
       Read_some bs \<Rightarrow>
         let t1 = t\<lparr>read_buf := overwrite (nat (offset t)) bs (read_buf t), offset := offset t + int (length bs)\<rparr> in
         if offset t1 < int (unat (min_read_size t1)) then read_loop P S U n u t1 p1
         else
           let bytes = take (nat (offset t1)) (read_buf t1);
               (u', (t', p'), k) = su_consume U bytes (drop (nat (delta_offset t1)) bytes) u (t1, p1)
           in if k < 0 then
                let (u'', d) = st_abort_or P U ''consumed < 0'' u' (t', p') in (u'', d, Returned False)
              else read_loop P S U n u' (st_fit (st_shift k t')) p'
     | Read_failed temporary \<Rightarrow>
         if temporary then (u, (t, p1), Returned True)
         else let (u', d) = st_fail P U sec_socket_operation_failed u (t, p1) in (u', d, Returned False)
     | Read_closed \<Rightarrow> let (u', d) = st_fail P U sec_socket_disconnected u (t, p1) in (u', d, Returned False))"
proof -
  have m0: "unat (max_read_size t) \<noteq> 0" using space(2) by (simp add: unat_eq_0)
  have o: "\<not> offset t \<ge> int (unat (max_read_size t))" "0 \<le> offset t"
    using inv space(2) by (auto simp: reader_inv_def)
  have nb: "\<not> (offset t < 0 \<or> length (read_buf t) < unat (max_read_size t))" using space o by linarith
  show ?thesis by (cases r) (simp_all only: read_loop.simps Let_def m0 if_False o nb r prod.case read_result.case)
qed

text \<open>A state of the transport and the upper layer in which all received bytes are accounted for.\<close>

context stream_consumer
begin

definition in_step :: "'u \<Rightarrow> byte list \<Rightarrow> stream_transport \<Rightarrow> 'p \<Rightarrow> bool" where
  "in_step u xs t p \<longleftrightarrow>
     reader_inv t \<and> (max_read_size t \<noteq> 0 \<longrightarrow> unat (max_read_size t) \<le> length (read_buf t)) \<and>
     ok u xs (pending_input t) (min_read_size t) (max_read_size t) \<and> recvd p = xs @ pending_input t"

text \<open>Bytes that arrive are appended to the pending ones.\<close>

lemma arrived:
  assumes st: "in_step u xs t p" and hi: "max_read_size t \<noteq> 0"
    and bs: "length bs \<le> unat (max_read_size t) - nat (offset t)"
    and t1: "t1 = t\<lparr>read_buf := overwrite (nat (offset t)) bs (read_buf t), offset := offset t + int (length bs)\<rparr>"
  shows "pending_input t1 = pending_input t @ bs" "offset t1 = int (length (pending_input t @ bs))"
    "length (read_buf t1) = length (read_buf t)" "nat (offset t1) \<le> length (read_buf t1)"
proof -
  have o: "0 \<le> offset t" "offset t < int (unat (max_read_size t))" "unat (max_read_size t) \<le> length (read_buf t)"
    using st hi by (auto simp: in_step_def reader_inv_def)
  then have off: "nat (offset t) + length bs \<le> length (read_buf t)" using bs by linarith
  show "pending_input t1 = pending_input t @ bs"
    using o(1) take_overwrite [OF off] by (simp add: t1 pending_input_def nat_add_distrib)
  show "offset t1 = int (length (pending_input t @ bs))"
    using o off by (simp add: t1 pending_input_def)
  show "length (read_buf t1) = length (read_buf t)" using off by (simp add: t1 length_overwrite)
  then show "nat (offset t1) \<le> length (read_buf t1)" using off o(1) by (simp add: t1 nat_add_distrib)
qed

lemma arrived_room:
  assumes st: "in_step u xs t p" and hi: "max_read_size t \<noteq> 0"
    and bs: "length bs \<le> unat (max_read_size t) - nat (offset t)"
    and t1: "t1 = t\<lparr>read_buf := overwrite (nat (offset t)) bs (read_buf t), offset := offset t + int (length bs)\<rparr>"
  shows "length (pending_input t @ bs) \<le> unat (max_read_size t1)"
proof -
  have "0 \<le> offset t" "offset t < int (unat (max_read_size t))" using st hi by (auto simp: in_step_def reader_inv_def)
  moreover have "offset t + int (length bs) = int (length (pending_input t @ bs))"
    using arrived(2) [OF st hi bs t1] by (simp add: t1)
  moreover have m: "max_read_size t1 = max_read_size t" by (simp add: t1)
  ultimately show ?thesis using bs unfolding m by linarith
qed

text \<open>One iteration that reads too few bytes for the upper layer.\<close>

lemma in_step_wait:
  assumes st: "in_step u xs t p" and hi: "max_read_size t \<noteq> 0"
    and bs: "length bs \<le> unat (max_read_size t) - nat (offset t)" and p: "recvd p1 = recvd p @ bs"
    and t1: "t1 = t\<lparr>read_buf := overwrite (nat (offset t)) bs (read_buf t), offset := offset t + int (length bs)\<rparr>"
    and wait: "offset t1 < int (unat (min_read_size t1))"
  shows "in_step u xs t1 p1"
proof -
  note ar = arrived [OF st hi bs t1]
  have sizes: "min_read_size t1 = min_read_size t" "max_read_size t1 = max_read_size t" by (simp_all add: t1)
  have le: "min_read_size t \<le> max_read_size t" using st hi by (simp add: in_step_def reader_inv_def)
  have "length (pending_input t @ bs) < unat (min_read_size t)" using wait unfolding ar(2) sizes by linarith
  then have "ok u xs (pending_input t1) (min_read_size t1) (max_read_size t1)"
    unfolding ar(1) sizes using st ok_wait by (simp only: in_step_def)
  moreover have "reader_inv t1"
    using st ar(2,4) wait le unfolding in_step_def reader_inv_def sizes
    by (auto simp: t1 word_le_nat_alt simp del: of_nat_unat)
  ultimately show ?thesis using st p ar(1,3) by (simp add: in_step_def sizes)
qed

text \<open>One iteration that reads bytes and hands them to the upper layer.\<close>

lemma in_step_consume:
  assumes st: "in_step u xs t p" and hi: "max_read_size t \<noteq> 0"
    and bs: "length bs \<le> unat (max_read_size t) - nat (offset t)" and p: "recvd p1 = recvd p @ bs"
    and t1: "t1 = t\<lparr>read_buf := overwrite (nat (offset t)) bs (read_buf t), offset := offset t + int (length bs)\<rparr>"
    and call: "su_consume U (take (nat (offset t1)) (read_buf t1)) delta u (t1, p1) = (u', (t', p'), k)" and k: "0 \<le> k"
  shows "in_step u' (xs @ take (nat k) (pending_input t @ bs)) (st_fit (st_shift k t')) p'"
proof -
  note ar = arrived [OF st hi bs t1]
  let ?bytes = "pending_input t @ bs"
  have b: "take (nat (offset t1)) (read_buf t1) = ?bytes" using ar(1) by (simp only: pending_input_def)
  have inv: "ok u xs (pending_input t) (min_read_size t1) (max_read_size t1)" using st by (simp add: in_step_def t1)
  have room: "length ?bytes \<le> unat (max_read_size t1)" by (rule arrived_room [OF st hi bs t1])
  note c = consume_keeps [OF inv room call [unfolded b]] consume_le [OF inv room call [unfolded b] k]
    consume_ok [OF inv room call [unfolded b] k] consume_room [OF inv room call [unfolded b] k]
  have t1': "read_buf t' = read_buf t1" "offset t' = int (length ?bytes)" "delta_offset t' = delta_offset t"
    using c(1) ar(2) by (simp_all add: same_input_def t1)
  have fits: "offset t' \<le> int (length (read_buf t'))" and kle: "k \<le> offset t'"
    using ar(2,4) t1' c(2) by simp_all
  note sh = st_shift_pending [OF k kle fits]
  have fits2: "offset (st_shift k t') \<le> int (length (read_buf (st_shift k t')))" using sh fits k by simp
  note ft = st_fit_keeps [OF fits2]
  have pend: "pending_input (st_fit (st_shift k t')) = drop (nat k) ?bytes"
    using ft(1) sh(1) t1' ar(1,2) by (simp add: pending_input_def)
  have "0 \<le> delta_offset t" "delta_offset t \<le> offset t" using st by (simp_all add: in_step_def reader_inv_def)
  then have d: "0 \<le> delta_offset t'" "delta_offset t' \<le> offset t'" using t1'(3) ar(2) t1'(2) by (simp_all add: t1)
  have "reader_inv (st_fit (st_shift k t'))"
    using c(4) ft sh kle k t1' d unfolding reader_inv_def by auto
  moreover have "max_read_size (st_fit (st_shift k t')) \<noteq> 0 \<longrightarrow>
      unat (max_read_size (st_fit (st_shift k t'))) \<le> length (read_buf (st_fit (st_shift k t')))"
    using c(4) ft sh t1' by auto
  moreover have "recvd p' = xs @ ?bytes" using c(1) p st by (simp add: in_step_def)
  then have "recvd p' = (xs @ take (nat k) ?bytes) @ drop (nat k) ?bytes"
    by (simp only: append.assoc append_take_drop_id)
  ultimately show ?thesis using c(3) unfolding in_step_def pend ft(4,5) sh(4,5) by simp
qed

lemma in_step_intact: "in_step u xs t p \<Longrightarrow> input_intact U recvd ok (u, (t, p), Returned b)"
  by (auto simp: in_step_def input_intact_def)

lemma read_loop_intact:
  assumes S: "reads_well S recvd"
  shows "in_step u xs t p \<Longrightarrow> input_intact U recvd ok (read_loop P S U n u t p)"
proof (induction n arbitrary: u xs t p)
  case 0
  then show ?case using in_step_intact by simp
next
  case (Suc n)
  show ?case
  proof (cases "max_read_size t = 0")
    case True
    then show ?thesis using in_step_intact [OF Suc.prems] by simp
  next
    case False
    obtain p1 r where r: "sys_read S (unat (max_read_size t) - nat (offset t)) p = (p1, r)"
      by (cases "sys_read S (unat (max_read_size t) - nat (offset t)) p")
    have inv: "reader_inv t" and space: "unat (max_read_size t) \<le> length (read_buf t)"
      using Suc.prems False by (simp_all add: in_step_def)
    note eq = read_loop_reads [OF inv space False r, of P U n u]
    show ?thesis
    proof (cases r)
      case (Read_some bs)
      note bs = reads_wellD [OF S r [unfolded Read_some]]
      let ?t1 = "t\<lparr>read_buf := overwrite (nat (offset t)) bs (read_buf t), offset := offset t + int (length bs)\<rparr>"
      let ?bytes = "take (nat (offset ?t1)) (read_buf ?t1)"
      obtain u' t' p' k
        where call: "su_consume U ?bytes (drop (nat (delta_offset ?t1)) ?bytes) u (?t1, p1) = (u', (t', p'), k)"
        by (metis surj_pair)
      note eq = eq [unfolded Read_some read_result.case Let_def, unfolded call prod.case]
      note wait = in_step_wait [OF Suc.prems False bs(2,3) refl]
      note full = in_step_consume [OF Suc.prems False bs(2,3) refl call]
      show ?thesis
      proof (cases "offset ?t1 < int (unat (min_read_size ?t1))")
        case True
        then show ?thesis unfolding eq by (simp only: if_True) (rule Suc.IH [OF wait])
      next
        case False
        have "input_intact U recvd ok (read_loop P S U n u' (st_fit (st_shift k t')) p')" if "\<not> k < 0"
          by (rule Suc.IH [OF full]) (use that in simp)
        then show ?thesis unfolding eq if_not_P [OF False]
          by (cases "k < 0") (simp_all only: if_True if_False not_False_eq_True intact_abort_or [unfolded Let_def])
      qed
    next
      case Read_closed
      then show ?thesis unfolding eq by (simp only: read_result.case intact_fail)
    next
      case (Read_failed temporary)
      then have "in_step u xs t p1"
        using Suc.prems reads_well_none [OF S r] by (simp add: in_step_def)
      then show ?thesis
        unfolding eq Read_failed
        by (cases temporary) (simp_all only: read_result.case if_True if_False intact_fail in_step_intact)
    qed
  qed
qed

lemma handle_read_event_intact:
  assumes "reads_well S recvd" and "reader_inv t"
    and "ok u xs (pending_input t) (min_read_size t) (max_read_size t)" and "recvd p = xs @ pending_input t"
  shows "input_intact U recvd ok (st_handle_read_event P S U u t p)"
proof -
  let ?t = "if length (read_buf t) < unat (max_read_size t)
            then t\<lparr>read_buf := resize (unat (max_read_size t)) (read_buf t)\<rparr> else t"
  have "reader_inv ?t" "pending_input ?t = pending_input t"
    using assms(2) by (auto simp: reader_inv_def pending_input_def take_resize)
  then have "in_step u xs ?t p" using assms(3,4) by (simp add: in_step_def)
  from read_loop_intact [OF assms(1) this] show ?thesis
    by (simp only: st_handle_read_event_def Let_def)
qed

end

section \<open>Integrity of the sent stream\<close>

text \<open>
  \<open>send\<close> transmits a non-empty prefix. Upper layers only append to the output buffer; \<open>sent\<close> is the
  ghost of all bytes handed to the socket.
\<close>

definition writes_well :: "'p stream_sys \<Rightarrow> ('p \<Rightarrow> byte list) \<Rightarrow> bool" where
  "writes_well S sent \<longleftrightarrow>
     (\<forall>bs p. case sys_write S bs p of
        (p', Wrote n) \<Rightarrow> 0 < n \<and> n \<le> length bs \<and> sent p' = sent p @ take n bs
      | (p', _) \<Rightarrow> sent p' = sent p)"

definition only_appends :: "('p \<Rightarrow> byte list) \<Rightarrow> 'p transport_stack \<Rightarrow> 'p transport_stack \<Rightarrow> bool" where
  "only_appends sent d d' \<longleftrightarrow>
     sent (snd d') = sent (snd d) \<and>
     take (length (write_buf (fst d))) (write_buf (fst d')) = write_buf (fst d)"

definition upper_appends ::
  "('u, 'p transport_stack) stream_upper \<Rightarrow> ('p \<Rightarrow> byte list) \<Rightarrow> bool" where
  "upper_appends U sent \<longleftrightarrow>
     (\<forall>u d. only_appends sent d (fst (snd (su_prepare_send U u d))) \<and>
            only_appends sent d (fst (snd (su_done_sending U u d)))) \<and>
     (\<forall>e u d. only_appends sent d (snd (su_abort U e u d)))"

text \<open>All bytes that were ever handed to the transport for sending.\<close>

definition output_stream :: "('p \<Rightarrow> byte list) \<Rightarrow> 'p transport_stack \<Rightarrow> byte list" where
  "output_stream sent = (\<lambda>(t, p). sent p @ write_buf t)"

definition extends :: "byte list \<Rightarrow> byte list \<Rightarrow> bool" where
  "extends xs ys \<longleftrightarrow> take (length xs) ys = xs"

lemma extends_refl [simp]: "extends xs xs"
  by (simp add: extends_def)

lemma extends_iff: "extends xs ys \<longleftrightarrow> (\<exists>zs. ys = xs @ zs)"
  unfolding extends_def by (metis append_eq_conv_conj)

lemma extends_trans: "extends xs ys \<Longrightarrow> extends ys zs \<Longrightarrow> extends xs zs"
  by (auto simp: extends_iff)

lemma only_appends_extends:
  "only_appends sent d d' \<Longrightarrow> extends (output_stream sent d) (output_stream sent d')"
  by (cases d; cases d')
    (auto simp: only_appends_def output_stream_def extends_iff, metis append_take_drop_id)

lemma writes_well_case:
  assumes "writes_well S sent"
  shows "case sys_write S bs p of
        (p', Wrote n) \<Rightarrow> 0 < n \<and> n \<le> length bs \<and> sent p' = sent p @ take n bs
      | (p', _) \<Rightarrow> sent p' = sent p"
  using assms unfolding writes_well_def by (elim allE)

text \<open>Telling the upper layer about an error does not touch the output either.\<close>

lemma fail_extends:
  assumes U: "upper_appends U sent" and reason: "\<And>e q. sent (parent_set_abort_reason P e q) = sent q"
  shows "extends (output_stream sent (t, p)) (output_stream sent (snd (st_fail P U code u (t, p))))"
    and "extends (output_stream sent (t, p)) (output_stream sent (snd (st_abort_or P U msg u (t, p))))"
proof -
  have ab: "extends (output_stream sent (t, q)) (output_stream sent (snd (su_abort U e u (t, q))))" for q e
    using U unfolding upper_appends_def by (blast intro: only_appends_extends)
  show "extends (output_stream sent (t, p)) (output_stream sent (snd (st_fail P U code u (t, p))))"
    using ab [of "parent_set_abort_reason P (Sec_error code []) p"]
    by (simp add: st_fail_def output_stream_def reason Let_def)
  show "extends (output_stream sent (t, p)) (output_stream sent (snd (st_abort_or P U msg u (t, p))))"
    using ab [of "fst (abort_reason_or P (Sec_error sec_runtime_error msg) p)"]
    by (cases "parent_abort_reason P p")
      (simp_all add: st_abort_or_def output_stream_def abort_reason_or_def reason)
qed

lemma handle_write_event_extends:
  assumes U: "upper_appends U sent" and S: "writes_well S sent"
    and reason: "\<And>e q. sent (parent_set_abort_reason P e q) = sent q"
    and call: "st_handle_write_event P S U u t p = (u', d', again)"
  shows "extends (output_stream sent (t, p)) (output_stream sent d')"
proof -
  obtain u1 t1 p1 ready where prep: "su_prepare_send U u (t, p) = (u1, (t1, p1), ready)"
    by (metis surj_pair)
  have 1: "extends (output_stream sent (t, p)) (output_stream sent (t1, p1))"
    using U prep unfolding upper_appends_def by (metis fst_conv only_appends_extends snd_conv)
  have dn: "extends (output_stream sent (ta, pa)) (output_stream sent (fst (snd (su_done_sending U ua (ta, pa)))))"
    for ta pa ua using U unfolding upper_appends_def by (blast intro: only_appends_extends)
  note fail = fail_extends(1) [OF U reason] and abort_or = fail_extends(2) [OF U reason]
  obtain p2 w where w: "sys_write S (write_buf t1) p1 = (p2, w)" by (cases "sys_write S (write_buf t1) p1")
  let ?left = "case w of Wrote n \<Rightarrow> t1\<lparr>write_buf := drop n (write_buf t1)\<rparr> | _ \<Rightarrow> t1"
  have eq: "output_stream sent (?left, p2) = output_stream sent (t1, p1)"
    using writes_well_case [OF S, of "write_buf t1" p1] w by (cases w) (simp_all add: output_stream_def)
  have "extends (output_stream sent (t1, p1)) (output_stream sent d')"
  proof (cases "ready \<and> write_buf t1 \<noteq> []")
    case False
    then show ?thesis
      using call prep abort_or [of t1 p1 "''prepare_send failed''" u1] dn [of t1 p1 u1]
      by (auto simp: st_handle_write_event_def split: prod.splits if_splits)
  next
    case True
    then have "extends (output_stream sent (?left, p2)) (output_stream sent d')"
      using call prep w dn [of ?left p2 u1] fail [of t1 p2 sec_socket_disconnected u1]
        fail [of t1 p2 sec_socket_operation_failed u1]
      by (cases w) (auto simp: st_handle_write_event_def Let_def split: prod.splits if_splits)
    then show ?thesis by (simp only: eq)
  qed
  with 1 show ?thesis by (rule extends_trans)
qed

section \<open>A concrete connection\<close>

text \<open>
  A connection for witnesses: the chunks that \<open>recv\<close> will return one after the other (would-block
  after the last one), the bytes received and sent so far and the abort reason. The socket accepts up
  to four bytes per \<open>send\<close>.
\<close>

record connection =
  chunks :: "byte list list"
  received :: "byte list"
  transmitted :: "byte list"
  reason :: "caf_error option"

definition connection_parent :: "connection io_parent" where
  "connection_parent =
     \<lparr>register_reading = (\<lambda>c. c), register_writing = (\<lambda>c. c),
      parent_set_abort_reason = (\<lambda>e c. c\<lparr>reason := Some e\<rparr>), parent_abort_reason = reason\<rparr>"

definition connection_sys :: "connection stream_sys" where
  "connection_sys =
     \<lparr>sys_read = (\<lambda>n c. case chunks c of
          [] \<Rightarrow> (c, Read_failed True)
        | b # bs \<Rightarrow>
            if b = [] \<or> n = 0 then (c, Read_closed)
            else (c\<lparr>chunks := (if n < length b then drop n b # bs else bs),
                    received := received c @ take n b\<rparr>, Read_some (take n b))),
      sys_write = (\<lambda>bs c. if bs = [] then (c, Write_closed)
                          else (c\<lparr>transmitted := transmitted c @ take 4 bs\<rparr>, Wrote (min 4 (length bs)))),
      sys_nodelay = (\<lambda>c. (c, None)),
      sys_send_buffer_size = (\<lambda>c. (c, Inr 1024))\<rparr>"

lemma connection_reads_well: "reads_well connection_sys received"
  by (auto simp: reads_well_def connection_sys_def split: list.splits)

lemma connection_writes_well: "writes_well connection_sys transmitted"
  by (auto simp: writes_well_def connection_sys_def min_def)

text \<open>An upper layer that takes every second byte away, wants at least one more, and echoes.\<close>

definition halving_upper :: "'p io_parent \<Rightarrow> (byte list, 'p transport_stack) stream_upper" where
  "halving_upper P =
     \<lparr>su_init = (\<lambda>u d. (u, d, None)),
      su_prepare_send = (\<lambda>u d. (u, d, True)),
      su_done_sending = (\<lambda>u d. (u, d, True)),
      su_abort = (\<lambda>e u d. (u, d)),
      su_consume = (\<lambda>bytes delta u d.
         let k = (length bytes + 1) div 2
         in (u @ take k bytes,
             configure_read (make_stream_oriented_layer_ptr P) (policy_up_to 4294967295) d,
             if length bytes < 4294967295 then int k else -1))\<rparr>"

lemma halving_consumer: "stream_consumer (halving_upper connection_parent) received (\<lambda>u xs ys lo hi. u = xs)"
  by unfold_locales
    (auto simp: halving_upper_def make_stream_oriented_layer_ptr_def same_input_def
      st_configure_read_def policy_up_to_def connection_parent_def Let_def split: if_splits)

lemma halving_appends: "upper_appends (halving_upper P) sent"
  by (simp add: upper_appends_def halving_upper_def only_appends_def)

definition idle_transport :: "u32 \<Rightarrow> u32 \<Rightarrow> u32 \<Rightarrow> stream_transport" where
  "idle_transport reads lo hi =
     stream_transport_new\<lparr>max_consecutive_reads := reads, min_read_size := lo, max_read_size := hi\<rparr>"

definition fresh_connection :: "byte list list \<Rightarrow> connection" where
  "fresh_connection bs = \<lparr>chunks = bs, received = [], transmitted = [], reason = None\<rparr>"

lemma idle_transport_inv:
  "0 < hi \<Longrightarrow> lo \<le> hi \<Longrightarrow> reader_inv (idle_transport reads lo hi)"
  "pending_input (idle_transport reads lo hi) = []"
  by (simp_all add: idle_transport_def stream_transport_new_def reader_inv_def pending_input_def
      word_less_nat_alt del: of_nat_unat)

section \<open>Properties of the transport\<close>

text \<open>
  C3: No byte of the received stream is lost, duplicated or reordered between the socket and the upper
  layer, and no access leaves the read buffer: after a read event, the bytes received so far are those
  the upper layer has consumed followed by the ones pending in the read buffer, unless the upper layer
  was told to abort. This holds for every upper layer that asks for more data than it leaves
  unconsumed, and for every behaviour of the socket that \<open>recv\<close> permits.
\<close>

theorem read_event_keeps_stream:
  assumes "stream_consumer U recvd ok" and "reads_well S recvd" and "reader_inv t"
    and "ok u xs (pending_input t) (min_read_size t) (max_read_size t)" and "recvd p = xs @ pending_input t"
    and "st_handle_read_event P S U u t p = (u', (t', p'), out)"
  shows "out \<noteq> Out_of_bounds \<and>
    (reader_inv t' \<and>
       (\<exists>xs'. ok u' xs' (pending_input t') (min_read_size t') (max_read_size t') \<and> recvd p' = xs' @ pending_input t') \<or>
     out = Returned False \<and> (\<exists>reason u0 d0. su_abort U reason u0 d0 = (u', (t', p'))))"
  using stream_consumer.handle_read_event_intact [OF assms(1-5), of P] assms(6) by (simp add: input_intact_def)

theorem read_event_keeps_stream_witness:
  "let (u', (t', p'), out) = st_handle_read_event connection_parent connection_sys
         (halving_upper connection_parent) [] (idle_transport 2 1 8) (fresh_connection [[1, 2, 3], [4, 5]])
   in out \<noteq> Out_of_bounds \<and>
      (reader_inv t' \<and> received p' = u' @ pending_input t' \<or>
       out = Returned False \<and>
         (\<exists>reason u0 d0. su_abort (halving_upper connection_parent) reason u0 d0 = (u', (t', p'))))"
proof -
  have "received (fresh_connection [[1, 2, 3], [4, 5]]) = [] @ pending_input (idle_transport 2 1 8)"
    by (simp add: fresh_connection_def idle_transport_inv)
  moreover have "reader_inv (idle_transport 2 1 8)" by (rule idle_transport_inv) simp_all
  ultimately show ?thesis
    using read_event_keeps_stream [OF halving_consumer connection_reads_well]
    by (simp only: Let_def split: prod.split) blast
qed



text \<open>
  The condition on upper layers in \<open>read_event_keeps_stream\<close> is needed. An upper layer that lowers
  its maximum below the bytes it has left in the buffer and consumes them in the next call gets the
  same bytes again, because that branch of \<open>handle_read_event\<close> drops the result of \<open>consume\<close>; and
  one that raises its maximum there makes the transport read past the end of \<open>read_buf_\<close>.
\<close>

definition shrinking_upper :: "(nat \<Rightarrow> u32 \<times> int) \<Rightarrow> (byte list list, connection transport_stack) stream_upper" where
  "shrinking_upper answers =
     \<lparr>su_init = (\<lambda>u d. (u, d, None)),
      su_prepare_send = (\<lambda>u d. (u, d, True)),
      su_done_sending = (\<lambda>u d. (u, d, True)),
      su_abort = (\<lambda>e u d. (u, d)),
      su_consume = (\<lambda>bytes delta u d.
         let (n, k) = answers (length u)
         in (u @ [take (nat k) bytes],
             configure_read (make_stream_oriented_layer_ptr connection_parent) (policy_exactly n) d, k))\<rparr>"

lemma smaller_policy_repeats_bytes:
  "fst (st_handle_read_event connection_parent connection_sys
     (shrinking_upper (\<lambda>i. if i = 0 then (4, 2) else (4, 4))) [] (idle_transport 3 8 8)
     (fresh_connection [[1, 2, 3, 4, 5, 6, 7, 8]]))
   = [[1, 2], [3, 4, 5, 6], [3, 4, 5, 6]]"
  by code_simp

lemma larger_policy_overflows:
  "snd (snd (st_handle_read_event connection_parent connection_sys
     (shrinking_upper (\<lambda>i. if i = 0 then (4, 2) else (100, 0))) [] (idle_transport 3 8 8)
     (fresh_connection [[1, 2, 3, 4, 5, 6, 7, 8]])))
   = Out_of_bounds"
  by code_simp

end
