(* ===== verification/Multiplexer.thy ===== *)
theory Multiplexer
  imports Stream_Transport
begin

unbundle bit_operations_syntax

text \<open>
  \<open>socket_manager\<close> (\<open>caf/net/socket_manager.hpp\<close>, \<open>src/socket_manager.cpp\<close>), \<open>multiplexer\<close>
  (\<open>src/multiplexer.cpp\<close>) and \<open>pollset_updater\<close> (\<open>src/pollset_updater.cpp\<close>). Managers live in a store
  and are named by their address, a 64-bit word. The virtual functions of the managers and the calls
  into the operating system are operations of an environment on the whole state, so a handler may
  register its own or another manager. The thread that runs an operation is the argument \<open>self\<close>.
  Numeric values of the poll flags are those of Linux.
\<close>

section \<open>State\<close>

type_synonym mgr = u64

record socket_manager =
  sm_handle :: int
  sm_mask :: operation
  sm_abort_reason :: "caf_error option"

record pollfd =
  fd :: int
  events :: u16
  revents :: u16

text \<open>
  \<open>pipe_refs\<close> counts the references taken by \<open>write_to_pipe\<close> that travel through the pipe.
\<close>

record 'w multiplexer =
  pollset :: "pollfd list"
  managers :: "mgr list"
  tid :: nat
  write_handle :: int
  shutting_down :: bool
  store :: "mgr \<Rightarrow> socket_manager"
  pipe_refs :: "mgr \<Rightarrow> nat"
  updater_buf :: "byte list"
  world :: 'w

abbreviation (input) invalid_socket :: int where "invalid_socket \<equiv> -1"

abbreviation (input) POLLIN :: u16 where "POLLIN \<equiv> 0x001"
abbreviation (input) POLLPRI :: u16 where "POLLPRI \<equiv> 0x002"
abbreviation (input) POLLOUT :: u16 where "POLLOUT \<equiv> 0x004"
abbreviation (input) POLLERR :: u16 where "POLLERR \<equiv> 0x008"
abbreviation (input) POLLHUP :: u16 where "POLLHUP \<equiv> 0x010"
abbreviation (input) POLLNVAL :: u16 where "POLLNVAL \<equiv> 0x020"
abbreviation (input) POLLRDHUP :: u16 where "POLLRDHUP \<equiv> 0x2000"

definition input_mask :: u16 where "input_mask = POLLIN OR POLLPRI"
definition output_mask :: u16 where "output_mask = POLLOUT"
definition error_mask :: u16 where "error_mask = POLLRDHUP OR POLLERR OR POLLHUP OR POLLNVAL"

definition to_bitmask :: "operation \<Rightarrow> u16" where
  "to_bitmask op =
     (if op = op_read then input_mask
      else if op = op_write then output_mask
      else if op = op_read_write then input_mask OR output_mask
      else 0)"

text \<open>The result of \<open>poll\<close>: the number of ready sockets with the \<open>revents\<close> fields, a timeout, or an
  error code.\<close>

datatype poll_result = Poll_ready nat "u16 list" | Poll_timeout | Poll_interrupted | Poll_no_memory | Poll_fatal

record 'w mpx_env =
  handle_read_event :: "mgr \<Rightarrow> 'w multiplexer \<Rightarrow> 'w multiplexer \<times> bool"
  handle_write_event :: "mgr \<Rightarrow> 'w multiplexer \<Rightarrow> 'w multiplexer \<times> bool"
  handle_error :: "mgr \<Rightarrow> sec \<Rightarrow> 'w multiplexer \<Rightarrow> 'w multiplexer"
  manager_init :: "mgr \<Rightarrow> 'w multiplexer \<Rightarrow> 'w multiplexer \<times> caf_error option"
  pipe_write :: "int \<Rightarrow> byte list \<Rightarrow> 'w \<Rightarrow> 'w \<times> int"
  pipe_read :: "nat \<Rightarrow> 'w \<Rightarrow> 'w \<times> read_result"
  pipe_open :: "'w \<Rightarrow> 'w \<times> (caf_error + int \<times> int)"
  pipe_nonblocking :: "int \<Rightarrow> 'w \<Rightarrow> 'w \<times> caf_error option"
  close_socket :: "int \<Rightarrow> 'w \<Rightarrow> 'w"
  poll_sockets :: "pollfd list \<Rightarrow> bool \<Rightarrow> 'w \<Rightarrow> 'w \<times> poll_result"

section \<open>Socket managers\<close>

definition set_mask :: "mgr \<Rightarrow> operation \<Rightarrow> 'w multiplexer \<Rightarrow> 'w multiplexer" where
  "set_mask m op M = M\<lparr>store := (store M)(m := (store M m)\<lparr>sm_mask := op\<rparr>)\<rparr>"

abbreviation mask_of :: "'w multiplexer \<Rightarrow> mgr \<Rightarrow> operation" where
  "mask_of M m \<equiv> sm_mask (store M m)"

definition mask_add :: "operation \<Rightarrow> mgr \<Rightarrow> 'w multiplexer \<Rightarrow> 'w multiplexer \<times> bool" where
  "mask_add flag m M =
     (let x = mask_of M m
      in if operation_and x flag = flag then (M, False) else (set_mask m (operation_or x flag) M, True))"

definition mask_del :: "operation \<Rightarrow> mgr \<Rightarrow> 'w multiplexer \<Rightarrow> 'w multiplexer \<times> bool" where
  "mask_del flag m M =
     (let x = mask_of M m
      in if operation_and x flag = op_none then (M, False)
         else (set_mask m (operation_and x (operation_not flag)) M, True))"

definition sm_set_abort_reason :: "mgr \<Rightarrow> caf_error \<Rightarrow> 'w multiplexer \<Rightarrow> 'w multiplexer" where
  "sm_set_abort_reason m e M = M\<lparr>store := (store M)(m := (store M m)\<lparr>sm_abort_reason := Some e\<rparr>)\<rparr>"

section \<open>Registering managers\<close>

text \<open>\<open>index_of\<close>: \<open>None\<close> for -1.\<close>

definition index_of :: "mgr \<Rightarrow> 'w multiplexer \<Rightarrow> nat option" where
  "index_of m M = (let i = length (takeWhile (\<lambda>x. x \<noteq> m) (managers M))
                   in if i < length (managers M) then Some i else None)"

definition add_mgr :: "mgr \<Rightarrow> 'w multiplexer \<Rightarrow> 'w multiplexer" where
  "add_mgr m M =
     M\<lparr>pollset := pollset M @ [\<lparr>fd = sm_handle (store M m), events = to_bitmask (mask_of M m), revents = 0\<rparr>],
       managers := managers M @ [m]\<rparr>"

definition remove_nth :: "nat \<Rightarrow> 'a list \<Rightarrow> 'a list" where
  "remove_nth i xs = take i xs @ drop (Suc i) xs"

definition del :: "nat \<Rightarrow> 'w multiplexer \<Rightarrow> 'w multiplexer" where
  "del i M = M\<lparr>pollset := remove_nth i (pollset M), managers := remove_nth i (managers M)\<rparr>"

definition set_events :: "nat \<Rightarrow> u16 \<Rightarrow> 'w multiplexer \<Rightarrow> 'w multiplexer" where
  "set_events i ev M = M\<lparr>pollset := (pollset M)[i := (pollset M ! i)\<lparr>events := ev\<rparr>]\<rparr>"

abbreviation (input) register_reading_code :: u8 where "register_reading_code \<equiv> 0x00"
abbreviation (input) register_writing_code :: u8 where "register_writing_code \<equiv> 0x01"
abbreviation (input) init_manager_code :: u8 where "init_manager_code \<equiv> 0x02"
abbreviation (input) shutdown_code :: u8 where "shutdown_code \<equiv> 0x04"

text \<open>\<open>memcpy\<close> of an \<open>intptr_t\<close>: the eight bytes of the address.\<close>

definition pipe_message :: "u8 \<Rightarrow> mgr \<Rightarrow> byte list" where
  "pipe_message opc m = opc # rev (net64 m)"

definition write_to_pipe :: "'w mpx_env \<Rightarrow> u8 \<Rightarrow> mgr \<Rightarrow> 'w multiplexer \<Rightarrow> 'w multiplexer" where
  "write_to_pipe E opc m M =
     (let M1 = (if opc \<noteq> shutdown_code then M\<lparr>pipe_refs := (pipe_refs M)(m := pipe_refs M m + 1)\<rparr> else M);
          (w, res) = (if write_handle M1 \<noteq> invalid_socket
                      then pipe_write E (write_handle M1) (pipe_message opc m) (world M1)
                      else (world M1, -1));
          M2 = M1\<lparr>world := w\<rparr>
      in if res \<le> 0 \<and> opc \<noteq> shutdown_code
         then M2\<lparr>pipe_refs := (pipe_refs M2)(m := pipe_refs M2 m - 1)\<rparr> else M2)"

text \<open>
  \<open>register_reading\<close> and \<open>register_writing\<close> differ in the operation, the poll flags and the opcode.
\<close>

definition register_op ::
  "'w mpx_env \<Rightarrow> operation \<Rightarrow> u16 \<Rightarrow> u8 \<Rightarrow> nat \<Rightarrow> mgr \<Rightarrow> 'w multiplexer \<Rightarrow> 'w multiplexer" where
  "register_op E op bits code self m M =
     (if self = tid M then
        if shutting_down M then M
        else if mask_of M m \<noteq> op_none then
          case index_of m M of
            None \<Rightarrow> M
          | Some i \<Rightarrow>
              let (M1, added) = mask_add op m M in
              if added then set_events i (events (pollset M1 ! i) OR bits) M1 else M1
        else
          let (M1, added) = mask_add op m M in if added then add_mgr m M1 else M1
      else write_to_pipe E code m M)"

definition mpx_register_reading :: "'w mpx_env \<Rightarrow> nat \<Rightarrow> mgr \<Rightarrow> 'w multiplexer \<Rightarrow> 'w multiplexer" where
  "mpx_register_reading E = register_op E op_read input_mask register_reading_code"

definition mpx_register_writing :: "'w mpx_env \<Rightarrow> nat \<Rightarrow> mgr \<Rightarrow> 'w multiplexer \<Rightarrow> 'w multiplexer" where
  "mpx_register_writing E = register_op E op_write output_mask register_writing_code"

definition mpx_init_manager :: "'w mpx_env \<Rightarrow> nat \<Rightarrow> mgr \<Rightarrow> 'w multiplexer \<Rightarrow> 'w multiplexer" where
  "mpx_init_manager E self m M =
     (if self = tid M then if shutting_down M then M else fst (manager_init E m M)
      else write_to_pipe E init_manager_code m M)"

text \<open>\<open>socket_manager::register_reading\<close> and \<open>register_writing\<close>.\<close>

definition sm_register_reading :: "'w mpx_env \<Rightarrow> nat \<Rightarrow> mgr \<Rightarrow> 'w multiplexer \<Rightarrow> 'w multiplexer" where
  "sm_register_reading E self m M =
     (if operation_and (mask_of M m) op_read = op_read then M else mpx_register_reading E self m M)"

definition sm_register_writing :: "'w mpx_env \<Rightarrow> nat \<Rightarrow> mgr \<Rightarrow> 'w multiplexer \<Rightarrow> 'w multiplexer" where
  "sm_register_writing E self m M =
     (if operation_and (mask_of M m) op_write = op_write then M else mpx_register_writing E self m M)"

text \<open>A socket manager as the parent of a transport.\<close>

definition manager_ptr :: "'w mpx_env \<Rightarrow> nat \<Rightarrow> mgr \<Rightarrow> 'w multiplexer io_parent" where
  "manager_ptr E self m =
     \<lparr>register_reading = sm_register_reading E self m,
      register_writing = sm_register_writing E self m,
      parent_set_abort_reason = sm_set_abort_reason m,
      parent_abort_reason = (\<lambda>M. sm_abort_reason (store M m))\<rparr>"

section \<open>Shutting down\<close>

definition close_pipe :: "'w mpx_env \<Rightarrow> 'w multiplexer \<Rightarrow> 'w multiplexer" where
  "close_pipe E M =
     (if write_handle M \<noteq> invalid_socket
      then M\<lparr>world := close_socket E (write_handle M) (world M), write_handle := invalid_socket\<rparr>
      else M)"

text \<open>The loop of \<open>shutdown\<close> from index \<open>i\<close> on.\<close>

lemma length_remove_nth: "i < length xs \<Longrightarrow> length (remove_nth i xs) = length xs - 1"
  by (simp add: remove_nth_def)

definition stop_reading :: "mgr \<Rightarrow> 'w multiplexer \<Rightarrow> 'w multiplexer" where
  "stop_reading m M =
     (let (M1, removed) = mask_del op_read m M in
      if removed then
        case index_of m M1 of
          Some j \<Rightarrow> set_events j (events (pollset M1 ! j) AND NOT input_mask) M1
        | None \<Rightarrow> M1
      else M1)"

lemma managers_set_mask [simp]: "managers (set_mask m op M) = managers M"
  by (simp add: set_mask_def)

lemma managers_set_events [simp]: "managers (set_events i ev M) = managers M"
  by (simp add: set_events_def)

lemma managers_mask_del [simp]: "managers (fst (mask_del f m M)) = managers M"
  by (simp add: mask_del_def Let_def)

lemma managers_mask_add [simp]: "managers (fst (mask_add f m M)) = managers M"
  by (simp add: mask_add_def Let_def)

lemma managers_stop_reading [simp]: "managers (stop_reading m M) = managers M"
  by (auto simp: stop_reading_def mask_del_def Let_def split: option.split)

function shutdown_loop :: "nat \<Rightarrow> 'w multiplexer \<Rightarrow> 'w multiplexer" where
  "shutdown_loop i M =
     (if i < length (managers M) then
        let m = managers M ! i; M1 = stop_reading m M in
        if mask_of M1 m = op_none then shutdown_loop i (del i M1) else shutdown_loop (Suc i) M1
      else M)"
  by pat_completeness auto
termination
  by (relation "measure (\<lambda>(i, M). length (managers M) - i)")
    (auto simp: del_def length_remove_nth Let_def)

declare shutdown_loop.simps [simp del]

definition mpx_shutdown :: "'w mpx_env \<Rightarrow> nat \<Rightarrow> 'w multiplexer \<Rightarrow> 'w multiplexer" where
  "mpx_shutdown E self M =
     (if self = tid M then close_pipe E (shutdown_loop 1 (M\<lparr>shutting_down := True\<rparr>))
      else write_to_pipe E 4 0 M)"

section \<open>Polling\<close>

text \<open>\<open>multiplexer::handle\<close>: run the handlers of a ready socket and return the new event mask.\<close>

definition handle_event ::
  "'w mpx_env \<Rightarrow> mgr \<Rightarrow> u16 \<Rightarrow> u16 \<Rightarrow> 'w multiplexer \<Rightarrow> 'w multiplexer \<times> u16" where
  "handle_event E m ev rv M =
     (let (M1, ev1) =
            (if rv AND input_mask \<noteq> 0
             then let (Ma, again) = handle_read_event E m M
                  in if again then (Ma, ev) else (fst (mask_del op_read m Ma), ev AND NOT input_mask)
             else (M, ev));
          (M2, ev2) =
            (if rv AND output_mask \<noteq> 0
             then let (Mb, again) = handle_write_event E m M1
                  in if again then (Mb, ev1) else (fst (mask_del op_write m Mb), ev1 AND NOT output_mask)
             else (M1, ev1));
          checkerror = (rv AND input_mask = 0 \<and> rv AND output_mask = 0)
      in if checkerror \<and> rv AND error_mask \<noteq> 0 then
           let code = (if rv AND POLLNVAL \<noteq> 0 then sec_socket_invalid
                       else if rv AND POLLHUP \<noteq> 0 then sec_socket_disconnected
                       else sec_socket_operation_failed);
               M3 = handle_error E m code M2
           in (fst (mask_del op_read_write m M3), 0)
         else (M2, ev2))"

text \<open>
  The scan over the pollset after \<open>poll\<close>. \<open>None\<close> is an access to \<open>pollset_[i]\<close> out of range, which
  happens if a handler shrinks the pollset below the index of its own manager.
\<close>

function scan_pollset :: "'w mpx_env \<Rightarrow> nat \<Rightarrow> nat \<Rightarrow> 'w multiplexer \<Rightarrow> 'w multiplexer option" where
  "scan_pollset E i presult M =
     (if i < length (pollset M) \<and> presult > 0 then
        if revents (pollset M ! i) \<noteq> 0 then
          let ev = events (pollset M ! i);
              (M1, new_events) = handle_event E (managers M ! i) ev (revents (pollset M ! i)) M
          in if new_events = 0 then
               if i < length (pollset M1) then scan_pollset E i (presult - 1) (del i M1) else None
             else if new_events \<noteq> ev then
               if i < length (pollset M1)
               then scan_pollset E (Suc i) (presult - 1) (set_events i new_events M1) else None
             else scan_pollset E (Suc i) (presult - 1) M1
        else scan_pollset E (Suc i) presult M
      else Some M)"
  by pat_completeness auto
termination
  by (relation "measures [\<lambda>(E, i, presult, M). presult, \<lambda>(E, i, presult, M). length (pollset M) - i]") auto

declare scan_pollset.simps [simp del]

definition set_revents :: "u16 list \<Rightarrow> 'w multiplexer \<Rightarrow> 'w multiplexer" where
  "set_revents rs M = M\<lparr>pollset := map (\<lambda>(p, r). p\<lparr>revents := r\<rparr>) (zip (pollset M) rs)\<rparr>"

text \<open>
  \<open>poll_once\<close> repeats an interrupted \<open>poll\<close> without a bound: no result means that it never returns.
  \<open>Poll_crashed\<close> is \<open>CAF_CRITICAL\<close> or an access out of range.
\<close>

datatype 'w poll_outcome = Polled "'w multiplexer" bool | Poll_crashed

partial_function (option) poll_loop ::
  "'w mpx_env \<Rightarrow> bool \<Rightarrow> 'w multiplexer \<Rightarrow> 'w poll_outcome option" where
  "poll_loop E blocking M =
     (case poll_sockets E (pollset M) blocking (world M) of
        (w, Poll_ready n rs) \<Rightarrow>
          (case scan_pollset E 0 n (set_revents rs (M\<lparr>world := w\<rparr>)) of
             Some M' \<Rightarrow> Some (Polled M' True)
           | None \<Rightarrow> Some Poll_crashed)
      | (w, Poll_timeout) \<Rightarrow> Some (Polled (M\<lparr>world := w\<rparr>) False)
      | (w, Poll_interrupted) \<Rightarrow> poll_loop E blocking (M\<lparr>world := w\<rparr>)
      | (w, Poll_no_memory) \<Rightarrow> poll_loop E blocking (M\<lparr>world := w\<rparr>)
      | (w, Poll_fatal) \<Rightarrow> Some Poll_crashed)"

definition poll_once :: "'w mpx_env \<Rightarrow> bool \<Rightarrow> 'w multiplexer \<Rightarrow> 'w poll_outcome option" where
  "poll_once E blocking M = (if pollset M = [] then Some (Polled M False) else poll_loop E blocking M)"

partial_function (option) mpx_run :: "'w mpx_env \<Rightarrow> 'w multiplexer \<Rightarrow> 'w poll_outcome option" where
  "mpx_run E M =
     (if pollset M = [] then Some (Polled M True)
      else Option.bind (poll_once E True M) (\<lambda>r.
        case r of Polled M' b \<Rightarrow> mpx_run E M' | Poll_crashed \<Rightarrow> Some Poll_crashed))"

section \<open>Setting up\<close>

definition multiplexer_new :: "(mgr \<Rightarrow> socket_manager) \<Rightarrow> 'w \<Rightarrow> 'w multiplexer" where
  "multiplexer_new st w =
     \<lparr>pollset = [], managers = [], tid = 0, write_handle = invalid_socket, shutting_down = False,
      store = st, pipe_refs = (\<lambda>m. 0), updater_buf = [], world = w\<rparr>"

text \<open>\<open>init\<close> creates the pollset updater at the fresh address \<open>m\<close>, registered for reading.\<close>

definition mpx_init :: "'w mpx_env \<Rightarrow> mgr \<Rightarrow> 'w multiplexer \<Rightarrow> 'w multiplexer \<times> caf_error option" where
  "mpx_init E m M =
     (case pipe_open E (world M) of
        (w, Inl err) \<Rightarrow> (M\<lparr>world := w\<rparr>, Some err)
      | (w, Inr (rd, wr)) \<Rightarrow>
          let M1 = M\<lparr>world := w,
                     store := (store M)(m := \<lparr>sm_handle = rd, sm_mask = op_read, sm_abort_reason = None\<rparr>)\<rparr>
          in case pipe_nonblocking E rd (world M1) of
               (w2, Some err) \<Rightarrow> (M1\<lparr>world := w2\<rparr>, Some err)
             | (w2, None) \<Rightarrow> ((add_mgr m (M1\<lparr>world := w2\<rparr>))\<lparr>write_handle := wr\<rparr>, None))"

definition set_thread_id :: "nat \<Rightarrow> 'w multiplexer \<Rightarrow> 'w multiplexer" where
  "set_thread_id self M = M\<lparr>tid := self\<rparr>"

section \<open>The pollset updater\<close>

text \<open>The requests of the pipe, executed in the thread of the multiplexer; the reference that travelled
  with the message is released at the end.\<close>

definition run_request :: "'w mpx_env \<Rightarrow> nat \<Rightarrow> u8 \<Rightarrow> mgr \<Rightarrow> 'w multiplexer \<Rightarrow> 'w multiplexer" where
  "run_request E self opc m M =
     (let M1 = (if opc = register_reading_code then mpx_register_reading E self m M
                else if opc = register_writing_code then mpx_register_writing E self m M
                else if opc = init_manager_code then mpx_init_manager E self m M
                else if opc = shutdown_code then mpx_shutdown E self M
                else M)
      in if m = 0 then M1 else M1\<lparr>pipe_refs := (pipe_refs M1)(m := pipe_refs M1 m - 1)\<rparr>)"

text \<open>\<open>buf_\<close> has nine bytes; \<open>updater_buf\<close> is the part up to \<open>buf_size_\<close>.\<close>

partial_function (option) updater_read ::
  "'w mpx_env \<Rightarrow> nat \<Rightarrow> 'w multiplexer \<Rightarrow> ('w multiplexer \<times> bool) option" where
  "updater_read E self M =
     (case pipe_read E (9 - length (updater_buf M)) (world M) of
        (w, Read_some bs) \<Rightarrow>
          (let buf = updater_buf M @ bs; M1 = M\<lparr>world := w\<rparr> in
           if length buf = 9
           then updater_read E self
                  (run_request E self (hd buf) (from_net64 (rev (tl buf))) (M1\<lparr>updater_buf := []\<rparr>))
           else updater_read E self (M1\<lparr>updater_buf := buf\<rparr>))
      | (w, Read_closed) \<Rightarrow> Some (M\<lparr>world := w\<rparr>, False)
      | (w, Read_failed temporary) \<Rightarrow> Some (M\<lparr>world := w\<rparr>, temporary))"

definition updater_handle_write_event :: "'w multiplexer \<Rightarrow> 'w multiplexer \<times> bool" where
  "updater_handle_write_event M = (M, False)"

definition updater_handle_error :: "sec \<Rightarrow> 'w multiplexer \<Rightarrow> 'w multiplexer" where
  "updater_handle_error code M = M"

section \<open>Managers as parents of transports\<close>

lemma store_write_to_pipe [simp]: "store (write_to_pipe E opc m M) = store M"
  by (simp add: write_to_pipe_def Let_def split: prod.split)

lemma reason_set_mask [simp]: "sm_abort_reason (store (set_mask m op M) x) = sm_abort_reason (store M x)"
  by (simp add: set_mask_def)

lemma reason_register_op [simp]:
  "sm_abort_reason (store (register_op E op bits code self m M) x) = sm_abort_reason (store M x)"
  by (auto simp: register_op_def mask_add_def add_mgr_def set_events_def Let_def split: option.split)

interpretation manager: io_parent "manager_ptr E self m" for E self m
  by unfold_locales
    (auto simp: manager_ptr_def sm_set_abort_reason_def sm_register_reading_def sm_register_writing_def
      mpx_register_reading_def mpx_register_writing_def)

section \<open>Consistency of the pollset\<close>

text \<open>
  The pollset mirrors the registered managers: same order, same sockets, the events of their masks;
  and exactly the managers with a non-empty mask are registered.
\<close>

definition entry_of :: "'w multiplexer \<Rightarrow> mgr \<Rightarrow> int \<times> u16" where
  "entry_of M m = (sm_handle (store M m), to_bitmask (mask_of M m))"

definition view :: "pollfd \<Rightarrow> int \<times> u16" where
  "view p = (fd p, events p)"

definition valid_masks :: "operation set" where
  "valid_masks = {op_none, op_read, op_write, op_read_write}"

definition mpx_inv :: "'w multiplexer \<Rightarrow> bool" where
  "mpx_inv M \<longleftrightarrow>
     map view (pollset M) = map (entry_of M) (managers M) \<and> distinct (managers M) \<and>
     (\<forall>m. mask_of M m \<in> valid_masks) \<and> (\<forall>m. mask_of M m \<noteq> op_none \<longleftrightarrow> m \<in> set (managers M))"

lemma mpx_inv_length: "mpx_inv M \<Longrightarrow> length (pollset M) = length (managers M)"
  unfolding mpx_inv_def by (metis length_map)

lemma remove_nth_map: "map f (remove_nth i xs) = remove_nth i (map f xs)"
  by (simp add: remove_nth_def take_map drop_map)

lemma set_remove_nth: "distinct xs \<Longrightarrow> i < length xs \<Longrightarrow> set (remove_nth i xs) = set xs - {xs ! i}"
proof -
  assume d: "distinct xs" and i: "i < length xs"
  have "xs = take i xs @ xs ! i # drop (Suc i) xs" using i by (rule id_take_nth_drop)
  with d have "xs ! i \<notin> set (take i xs)" "xs ! i \<notin> set (drop (Suc i) xs)"
    and "set xs = insert (xs ! i) (set (take i xs) \<union> set (drop (Suc i) xs))"
    by (metis distinct.simps(2) distinct_append not_distinct_conv_prefix,
        metis distinct.simps(2) distinct_append,
        metis Un_insert_right list.simps(15) set_append)
  then show ?thesis by (auto simp: remove_nth_def)
qed

lemma distinct_remove_nth: "distinct xs \<Longrightarrow> distinct (remove_nth i xs)"
proof -
  assume d: "distinct xs"
  have "set (take i xs) \<inter> set (drop (Suc i) xs) = {}"
    using d set_take_disj_set_drop_if_distinct [of xs i "Suc i"] by simp
  with d show ?thesis by (simp add: remove_nth_def)
qed

lemma map_upd_distinct:
  assumes "distinct xs" "i < length xs" "\<And>x. x \<noteq> xs ! i \<Longrightarrow> g x = f x"
  shows "map g xs = (map f xs)[i := g (xs ! i)]"
proof (rule nth_equalityI)
  fix j assume "j < length (map g xs)"
  then show "map g xs ! j = (map f xs)[i := g (xs ! i)] ! j"
    using assms nth_eq_iff_index_eq [OF assms(1), of i j] by (cases "i = j") auto
qed simp

lemma map_view_set_events:
  "i < length (pollset M) \<Longrightarrow>
   map view (pollset (set_events i ev M)) = (map view (pollset M))[i := (fd (pollset M ! i), ev)]"
  by (simp add: set_events_def map_update view_def)

lemma store_set_events [simp]: "store (set_events i ev M) = store M"
  by (simp add: set_events_def)

lemma entry_of_set_mask: "entry_of (set_mask m op M) x = (if x = m then (sm_handle (store M m), to_bitmask op) else entry_of M x)"
  by (simp add: entry_of_def set_mask_def)

lemma entry_of_set_events [simp]: "entry_of (set_events i ev M) = entry_of M"
  by (simp add: entry_of_def fun_eq_iff)

lemma pollset_set_mask [simp]: "pollset (set_mask m op M) = pollset M"
  by (simp add: set_mask_def)

lemma mask_of_set_mask [simp]: "mask_of (set_mask m op M) x = (if x = m then op else mask_of M x)"
  by (simp add: set_mask_def)

lemma mpx_inv_fd: "mpx_inv M \<Longrightarrow> i < length (managers M) \<Longrightarrow> fd (pollset M ! i) = sm_handle (store M (managers M ! i))"
proof -
  assume inv: "mpx_inv M" and i: "i < length (managers M)"
  then have "map view (pollset M) ! i = map (entry_of M) (managers M) ! i" by (simp add: mpx_inv_def)
  then show ?thesis using i mpx_inv_length [OF inv] by (simp add: view_def entry_of_def)
qed

lemma mpx_inv_events: "mpx_inv M \<Longrightarrow> i < length (managers M) \<Longrightarrow> events (pollset M ! i) = to_bitmask (mask_of M (managers M ! i))"
proof -
  assume inv: "mpx_inv M" and i: "i < length (managers M)"
  then have "map view (pollset M) ! i = map (entry_of M) (managers M) ! i" by (simp add: mpx_inv_def)
  then show ?thesis using i mpx_inv_length [OF inv] by (simp add: view_def entry_of_def)
qed

text \<open>The three ways in which the registration of a manager changes.\<close>

lemma inv_change:
  assumes inv: "mpx_inv M" and i: "i < length (managers M)" and m: "managers M ! i = m"
    and op: "op \<in> valid_masks" "op \<noteq> op_none"
  shows "mpx_inv (set_events i (to_bitmask op) (set_mask m op M))"
proof -
  have d: "distinct (managers M)" using inv by (simp add: mpx_inv_def)
  have "map (entry_of (set_mask m op M)) (managers M)
      = (map (entry_of M) (managers M))[i := entry_of (set_mask m op M) m]"
    using map_upd_distinct [OF d i, of "entry_of (set_mask m op M)" "entry_of M"]
    by (simp add: entry_of_set_mask m)
  moreover have "map view (pollset (set_events i (to_bitmask op) (set_mask m op M)))
      = (map view (pollset M))[i := (sm_handle (store M m), to_bitmask op)]"
    using map_view_set_events [of i "set_mask m op M"] mpx_inv_fd [OF inv i] i mpx_inv_length [OF inv] m
    by simp
  moreover have "m \<in> set (managers M)" using i m nth_mem by blast
  ultimately show ?thesis
    using inv op by (simp add: mpx_inv_def entry_of_set_mask)
qed

lemma managers_del: "managers (del i M) = remove_nth i (managers M)"
  by (simp add: del_def)

lemma inv_remove:
  assumes inv: "mpx_inv M" and i: "i < length (managers M)" and m: "managers M ! i = m"
  shows "mpx_inv (del i (set_mask m op_none M))"
proof -
  let ?M = "set_mask m op_none M"
  have d: "distinct (managers M)" using inv by (simp add: mpx_inv_def)
  have s: "set (remove_nth i (managers M)) = set (managers M) - {m}" using set_remove_nth [OF d i] m by simp
  have "entry_of (del i ?M) = entry_of ?M" by (simp add: entry_of_def del_def fun_eq_iff)
  moreover have "map (entry_of ?M) (remove_nth i (managers M)) = map (entry_of M) (remove_nth i (managers M))"
    using s by (intro map_cong) (auto simp: entry_of_set_mask)
  moreover have "map view (pollset (del i ?M)) = map (entry_of M) (remove_nth i (managers M))"
    using inv by (simp add: del_def remove_nth_map mpx_inv_def)
  moreover have "mask_of (del i ?M) x = (if x = m then op_none else mask_of M x)" for x
    by (simp add: del_def)
  ultimately show ?thesis
    using inv s distinct_remove_nth [OF d] by (simp add: mpx_inv_def managers_del valid_masks_def)
qed

lemma inv_add:
  assumes inv: "mpx_inv M" and m: "m \<notin> set (managers M)" and op: "op \<in> valid_masks" "op \<noteq> op_none"
  shows "mpx_inv (add_mgr m (set_mask m op M))"
proof -
  let ?M = "add_mgr m (set_mask m op M)"
  have e: "entry_of ?M = entry_of (set_mask m op M)" by (simp add: entry_of_def add_mgr_def fun_eq_iff)
  have "map (entry_of (set_mask m op M)) (managers M) = map (entry_of M) (managers M)"
    using m by (intro map_cong) (auto simp: entry_of_set_mask)
  moreover have "map view (pollset ?M) = map view (pollset M) @ [entry_of (set_mask m op M) m]"
    by (simp add: add_mgr_def view_def entry_of_def)
  moreover have "managers ?M = managers M @ [m]" "mask_of ?M x = (if x = m then op else mask_of M x)" for x
    by (simp_all add: add_mgr_def)
  ultimately show ?thesis
    using inv m op by (simp add: mpx_inv_def e)
qed

end
