(* ===== verification/Multiplexer_Inv.thy ===== *)
theory Multiplexer_Inv
  imports Multiplexer
begin

unbundle bit_operations_syntax

text \<open>
  Every operation of the multiplexer keeps the pollset consistent with the masks of the managers, and
  what the operations achieve: registration, shutdown, requests from other threads.
\<close>

section \<open>Registration\<close>

lemma index_of_Some:
  assumes "index_of m M = Some i"
  shows "i < length (managers M)" "managers M ! i = m"
proof -
  let ?i = "length (takeWhile (\<lambda>x. x \<noteq> m) (managers M))"
  have i: "i = ?i" "?i < length (managers M)"
    using assms by (auto simp: index_of_def Let_def split: if_splits)
  then show "i < length (managers M)" by simp
  show "managers M ! i = m" using nth_length_takeWhile [OF i(2)] i(1) by simp
qed

lemma index_of_None: "index_of m M = None \<longleftrightarrow> m \<notin> set (managers M)"
proof -
  have "length (takeWhile (\<lambda>x. x \<noteq> m) xs) < length xs \<longleftrightarrow> m \<in> set xs" for xs :: "mgr list"
    by (induction xs) auto
  then show ?thesis by (auto simp: index_of_def Let_def)
qed

lemma mpx_inv_registered: "mpx_inv M \<Longrightarrow> m \<in> set (managers M) \<longleftrightarrow> mask_of M m \<noteq> op_none"
  unfolding mpx_inv_def by metis

lemma mpx_inv_cong:
  assumes "pollset M' = pollset M" "managers M' = managers M" "store M' = store M"
  shows "mpx_inv M' = mpx_inv M"
proof -
  have "entry_of M' = entry_of M" by (simp add: entry_of_def assms(3) fun_eq_iff)
  then show ?thesis by (simp add: mpx_inv_def assms)
qed

lemma write_to_pipe_frame:
  "pollset (write_to_pipe E opc m M) = pollset M" "managers (write_to_pipe E opc m M) = managers M"
  by (simp_all add: write_to_pipe_def Let_def split: prod.split)

text \<open>The pairs of operation and poll flags of \<open>register_reading\<close> and \<open>register_writing\<close>.\<close>

definition op_bits :: "(operation \<times> u16) set" where
  "op_bits = {(op_read, input_mask), (op_write, output_mask)}"

lemma to_bitmask_or:
  assumes "(op, bits) \<in> op_bits" and "x \<in> valid_masks"
  shows "to_bitmask x OR bits = to_bitmask (x OR op)" "x OR op \<in> valid_masks" "x OR op \<noteq> 0" "op \<noteq> 0"
  using assms unfolding op_bits_def valid_masks_def
  by (elim insertE emptyE; simp add: to_bitmask_def input_mask_def output_mask_def)+

lemma register_op_inv:
  assumes inv: "mpx_inv M" and ob: "(op, bits) \<in> op_bits"
  shows "mpx_inv (register_op E op bits code self m M)"
proof (cases "self = tid M \<and> \<not> shutting_down M")
  case False
  then show ?thesis
    using inv mpx_inv_cong [OF write_to_pipe_frame store_write_to_pipe, of E code m M]
    by (auto simp: register_op_def)
next
  case True
  have v: "mask_of M m \<in> valid_masks" using inv by (simp add: mpx_inv_def)
  note tb = to_bitmask_or [OF ob v]
  show ?thesis
  proof (cases "mask_of M m = op_none")
    case none: True
    then have "m \<notin> set (managers M)" using mpx_inv_registered [OF inv] by simp
    from inv_add [OF inv this, of op] show ?thesis
      using True none tb by (simp add: register_op_def mask_add_def)
  next
    case some: False
    then have "m \<in> set (managers M)" using mpx_inv_registered [OF inv] by simp
    then obtain i where i: "index_of m M = Some i" using index_of_None [of m M] by (cases "index_of m M") auto
    note ix = index_of_Some [OF i]
    have "events (pollset M ! i) OR bits = to_bitmask (mask_of M m OR op)"
      using mpx_inv_events [OF inv ix(1)] ix(2) tb(1) by simp
    with inv_change [OF inv ix tb(2,3)] show ?thesis
      using True some i inv by (simp add: register_op_def mask_add_def Let_def)
  qed
qed

lemma mpx_register_inv [inv_intros]:
  "mpx_inv M \<Longrightarrow> mpx_inv (mpx_register_reading E self m M)"
  "mpx_inv M \<Longrightarrow> mpx_inv (mpx_register_writing E self m M)"
  by (simp_all add: mpx_register_reading_def mpx_register_writing_def register_op_inv op_bits_def)

lemma register_op_mask:
  assumes inv: "mpx_inv M" and ob: "(op, bits) \<in> op_bits" and run: "self = tid M" "\<not> shutting_down M"
  shows "mask_of (register_op E op bits code self m M) x = (if x = m then mask_of M m OR op else mask_of M x)"
proof (cases "mask_of M m = op_none")
  case none: True
  then show ?thesis
    using run to_bitmask_or(4) [OF ob, of 0]
    by (auto simp: register_op_def mask_add_def add_mgr_def valid_masks_def)
next
  case some: False
  then have "m \<in> set (managers M)" using mpx_inv_registered [OF inv] by simp
  then obtain i where i: "index_of m M = Some i" using index_of_None [of m M] by (cases "index_of m M") auto
  have "mask_of M m \<in> valid_masks" using inv by (simp add: mpx_inv_def)
  then have eq: "mask_of M m AND op = op \<Longrightarrow> mask_of M m OR op = mask_of M m"
    using ob by (auto simp: valid_masks_def op_bits_def)
  show ?thesis
    using run some i eq by (auto simp: register_op_def mask_add_def Let_def)
qed

text \<open>The same for removing an operation from a mask.\<close>

lemma to_bitmask_and_not:
  assumes "(op, bits) \<in> op_bits" and "x \<in> valid_masks"
  shows "to_bitmask x AND NOT bits = to_bitmask (x AND NOT op)" "x AND NOT op \<in> valid_masks"
    "x AND op = 0 \<Longrightarrow> x AND NOT op = x"
  using assms unfolding op_bits_def valid_masks_def
  by (elim insertE emptyE; simp add: to_bitmask_def input_mask_def output_mask_def)+

lemma to_bitmask_zero: "x \<in> valid_masks \<Longrightarrow> to_bitmask x = 0 \<longleftrightarrow> x = 0"
  unfolding valid_masks_def
  by (elim insertE emptyE; simp add: to_bitmask_def input_mask_def output_mask_def)

section \<open>Shutdown\<close>

lemma del_set_events: "del i (set_events i ev M) = del i M"
  by (simp add: del_def set_events_def remove_nth_def)

lemma set_mask_same: "set_mask m (mask_of M m) M = M"
  by (simp add: set_mask_def)

lemma index_of_nth:
  assumes "mpx_inv M" and "i < length (managers M)"
  shows "index_of (managers M ! i) M = Some i"
proof (cases "index_of (managers M ! i) M")
  case None
  then show ?thesis using assms(2) index_of_None by (metis nth_mem)
next
  case (Some j)
  have "distinct (managers M)" using assms(1) by (simp add: mpx_inv_def)
  with index_of_Some [OF Some] assms(2) show ?thesis
    using Some nth_eq_iff_index_eq by metis
qed

lemma stop_reading_eq:
  assumes inv: "mpx_inv M" and i: "i < length (managers M)" and m: "managers M ! i = m"
  defines "op \<equiv> mask_of M m AND NOT op_read"
  shows "stop_reading m M = set_events i (to_bitmask op) (set_mask m op M)"
proof -
  have v: "mask_of M m \<in> valid_masks" using inv by (simp add: mpx_inv_def)
  have ob: "(op_read, input_mask) \<in> op_bits" by (simp add: op_bits_def)
  note tb = to_bitmask_and_not [OF ob v]
  have ev: "events (pollset M ! i) = to_bitmask (mask_of M m)"
    using mpx_inv_events [OF inv i] m by simp
  have ix: "index_of m M = Some i" using index_of_nth [OF inv i] m by simp
  have len: "i < length (pollset M)" using i mpx_inv_length [OF inv] by simp
  have ix2: "index_of m (set_mask m x M) = Some i" for x using ix by (simp add: index_of_def)
  have same: "set_events i (events (pollset M ! i)) M = M"
    using len by (simp add: set_events_def)
  show ?thesis
  proof (cases "mask_of M m AND op_read = 0")
    case True
    then have "op = mask_of M m" using tb(3) by (simp add: op_def)
    then show ?thesis
      using True same ev by (simp add: stop_reading_def mask_del_def Let_def set_mask_same)
  next
    case False
    then show ?thesis
      using ix2 ev tb(1) by (simp add: stop_reading_def mask_del_def Let_def op_def)
  qed
qed

text \<open>One step of the shutdown loop, for a manager that keeps or loses its registration.\<close>

lemma shutdown_step_inv:
  assumes inv: "mpx_inv M" and i: "i < length (managers M)" and m: "managers M ! i = m"
  shows "mask_of (stop_reading m M) x = (if x = m then mask_of M m AND NOT op_read else mask_of M x)"
    "mask_of (stop_reading m M) m = op_none \<Longrightarrow> mpx_inv (del i (stop_reading m M))"
    "mask_of (stop_reading m M) m \<noteq> op_none \<Longrightarrow> mpx_inv (stop_reading m M)"
proof -
  let ?op = "mask_of M m AND NOT op_read"
  have v: "mask_of M m \<in> valid_masks" using inv by (simp add: mpx_inv_def)
  have ob: "(op_read, input_mask) \<in> op_bits" by (simp add: op_bits_def)
  note eq = stop_reading_eq [OF inv i m]
  show 1: "mask_of (stop_reading m M) x = (if x = m then ?op else mask_of M x)" for x
    by (simp add: eq)
  show "mpx_inv (del i (stop_reading m M))" if "mask_of (stop_reading m M) m = op_none"
    using inv_remove [OF inv i m] that 1 [of m] by (simp add: eq del_set_events)
  show "mpx_inv (stop_reading m M)" if "mask_of (stop_reading m M) m \<noteq> op_none"
    using inv_change [OF inv i m to_bitmask_and_not(2) [OF ob v]] that 1 [of m] by (simp add: eq)
qed

lemma nth_remove_nth: "j < i \<Longrightarrow> i < length xs \<Longrightarrow> remove_nth i xs ! j = xs ! j"
  by (simp add: remove_nth_def nth_append)

text \<open>
  The loop keeps the invariant and the managers below \<open>i\<close>, and removes the read flag from all others.
\<close>

definition shut_from :: "nat \<Rightarrow> 'w multiplexer \<Rightarrow> 'w multiplexer \<Rightarrow> bool" where
  "shut_from i M M' \<longleftrightarrow>
     mpx_inv M' \<and> take i (managers M') = take i (managers M) \<and>
     (\<forall>x. mask_of M' x = (if x \<in> set (take i (managers M)) then mask_of M x else mask_of M x AND NOT op_read))"

lemma nth_notin_take: "distinct xs \<Longrightarrow> i < length xs \<Longrightarrow> xs ! i \<notin> set (take i xs)"
  using id_take_nth_drop [of i xs] by (metis distinct_append disjoint_iff list.set_intros(1))

lemma shut_from_end:
  assumes "mpx_inv M" and "\<not> i < length (managers M)"
  shows "shut_from i M M"
proof -
  have "mask_of M x AND NOT op_read = mask_of M x" if "x \<notin> set (managers M)" for x
    using mpx_inv_registered [OF assms(1), of x] that by simp
  then show ?thesis using assms by (simp add: shut_from_def)
qed

lemma shut_from_step:
  assumes inv: "mpx_inv M" and i: "i < length (managers M)" and M1: "M1 = stop_reading (managers M ! i) M"
  shows "shut_from i (del i M1) M' \<Longrightarrow> shut_from i M M'" and "shut_from (Suc i) M1 M' \<Longrightarrow> shut_from i M M'"
proof -
  note st = shutdown_step_inv(1) [OF inv i refl]
  have fresh: "managers M ! i \<notin> set (take i (managers M))"
    using inv i by (simp add: mpx_inv_def nth_notin_take)
  have "take i (managers (del i M1)) = take i (managers M)" "store (del i M1) = store M1"
    using i by (simp_all add: M1 managers_del remove_nth_def del_def)
  then show "shut_from i M M'" if "shut_from i (del i M1) M'"
    using that fresh by (simp add: shut_from_def st M1 and.assoc)
  have take: "take (Suc i) (managers M) = take i (managers M) @ [managers M ! i]"
    using i by (simp add: take_Suc_conv_app_nth)
  show "shut_from i M M'" if r: "shut_from (Suc i) M1 M'"
  proof -
    have "take i (take (Suc i) (managers M')) = take i (take (Suc i) (managers M1))"
      using r by (simp only: shut_from_def)
    then have "take i (managers M') = take i (managers M)" by (simp add: M1)
    then show ?thesis using r fresh by (simp add: shut_from_def take st M1)
  qed
qed

lemma shutdown_loop_shuts: "mpx_inv M \<Longrightarrow> shut_from i M (shutdown_loop i M)"
proof (induction i M rule: shutdown_loop.induct)
  case (1 i M)
  let ?M1 = "stop_reading (managers M ! i) M"
  show ?case
  proof (cases "i < length (managers M)")
    case True
    note st = shutdown_step_inv(2,3) [OF 1(3) True refl]
    note IH = 1(1) [OF True refl refl _ st(1)] 1(2) [OF True refl refl _ st(2)]
    show ?thesis
    proof (cases "mask_of ?M1 (managers M ! i) = op_none")
      case none: True
      then show ?thesis using shut_from_step(1) [OF 1(3) True refl IH(1)] True
        by (simp add: shutdown_loop.simps [of i M] Let_def)
    next
      case False
      then show ?thesis using shut_from_step(2) [OF 1(3) True refl IH(2)] True
        by (simp add: shutdown_loop.simps [of i M] Let_def)
    qed
  next
    case False
    then show ?thesis using shut_from_end [OF 1(3)] by (simp add: shutdown_loop.simps [of i M])
  qed
qed

lemma shutdown_loop_correct:
  assumes "mpx_inv M"
  shows "mpx_inv (shutdown_loop i M)"
    and "take i (managers (shutdown_loop i M)) = take i (managers M)"
    and "mask_of (shutdown_loop i M) x
      = (if x \<in> set (take i (managers M)) then mask_of M x else mask_of M x AND NOT op_read)"
  using shutdown_loop_shuts [OF assms, of i] by (simp_all add: shut_from_def)

lemma close_pipe_frame:
  "pollset (close_pipe E M) = pollset M" "managers (close_pipe E M) = managers M"
  "store (close_pipe E M) = store M" "write_handle (close_pipe E M) = invalid_socket"
  by (simp_all add: close_pipe_def)

lemma close_pipe_inv: "mpx_inv (close_pipe E M) = mpx_inv M"
  by (rule mpx_inv_cong) (rule close_pipe_frame)+

lemma write_to_pipe_inv: "mpx_inv (write_to_pipe E opc m M) = mpx_inv M"
  by (rule mpx_inv_cong) (rule write_to_pipe_frame store_write_to_pipe)+

lemma mpx_shutdown_inv [inv_intros]:
  assumes "mpx_inv M"
  shows "mpx_inv (mpx_shutdown E self M)"
proof (cases "self = tid M")
  case True
  have "mpx_inv (M\<lparr>shutting_down := True\<rparr>)" using assms mpx_inv_cong [of "M\<lparr>shutting_down := True\<rparr>" M] by simp
  note sl = shutdown_loop_correct(1) [OF this, of 1]
  show ?thesis
    using True sl by (simp add: mpx_shutdown_def close_pipe_inv)
next
  case False
  then show ?thesis
    using assms by (simp add: mpx_shutdown_def write_to_pipe_inv)
qed

section \<open>Event handling\<close>

text \<open>
  What an event handler may do to the multiplexer: register managers that were not registered before
  (an acceptor does so for new connections), and leave the registrations of all others alone.
\<close>

definition grows :: "'w multiplexer \<Rightarrow> 'w multiplexer \<Rightarrow> bool" where
  "grows M M' \<longleftrightarrow>
     (\<exists>ms. managers M' = managers M @ ms \<and>
        map view (pollset M') = map view (pollset M) @ map (entry_of M') ms \<and>
        distinct ms \<and> set ms \<inter> set (managers M) = {} \<and>
        (\<forall>m. m \<notin> set ms \<longrightarrow> mask_of M' m = mask_of M m \<and> sm_handle (store M' m) = sm_handle (store M m)) \<and>
        (\<forall>m \<in> set ms. mask_of M' m \<in> valid_masks \<and> mask_of M' m \<noteq> op_none \<and> mask_of M m = op_none))"

definition steady_handlers :: "'w mpx_env \<Rightarrow> bool" where
  "steady_handlers E \<longleftrightarrow>
     (\<forall>m M. grows M (fst (handle_read_event E m M)) \<and> grows M (fst (handle_write_event E m M)) \<and>
            (\<forall>code. grows M (handle_error E m code M)))"

text \<open>
  The state while the handlers of manager \<open>m\<close> at index \<open>i\<close> run: its entry in the pollset is out of
  date and has to be removed or updated according to the mask.
\<close>

definition settles :: "nat \<Rightarrow> mgr \<Rightarrow> 'w multiplexer \<Rightarrow> bool" where
  "settles i m M \<longleftrightarrow>
     i < length (managers M) \<and> managers M ! i = m \<and> length (pollset M) = length (managers M) \<and>
     distinct (managers M) \<and>
     (\<forall>x. mask_of M x \<in> valid_masks) \<and> (\<forall>x. x \<noteq> m \<longrightarrow> (mask_of M x \<noteq> op_none \<longleftrightarrow> x \<in> set (managers M))) \<and>
     (\<forall>j < length (managers M). fd (pollset M ! j) = sm_handle (store M (managers M ! j))) \<and>
     (\<forall>j < length (managers M). j \<noteq> i \<longrightarrow> events (pollset M ! j) = to_bitmask (mask_of M (managers M ! j)))"

lemma inv_settles:
  assumes "mpx_inv M" and "i < length (managers M)"
  shows "settles i (managers M ! i) M"
  using assms mpx_inv_length [OF assms(1)] mpx_inv_fd [OF assms(1)] mpx_inv_events [OF assms(1)]
  unfolding settles_def mpx_inv_def by auto

lemma settles_update:
  assumes st: "settles i m M" and some: "mask_of M m \<noteq> op_none"
  shows "mpx_inv (set_events i (to_bitmask (mask_of M m)) M)"
proof -
  note st' = st [unfolded settles_def]
  have "map view (pollset (set_events i (to_bitmask (mask_of M m)) M)) = map (entry_of M) (managers M)"
  proof (rule nth_equalityI)
    fix j assume "j < length (map view (pollset (set_events i (to_bitmask (mask_of M m)) M)))"
    then have "j < length (managers M)" using st' by (simp add: set_events_def)
    then show "map view (pollset (set_events i (to_bitmask (mask_of M m)) M)) ! j = map (entry_of M) (managers M) ! j"
      using st' by (cases "j = i") (auto simp: set_events_def view_def entry_of_def)
  qed (use st' in \<open>simp add: set_events_def\<close>)
  moreover have "m \<in> set (managers M)" using st' by (metis nth_mem)
  then have "mask_of M x \<noteq> op_none \<longleftrightarrow> x \<in> set (managers M)" for x
    using st' some by (cases "x = m") blast+
  ultimately show ?thesis
    using st' by (simp add: mpx_inv_def)
qed

lemma settles_keep:
  assumes st: "settles i m M" and some: "mask_of M m \<noteq> op_none"
    and ev: "events (pollset M ! i) = to_bitmask (mask_of M m)"
  shows "mpx_inv M"
proof -
  have "set_events i (events (pollset M ! i)) M = M"
    using st by (simp add: set_events_def settles_def)
  then show ?thesis using settles_update [OF st some] ev by simp
qed

lemma settles_delete:
  assumes st: "settles i m M" and none: "mask_of M m = op_none"
  shows "mpx_inv (del i M)"
proof -
  note st' = st [unfolded settles_def]
  have i: "i < length (managers M)" using st' by simp
  have d: "distinct (managers M)" using st' by simp
  have s: "set (remove_nth i (managers M)) = set (managers M) - {m}"
    using set_remove_nth [OF d i] st' by simp
  have "map view (remove_nth i (pollset M)) = map (entry_of M) (remove_nth i (managers M))"
  proof (rule nth_equalityI)
    fix j assume "j < length (map view (remove_nth i (pollset M)))"
    then have "j < length (managers M) - 1" using st' by (simp add: length_remove_nth)
    then show "map view (remove_nth i (pollset M)) ! j = map (entry_of M) (remove_nth i (managers M)) ! j"
      using st' by (simp add: remove_nth_def nth_append view_def entry_of_def min_def)
  qed (use st' in \<open>simp add: length_remove_nth\<close>)
  moreover have "entry_of (del i M) = entry_of M" by (simp add: entry_of_def del_def fun_eq_iff)
  moreover have "mask_of (del i M) x = mask_of M x" for x by (simp add: del_def)
  moreover have "mask_of M x \<noteq> op_none \<longleftrightarrow> x \<in> set (remove_nth i (managers M))" for x
    unfolding s using st' none by (cases "x = m") auto
  ultimately show ?thesis
    using st' distinct_remove_nth [OF d] by (simp add: mpx_inv_def managers_del del_def)
qed

lemma grows_nth:
  assumes g: "grows M M'" and len: "length (pollset M) = length (managers M)"
  shows "length (pollset M') = length (managers M')"
    and "j < length (managers M) \<Longrightarrow> managers M' ! j = managers M ! j \<and> view (pollset M' ! j) = view (pollset M ! j)"
    and "length (managers M) \<le> j \<Longrightarrow> j < length (managers M') \<Longrightarrow>
      view (pollset M' ! j) = entry_of M' (managers M' ! j)"
    and "length (managers M) \<le> length (managers M')"
proof -
  obtain ms where ms: "managers M' = managers M @ ms"
    "map view (pollset M') = map view (pollset M) @ map (entry_of M') ms"
    using g unfolding grows_def by blast
  show l: "length (pollset M') = length (managers M')"
    using arg_cong [OF ms(2), of length] ms(1) len by simp
  show "length (managers M) \<le> length (managers M')" using ms(1) by simp
  have n: "view (pollset M' ! j) = (map view (pollset M) @ map (entry_of M') ms) ! j"
    if "j < length (managers M')" for j
    using arg_cong [OF ms(2), of "\<lambda>xs. xs ! j"] that l by simp
  show "managers M' ! j = managers M ! j \<and> view (pollset M' ! j) = view (pollset M ! j)"
    if "j < length (managers M)"
    using n [of j] that ms(1) len by (simp add: nth_append)
  show "view (pollset M' ! j) = entry_of M' (managers M' ! j)"
    if "length (managers M) \<le> j" "j < length (managers M')"
    using n [OF that(2)] that ms(1) len by (simp add: nth_append)
qed

lemma grows_masks:
  assumes "grows M M'"
  shows "m \<in> set (managers M) \<Longrightarrow> mask_of M' m = mask_of M m \<and> sm_handle (store M' m) = sm_handle (store M m)"
    and "(\<And>x. mask_of M x \<in> valid_masks) \<Longrightarrow> mask_of M' x \<in> valid_masks"
    and "(mask_of M x \<noteq> op_none \<longleftrightarrow> x \<in> set (managers M)) \<Longrightarrow>
         (mask_of M' x \<noteq> op_none \<longleftrightarrow> x \<in> set (managers M'))"
    and "distinct (managers M) \<Longrightarrow> distinct (managers M')"
  using assms unfolding grows_def by (auto; metis disjoint_iff)+

lemma grows_settles:
  assumes g: "grows M M'" and st: "settles i m M"
  shows "settles i m M'" "mask_of M' m = mask_of M m" "events (pollset M' ! i) = events (pollset M ! i)"
proof -
  note st' = st [unfolded settles_def]
  have len: "length (pollset M) = length (managers M)" using st' by simp
  note n = grows_nth [OF g len]
  have mem: "managers M ! j \<in> set (managers M)" if "j < length (managers M)" for j
    using that by (rule nth_mem)
  have "m \<in> set (managers M)" using st' mem by blast
  then show mm: "mask_of M' m = mask_of M m" using grows_masks(1) [OF g] by blast
  show "events (pollset M' ! i) = events (pollset M ! i)"
    using n(2) [of i] st' by (simp add: view_def)
  have fdev: "fd (pollset M' ! j) = sm_handle (store M' (managers M' ! j)) \<and>
      (j \<noteq> i \<longrightarrow> events (pollset M' ! j) = to_bitmask (mask_of M' (managers M' ! j)))"
    if "j < length (managers M')" for j
  proof (cases "j < length (managers M)")
    case True
    then show ?thesis
      using n(2) [OF True] grows_masks(1) [OF g mem [OF True]] st' by (simp add: view_def)
  next
    case False
    then show ?thesis using n(3) [of j] that by (simp add: view_def entry_of_def)
  qed
  have "\<forall>x. mask_of M x \<in> valid_masks" using st' by blast
  then have "\<forall>x. mask_of M' x \<in> valid_masks" using grows_masks(2) [OF g] by blast
  moreover have "\<forall>x. x \<noteq> m \<longrightarrow> (mask_of M' x \<noteq> op_none \<longleftrightarrow> x \<in> set (managers M'))"
    using grows_masks(3) [OF g] st' by blast
  moreover have "distinct (managers M')" using grows_masks(4) [OF g] st' by blast
  moreover have "managers M' ! i = m" "i < length (managers M')" using n(2) [of i] n(4) st' by simp_all
  ultimately show "settles i m M'"
    using fdev n(1) unfolding settles_def by blast
qed

lemma mask_del_eq:
  assumes "mask_of M m \<in> valid_masks" and "(op, bits) \<in> op_bits"
  shows "fst (mask_del op m M) = set_mask m (mask_of M m AND NOT op) M"
  using to_bitmask_and_not(3) [OF assms(2,1)] by (simp add: mask_del_def Let_def set_mask_same)

lemma mask_del_all:
  assumes "mask_of M m \<in> valid_masks"
  shows "fst (mask_del op_read_write m M) = set_mask m op_none M"
proof -
  have "x AND 3 = 0 \<longleftrightarrow> x = 0" "x AND NOT 3 = 0" if "x \<in> valid_masks" for x :: operation
    using that unfolding valid_masks_def by (elim insertE emptyE; simp)+
  then show ?thesis
    using assms set_mask_same [of m M] by (cases "mask_of M m = 0") (simp_all add: mask_del_def Let_def)
qed

lemma settles_set_mask:
  assumes "settles i m M" and "op \<in> valid_masks"
  shows "settles i m (set_mask m op M)"
proof -
  note st = assms(1) [unfolded settles_def]
  have "managers M ! j \<noteq> m" if "j < length (managers M)" "j \<noteq> i" for j
    using st that nth_eq_iff_index_eq by blast
  moreover have "sm_handle (store (set_mask m op M) x) = sm_handle (store M x)" for x
    by (simp add: set_mask_def)
  ultimately show ?thesis
    using st assms(2) by (simp add: settles_def)
qed

text \<open>One handler of \<open>handle_event\<close>: run it, and on \<open>false\<close> clear its operation.\<close>

lemma handler_settles:
  assumes st: "settles i m M" and g: "grows M M1" and ob: "(op, bits) \<in> op_bits"
    and ev: "ev = to_bitmask (mask_of M m)"
    and r: "(M2, ev2) = (if again then (M1, ev) else (fst (mask_del op m M1), ev AND NOT bits))"
  shows "settles i m M2" "ev2 = to_bitmask (mask_of M2 m)" "events (pollset M2 ! i) = events (pollset M ! i)"
proof -
  note gs = grows_settles [OF g st]
  have v: "mask_of M1 m \<in> valid_masks" using gs(1) by (simp add: settles_def)
  note tb = to_bitmask_and_not [OF ob v]
  note me = mask_del_eq [OF v ob]
  show "settles i m M2"
    using r gs(1) settles_set_mask [OF gs(1) tb(2)] me by (auto split: if_splits)
  show "ev2 = to_bitmask (mask_of M2 m)"
    using r gs(2) ev tb(1) me by (auto split: if_splits)
  show "events (pollset M2 ! i) = events (pollset M ! i)"
    using r gs(3) me by (auto split: if_splits)
qed

lemma error_settles:
  assumes E: "steady_handlers E" and st: "settles i m M" and M': "M' = fst (mask_del op_read_write m (handle_error E m code M))"
  shows "settles i m M'" "to_bitmask (mask_of M' m) = 0" "events (pollset M' ! i) = events (pollset M ! i)"
proof -
  let ?Me = "handle_error E m code M"
  have "grows M ?Me" using E unfolding steady_handlers_def by blast
  note gs = grows_settles [OF this st]
  have v: "mask_of ?Me m \<in> valid_masks" using gs(1) by (simp add: settles_def)
  have eq: "M' = set_mask m op_none ?Me" by (simp add: M' mask_del_all [OF v])
  show "settles i m M'" "to_bitmask (mask_of M' m) = 0" "events (pollset M' ! i) = events (pollset M ! i)"
    using settles_set_mask [OF gs(1), of op_none] gs(3) by (simp_all add: eq valid_masks_def to_bitmask_def)
qed

lemma handle_event_settles:
  assumes E: "steady_handlers E" and st: "settles i m M" and ev: "ev = to_bitmask (mask_of M m)"
    and r: "handle_event E m ev rv M = (M', ev')"
  shows "settles i m M'" "ev' = to_bitmask (mask_of M' m)" "events (pollset M' ! i) = events (pollset M ! i)"
proof -
  have ob: "(op_read, input_mask) \<in> op_bits" "(op_write, output_mask) \<in> op_bits"
    by (simp_all add: op_bits_def)
  obtain Ma a where ha: "handle_read_event E m M = (Ma, a)" by (cases "handle_read_event E m M")
  obtain M1 ev1 where 1: "(M1, ev1) =
      (if rv AND input_mask \<noteq> 0
       then if a then (Ma, ev) else (fst (mask_del op_read m Ma), ev AND NOT input_mask) else (M, ev))"
    by (metis surj_pair)
  have ga: "grows M Ma" using E ha unfolding steady_handlers_def by (metis fst_conv)
  have s1: "settles i m M1 \<and> ev1 = to_bitmask (mask_of M1 m) \<and> events (pollset M1 ! i) = events (pollset M ! i)"
    using handler_settles [OF st ga ob(1) ev, of M1 ev1 a] 1 st ev by (cases "rv AND input_mask = 0") auto
  obtain Mb b where hb: "handle_write_event E m M1 = (Mb, b)" by (cases "handle_write_event E m M1")
  obtain M2 ev2 where 2: "(M2, ev2) =
      (if rv AND output_mask \<noteq> 0
       then if b then (Mb, ev1) else (fst (mask_del op_write m Mb), ev1 AND NOT output_mask) else (M1, ev1))"
    by (metis surj_pair)
  have gb: "grows M1 Mb" using E hb unfolding steady_handlers_def by (metis fst_conv)
  have s2: "settles i m M2 \<and> ev2 = to_bitmask (mask_of M2 m) \<and> events (pollset M2 ! i) = events (pollset M ! i)"
    using handler_settles [of i m M1, OF _ gb ob(2), of ev1 M2 ev2 b] 2 s1
    by (cases "rv AND output_mask = 0") auto
  have step: "handle_event E m ev rv M =
     (if (rv AND input_mask = 0 \<and> rv AND output_mask = 0) \<and> rv AND error_mask \<noteq> 0 then
        (fst (mask_del op_read_write m (handle_error E m
           (if rv AND POLLNVAL \<noteq> 0 then sec_socket_invalid
            else if rv AND POLLHUP \<noteq> 0 then sec_socket_disconnected
            else sec_socket_operation_failed) M2)), 0)
      else (M2, ev2))"
    unfolding handle_event_def ha Let_def prod.case 1 [symmetric] hb 2 [symmetric] ..
  show "settles i m M'" "ev' = to_bitmask (mask_of M' m)" "events (pollset M' ! i) = events (pollset M ! i)"
    using r s2 error_settles [OF E conjunct1 [OF s2] refl] unfolding step by (auto split: if_splits)
qed

text \<open>The scan over the pollset stays in range and keeps the invariant.\<close>

lemma handle_event_entry:
  assumes E: "steady_handlers E" and inv: "mpx_inv M" and i: "i < length (pollset M)"
    and h: "handle_event E (managers M ! i) (events (pollset M ! i)) rv M = (M1, ev1)"
  shows "i < length (pollset M1)" and "ev1 = 0 \<Longrightarrow> mpx_inv (del i M1)"
    and "ev1 \<noteq> 0 \<Longrightarrow> mpx_inv (set_events i ev1 M1)" and "ev1 \<noteq> 0 \<Longrightarrow> ev1 = events (pollset M ! i) \<Longrightarrow> mpx_inv M1"
proof -
  have i': "i < length (managers M)" using i mpx_inv_length [OF inv] by simp
  note hs = handle_event_settles [OF E inv_settles [OF inv i'] mpx_inv_events [OF inv i'] h]
  have v: "mask_of M1 (managers M ! i) \<in> valid_masks" and "i < length (pollset M1)"
    using hs(1) by (simp_all add: settles_def)
  then show "i < length (pollset M1)" by simp
  have z: "ev1 = 0 \<longleftrightarrow> mask_of M1 (managers M ! i) = op_none" using hs(2) to_bitmask_zero [OF v] by simp
  show "mpx_inv (del i M1)" if "ev1 = 0" using settles_delete [OF hs(1)] z that by simp
  show "mpx_inv (set_events i ev1 M1)" if "ev1 \<noteq> 0" using settles_update [OF hs(1)] z that hs(2) by simp
  show "mpx_inv M1" if "ev1 \<noteq> 0" "ev1 = events (pollset M ! i)" using settles_keep [OF hs(1)] z that hs(2,3) by simp
qed

lemma scan_pollset_inv:
  "steady_handlers E \<Longrightarrow> mpx_inv M \<Longrightarrow> \<exists>M'. scan_pollset E i n M = Some M' \<and> mpx_inv M'"
proof (induction E i n M rule: scan_pollset.induct)
  case (1 E i n M)
  note inv = 1(6) and E = 1(5)
  show ?case
  proof (cases "i < length (pollset M) \<and> n > 0")
    case False
    then have "scan_pollset E i n M = Some M" by (subst scan_pollset.simps) auto
    then show ?thesis using inv by simp
  next
    case run: True
    show ?thesis
    proof (cases "revents (pollset M ! i) \<noteq> 0")
      case False
      have "scan_pollset E i n M = scan_pollset E (Suc i) n M"
        using run False by (subst scan_pollset.simps) simp
      then show ?thesis using 1(4) [OF run False E inv] by simp
    next
      case True
      let ?m = "managers M ! i" and ?ev = "events (pollset M ! i)" and ?rv = "revents (pollset M ! i)"
      obtain M1 ev1 where h: "handle_event E ?m ?ev ?rv M = (M1, ev1)"
        by (cases "handle_event E ?m ?ev ?rv M")
      note entry = handle_event_entry [OF E inv conjunct1 [OF run] h]
      note len = entry(1)
      have step: "scan_pollset E i n M =
          (if ev1 = 0 then scan_pollset E i (n - 1) (del i M1)
           else if ev1 \<noteq> ?ev then scan_pollset E (Suc i) (n - 1) (set_events i ev1 M1)
           else scan_pollset E (Suc i) (n - 1) M1)"
        using run True h len by (subst scan_pollset.simps) (simp add: Let_def)
      note IH = "1.IH"(1) [OF run True refl h [symmetric] refl _ len E entry(2)]
        "1.IH"(2) [OF run True refl h [symmetric] refl _ _ len E entry(3)]
        "1.IH"(3) [OF run True refl h [symmetric] refl _ _ E entry(4)]
      show ?thesis using IH unfolding step by (cases "ev1 = 0"; cases "ev1 = ?ev") simp_all
    qed
  qed
qed

text \<open>\<open>poll\<close> fills in one \<open>revents\<close> field per entry.\<close>

definition polls_well :: "'w mpx_env \<Rightarrow> bool" where
  "polls_well E \<longleftrightarrow>
     (\<forall>ps b w w' n rs. poll_sockets E ps b w = (w', Poll_ready n rs) \<longrightarrow> length rs = length ps)"

lemma set_revents_inv:
  assumes "length rs = length (pollset M)"
  shows "mpx_inv (set_revents rs M) = mpx_inv M"
proof -
  have "map view (pollset (set_revents rs M)) = map view (pollset M)"
    using assms by (intro nth_equalityI) (auto simp: set_revents_def view_def)
  moreover have "entry_of (set_revents rs M) = entry_of M"
    by (simp add: entry_of_def set_revents_def fun_eq_iff)
  ultimately show ?thesis by (simp add: mpx_inv_def) (simp add: set_revents_def)
qed

lemma poll_loop_inv:
  assumes E: "steady_handlers E" "polls_well E"
  shows "poll_loop E b M = Some r \<Longrightarrow> mpx_inv M \<Longrightarrow> (r = Polled M' res \<Longrightarrow> mpx_inv M')"
proof -
  have "mpx_inv M \<longrightarrow> (\<forall>M' res. r = Polled M' res \<longrightarrow> mpx_inv M')" if "poll_loop E b M = Some r" for M r
    using that E
  proof (induction E b M r rule: poll_loop.raw_induct)
    case (1 pl E b M r)
    obtain w q where q: "poll_sockets E (pollset M) b (world M) = (w, q)"
      by (cases "poll_sockets E (pollset M) b (world M)")
    have w: "mpx_inv (M\<lparr>world := w\<rparr>) = mpx_inv M" by (rule mpx_inv_cong) simp_all
    show ?case
    proof (cases q)
      case (Poll_ready n rs)
      have "length rs = length (pollset (M\<lparr>world := w\<rparr>))"
        using 1(5) q Poll_ready unfolding polls_well_def by auto
      note sr = set_revents_inv [OF this]
      have "\<exists>M'. scan_pollset E 0 n (set_revents rs (M\<lparr>world := w\<rparr>)) = Some M' \<and> mpx_inv M'" if "mpx_inv M"
        using scan_pollset_inv [OF 1(4)] sr w that by blast
      then show ?thesis using 1(2,3) q Poll_ready by auto
    qed (use 1 q w poll_loop.simps [of E b M] in auto)
  qed (rule that)
  then show "poll_loop E b M = Some r \<Longrightarrow> mpx_inv M \<Longrightarrow> (r = Polled M' res \<Longrightarrow> mpx_inv M')" by blast
qed

lemma poll_once_inv:
  assumes "steady_handlers E" "polls_well E" and "mpx_inv M" and "poll_once E b M = Some (Polled M' res)"
  shows "mpx_inv M'"
  using assms poll_loop_inv [OF assms(1,2)] by (auto simp: poll_once_def split: if_splits)

end
