(* ===== verification/Pollset_Updater.thy ===== *)
theory Pollset_Updater
  imports Multiplexer_Inv
begin

text \<open>
  The path of a request from another thread: \<open>write_to_pipe\<close> puts nine bytes into the pipe,
  \<open>pollset_updater::handle_read_event\<close> reassembles and executes it in the thread of the multiplexer.
\<close>

section \<open>The pipe\<close>

text \<open>
  What POSIX promises for the read end of a non-blocking pipe: the bytes in order, in chunks of any
  size, then a temporary error or the end of the stream. \<open>data\<close> is the ghost of the unread bytes.
  Neither closing the write end nor initializing a manager takes bytes out of the pipe.
\<close>

definition pipe_sound :: "'w mpx_env \<Rightarrow> ('w \<Rightarrow> byte list) \<Rightarrow> bool" where
  "pipe_sound E data \<longleftrightarrow>
     (\<forall>n w. 0 < n \<longrightarrow>
        (case pipe_read E n w of
           (w', Read_some bs) \<Rightarrow> bs \<noteq> [] \<and> length bs \<le> n \<and> data w = bs @ data w'
         | (w', Read_closed) \<Rightarrow> data w = []
         | (w', Read_failed temporary) \<Rightarrow> data w = [])) \<and>
     (\<forall>h w. data (close_socket E h w) = data w) \<and>
     (\<forall>m M. data (world (fst (manager_init E m M))) = data (world M) \<and>
            updater_buf (fst (manager_init E m M)) = updater_buf M \<and>
            tid (fst (manager_init E m M)) = tid M)"

text \<open>The requests are executed in order, with reads from the pipe in between.\<close>

inductive executes ::
  "'w mpx_env \<Rightarrow> nat \<Rightarrow> (u8 \<times> mgr) list \<Rightarrow> 'w multiplexer \<Rightarrow> 'w multiplexer \<Rightarrow> bool" where
  finished: "executes E self [] M (M\<lparr>world := w, updater_buf := b\<rparr>)"
| request: "executes E self reqs (run_request E self opc m (M\<lparr>world := w, updater_buf := b\<rparr>)) M' \<Longrightarrow>
    executes E self ((opc, m) # reqs) M M'"

definition request_bytes :: "(u8 \<times> mgr) list \<Rightarrow> byte list" where
  "request_bytes reqs = concat (map (\<lambda>(opc, m). pipe_message opc m) reqs)"

lemma length_pipe_message [simp]: "length (pipe_message opc m) = 9"
  by (simp add: pipe_message_def)

lemma decode_pipe_message:
  "hd (pipe_message opc m) = opc" "from_net64 (rev (tl (pipe_message opc m))) = m"
  by (simp_all add: pipe_message_def)

section \<open>Execution\<close>

lemma world_frame:
  "world (set_mask m op M) = world M" "updater_buf (set_mask m op M) = updater_buf M"
  "tid (set_mask m op M) = tid M" "world (set_events i ev M) = world M"
  "updater_buf (set_events i ev M) = updater_buf M" "tid (set_events i ev M) = tid M"
  "world (add_mgr m M) = world M" "updater_buf (add_mgr m M) = updater_buf M"
  "tid (add_mgr m M) = tid M" "world (del i M) = world M" "updater_buf (del i M) = updater_buf M"
  "tid (del i M) = tid M"
  by (simp_all add: set_mask_def set_events_def add_mgr_def del_def)

lemma register_op_frame:
  assumes "self = tid M"
  shows "world (register_op E op bits code self m M) = world M"
    "updater_buf (register_op E op bits code self m M) = updater_buf M"
    "tid (register_op E op bits code self m M) = tid M"
  using assms
  by (auto simp: register_op_def mask_add_def Let_def world_frame split: option.split)

lemma stop_reading_frame:
  "world (stop_reading m M) = world M" "updater_buf (stop_reading m M) = updater_buf M"
  "tid (stop_reading m M) = tid M"
  by (auto simp: stop_reading_def mask_del_def Let_def world_frame split: option.split)

lemma shutdown_loop_frame:
  "world (shutdown_loop i M) = world M \<and> updater_buf (shutdown_loop i M) = updater_buf M \<and>
   tid (shutdown_loop i M) = tid M"
proof (induction i M rule: shutdown_loop.induct)
  case (1 i M)
  then show ?case
    by (subst (1 2 3) shutdown_loop.simps) (simp add: Let_def world_frame stop_reading_frame)
qed

lemma shutdown_loop_down: "shutting_down (shutdown_loop i M) = shutting_down M"
proof (induction i M rule: shutdown_loop.induct)
  case (1 i M)
  have "shutting_down (stop_reading m M) = shutting_down M" "shutting_down (del i M) = shutting_down M"
    for m i and M :: "'a multiplexer"
    by (auto simp: stop_reading_def mask_del_def set_mask_def set_events_def del_def Let_def
        split: option.split)
  with 1 show ?case by (subst shutdown_loop.simps) (simp add: Let_def)
qed

lemma run_request_frame:
  assumes "pipe_sound E data" and "self = tid M"
  shows "data (world (run_request E self opc m M)) = data (world M)"
    "updater_buf (run_request E self opc m M) = updater_buf M"
    "tid (run_request E self opc m M) = tid M"
proof -
  have c: "\<And>h w. data (close_socket E h w) = data w"
    and i: "\<And>m M. data (world (fst (manager_init E m M))) = data (world M) \<and>
            updater_buf (fst (manager_init E m M)) = updater_buf M \<and>
            tid (fst (manager_init E m M)) = tid M"
    using assms(1) unfolding pipe_sound_def by blast+
  show "data (world (run_request E self opc m M)) = data (world M)"
    "updater_buf (run_request E self opc m M) = updater_buf M"
    "tid (run_request E self opc m M) = tid M"
    using assms(2) shutdown_loop_frame [of 1 "M\<lparr>shutting_down := True\<rparr>"]
    by (simp_all add: run_request_def Let_def mpx_register_reading_def mpx_register_writing_def
        register_op_frame mpx_init_manager_def mpx_shutdown_def close_pipe_def c i)
qed

lemma pipe_read_cases:
  assumes "pipe_sound E data" and "0 < n"
  obtains (Some) w' bs where "pipe_read E n w = (w', Read_some bs)" "bs \<noteq> []" "length bs \<le> n" "data w = bs @ data w'"
  | (Closed) w' where "pipe_read E n w = (w', Read_closed)" "data w = []"
  | (Failed) w' t where "pipe_read E n w = (w', Read_failed t)" "data w = []"
proof -
  obtain w' r where r: "pipe_read E n w = (w', r)" by (cases "pipe_read E n w")
  have "case pipe_read E n w of
           (w', Read_some bs) \<Rightarrow> bs \<noteq> [] \<and> length bs \<le> n \<and> data w = bs @ data w'
         | (w', Read_closed) \<Rightarrow> data w = []
         | (w', Read_failed temporary) \<Rightarrow> data w = []"
    by (rule assms(1) [unfolded pipe_sound_def, THEN conjunct1, rule_format, OF assms(2)])
  with r show ?thesis by (cases r) (auto intro: that)
qed

lemma length_request_bytes: "reqs \<noteq> [] \<Longrightarrow> 9 \<le> length (request_bytes reqs)"
  by (cases reqs) (auto simp: request_bytes_def)

text \<open>One read of the updater: it completes a request, keeps an incomplete one, or finds no more bytes.\<close>

lemma updater_read_more:
  assumes "pipe_read E (9 - length (updater_buf M)) (world M) = (w', Read_some bs)"
  shows "length (updater_buf M @ bs) \<noteq> 9 \<Longrightarrow>
      updater_read E self M = updater_read E self (M\<lparr>world := w', updater_buf := updater_buf M @ bs\<rparr>)"
    and "updater_buf M @ bs = pipe_message opc m \<Longrightarrow>
      updater_read E self M = updater_read E self (run_request E self opc m (M\<lparr>world := w', updater_buf := []\<rparr>))"
proof -
  show "updater_read E self M = updater_read E self (M\<lparr>world := w', updater_buf := updater_buf M @ bs\<rparr>)"
    if "length (updater_buf M @ bs) \<noteq> 9"
    using assms that by (subst updater_read.simps) simp
  show "updater_read E self M = updater_read E self (run_request E self opc m (M\<lparr>world := w', updater_buf := []\<rparr>))"
    if b: "updater_buf M @ bs = pipe_message opc m"
  proof -
    have "length (updater_buf M) + length bs = 9" using arg_cong [OF b, of length] by simp
    then show ?thesis using assms b decode_pipe_message [of opc m] by (subst updater_read.simps) simp
  qed
qed

lemma first_request:
  assumes "bs @ rest = request_bytes reqs" and "length bs = 9"
  obtains opc m qs where "reqs = (opc, m) # qs" "bs = pipe_message opc m" "rest = request_bytes qs"
proof -
  obtain opc m qs where reqs: "reqs = (opc, m) # qs"
    using assms by (cases reqs) (auto simp: request_bytes_def)
  then have "bs @ rest = pipe_message opc m @ request_bytes qs" using assms(1) by (simp add: request_bytes_def)
  then have "bs = pipe_message opc m" "rest = request_bytes qs"
    using assms(2) by (metis append_eq_append_conv length_pipe_message)+
  with reqs show ?thesis by (rule that)
qed

text \<open>All requests in the pipe are executed, in whatever chunks the bytes arrive.\<close>

lemma updater_executes:
  assumes E: "pipe_sound E data"
  shows "updater_buf M @ data (world M) = request_bytes reqs \<Longrightarrow> length (updater_buf M) < 9 \<Longrightarrow>
    self = tid M \<Longrightarrow>
    \<exists>M' again. updater_read E self M = Some (M', again) \<and> executes E self reqs M M'"
proof (induction "length (data (world M))" arbitrary: M reqs rule: less_induct)
  case less
  have pos: "0 < 9 - length (updater_buf M)" using less.prems(2) by simp
  have "reqs = []" if "data (world M) = []"
    using length_request_bytes [of reqs] less.prems(1,2) that by (metis append_Nil2 not_less)
  then have empty: "executes E self reqs M (M\<lparr>world := w', updater_buf := updater_buf M\<rparr>)"
    if "data (world M) = []" for w' using that finished by metis
  from E pos show ?case
  proof (cases rule: pipe_read_cases [where w = "world M"])
    case (Some w' bs)
    let ?buf = "updater_buf M @ bs"
    have shorter: "length (data w') < length (data (world M))" using Some by simp
    have bytes: "?buf @ data w' = request_bytes reqs" using less.prems(1) Some by simp
    show ?thesis
    proof (cases "length ?buf = 9")
      case False
      let ?M = "M\<lparr>world := w', updater_buf := ?buf\<rparr>"
      have "length ?buf < 9" using Some(3) less.prems(2) False by simp
      then obtain M' again where r: "updater_read E self ?M = Some (M', again)" "executes E self reqs ?M M'"
        using less.hyps [of ?M reqs] shorter bytes less.prems(3) by auto
      have "executes E self reqs M M'"
        using r(2) by (cases rule: executes.cases) (auto intro: executes.intros)
      then show ?thesis using r(1) updater_read_more(1) [OF Some(1) False, of self] by simp
    next
      case True
      from bytes True obtain opc m qs
        where q: "reqs = (opc, m) # qs" "?buf = pipe_message opc m" "data w' = request_bytes qs" by (rule first_request)
      let ?Start = "M\<lparr>world := w', updater_buf := []\<rparr>"
      let ?M = "run_request E self opc m ?Start"
      have fr: "data (world ?M) = data w'" "updater_buf ?M = []" "tid ?M = self"
        using run_request_frame [OF E, of self ?Start opc m] less.prems(3) by simp_all
      obtain M' again where r: "updater_read E self ?M = Some (M', again)" "executes E self qs ?M M'"
        using less.hyps [of ?M qs] shorter fr q(3) by auto
      then show ?thesis
        using request [OF r(2)] updater_read_more(2) [OF Some(1) q(2), of self] q(1) by simp
    qed
  qed (use empty in \<open>subst updater_read.simps, auto\<close>)+
qed

section \<open>A concrete multiplexer\<close>

text \<open>
  For witnesses: the world is the list of bytes in the pipe, which \<open>poll\<close> reports as the only
  activity, always on the first socket.
\<close>

definition pipe_env :: "byte list mpx_env" where
  "pipe_env =
     \<lparr>handle_read_event = (\<lambda>m M. (M, False)),
      handle_write_event = (\<lambda>m M. (M, False)),
      handle_error = (\<lambda>m c M. M),
      manager_init = (\<lambda>m M. (M, None)),
      pipe_write = (\<lambda>h bs w. (w @ bs, int (length bs))),
      pipe_read = (\<lambda>n w. if w = [] \<or> n = 0 then (w, if w = [] then Read_failed True else Read_closed)
                         else (drop (min n 2) w, Read_some (take (min n 2) w))),
      pipe_open = (\<lambda>w. (w, Inr (3, 4))),
      pipe_nonblocking = (\<lambda>h w. (w, None)),
      close_socket = (\<lambda>h w. w),
      poll_sockets = (\<lambda>ps b w. (w, Poll_ready 1 (map (\<lambda>i. if i = 0 then POLLIN else 0) [0..<length ps])))\<rparr>"

definition idle_manager :: "int \<Rightarrow> socket_manager" where
  "idle_manager h = \<lparr>sm_handle = h, sm_mask = op_none, sm_abort_reason = None\<rparr>"

definition sample_mpx :: "byte list multiplexer" where
  "sample_mpx = fst (mpx_init pipe_env 1 (multiplexer_new (\<lambda>m. idle_manager (int (unat m))) []))"

lemma grows_refl: "grows M M"
  by (simp add: grows_def)

lemma pipe_env_steady: "steady_handlers pipe_env" "polls_well pipe_env"
  by (simp_all add: steady_handlers_def polls_well_def pipe_env_def grows_refl)

lemma pipe_env_sound: "pipe_sound pipe_env id"
proof -
  have "1 \<le> n \<Longrightarrow> w \<noteq> [] \<Longrightarrow> take (min n 2) w \<noteq> []" for n and w :: "byte list"
    by (cases w) (auto simp: min_def)
  then show ?thesis
    by (auto simp: pipe_sound_def pipe_env_def split: if_splits)
qed

lemma sample_mpx_fields:
  "pollset sample_mpx = [\<lparr>fd = 3, events = input_mask, revents = 0\<rparr>]" "managers sample_mpx = [1]"
  "mask_of sample_mpx m = (if m = 1 then op_read else op_none)" "tid sample_mpx = 0"
  "\<not> shutting_down sample_mpx" "updater_buf sample_mpx = []" "world sample_mpx = []"
  "sm_handle (store sample_mpx 1) = 3" "write_handle sample_mpx = 4"
  by (simp_all add: sample_mpx_def mpx_init_def pipe_env_def multiplexer_new_def idle_manager_def
      add_mgr_def to_bitmask_def)

lemma sample_mpx_inv: "mpx_inv sample_mpx"
  by (simp add: mpx_inv_def sample_mpx_fields view_def entry_of_def to_bitmask_def valid_masks_def)

section \<open>Properties of the multiplexer\<close>



text \<open>
  C7: Registering for writing takes effect: called from the thread of a running multiplexer,
  \<open>register_writing\<close> leaves the manager in the pollset with its socket and the output events requested,
  with all other registrations unchanged.
\<close>

theorem register_writing_takes_effect:
  assumes "mpx_inv M" and "self = tid M" and "\<not> shutting_down M"
    and "M' = sm_register_writing E self m M"
  shows "mpx_inv M' \<and> (\<exists>i < length (managers M').
      managers M' ! i = m \<and> fd (pollset M' ! i) = sm_handle (store M' m) \<and>
      events (pollset M' ! i) AND output_mask \<noteq> 0) \<and>
    (\<forall>x. x \<noteq> m \<longrightarrow> mask_of M' x = mask_of M x)"
proof -
  have ob: "(op_write, output_mask) \<in> op_bits" by (simp add: op_bits_def)
  have v: "mask_of M m \<in> valid_masks" using assms(1) by (simp add: mpx_inv_def)
  note reg = register_op_mask [OF assms(1) ob assms(2,3), of E register_writing_code m]
  have inv: "mpx_inv M'"
    using assms(1,4) register_op_inv [OF assms(1) ob]
    by (simp add: sm_register_writing_def mpx_register_writing_def)
  have both: "x OR op_write \<in> valid_masks \<and> x OR op_write \<noteq> 0 \<and> to_bitmask (x OR op_write) AND output_mask \<noteq> 0 \<and>
      (x AND op_write = op_write \<longrightarrow> x OR op_write = x)" if "x \<in> valid_masks" for x
    using that unfolding valid_masks_def
    by (elim insertE emptyE; simp add: to_bitmask_def input_mask_def output_mask_def)
  have mask: "mask_of M' x = (if x = m then mask_of M m OR op_write else mask_of M x)" for x
    using assms(4) reg both [OF v] by (auto simp: sm_register_writing_def mpx_register_writing_def)
  have "m \<in> set (managers M')" using mpx_inv_registered [OF inv] mask both [OF v] by simp
  then obtain i where i: "i < length (managers M')" "managers M' ! i = m" by (metis in_set_conv_nth)
  then show ?thesis
    using inv mask mpx_inv_fd [OF inv i(1)] mpx_inv_events [OF inv i(1)] both [OF v] by auto
qed

theorem register_writing_takes_effect_witness:
  "\<exists>i < length (managers (sm_register_writing pipe_env 0 7 sample_mpx)).
      managers (sm_register_writing pipe_env 0 7 sample_mpx) ! i = 7"
  using register_writing_takes_effect [OF sample_mpx_inv, of 0 "sm_register_writing pipe_env 0 7 sample_mpx" pipe_env 7]
  by (auto simp: sample_mpx_fields)

text \<open>
  C8: \<open>shutdown\<close> in the thread of the multiplexer: the pollset updater at the front stays registered,
  every other manager loses its read registration and stays only if it still has to write, the pipe
  is closed, and no manager can be registered afterwards.
\<close>

theorem shutdown_stops_reading:
  assumes "mpx_inv M" and "self = tid M" and "managers M = updater # ms"
    and "M' = mpx_shutdown E self M"
  shows "mpx_inv M' \<and> write_handle M' = invalid_socket \<and> take 1 (managers M') = [updater] \<and>
    mask_of M' updater = mask_of M updater \<and>
    (\<forall>m. m \<noteq> updater \<longrightarrow> mask_of M' m = mask_of M m AND NOT op_read) \<and>
    (\<forall>m. mpx_register_reading E self m M' = M' \<and> mpx_register_writing E self m M' = M')"
proof -
  let ?M = "M\<lparr>shutting_down := True\<rparr>"
  have inv: "mpx_inv ?M" using assms(1) mpx_inv_cong [of ?M M] by simp
  note sl = shutdown_loop_correct [OF inv, of 1]
  have M': "M' = close_pipe E (shutdown_loop 1 ?M)" using assms(2,4) by (simp add: mpx_shutdown_def)
  have "tid M' = self"
    using M' assms(2) shutdown_loop_frame [of 1 ?M] by (simp add: close_pipe_def)
  moreover have "shutting_down M'"
    using M' shutdown_loop_down [of 1 ?M] by (simp add: close_pipe_def)
  moreover have "mpx_inv M'" using mpx_shutdown_inv [OF assms(1)] assms(4) by simp
  moreover have "managers M' = managers (shutdown_loop 1 ?M)" "store M' = store (shutdown_loop 1 ?M)"
    "write_handle M' = invalid_socket" using M' by (simp_all add: close_pipe_frame)
  ultimately show ?thesis
    using sl assms(3)
    by (simp add: mpx_register_reading_def mpx_register_writing_def register_op_def)
qed

theorem shutdown_stops_reading_witness:
  "mask_of (mpx_shutdown pipe_env 0 (mpx_register_reading pipe_env 0 7 sample_mpx)) 7 = op_none"
proof -
  let ?M = "mpx_register_reading pipe_env 0 7 sample_mpx"
  have "mpx_inv ?M" by (rule inv_intros sample_mpx_inv)+
  moreover have "managers ?M = [1, 7]" "tid ?M = 0" "mask_of ?M 7 = op_read"
    by (simp_all add: mpx_register_reading_def register_op_def sample_mpx_fields mask_add_def
        add_mgr_def set_mask_def)
  ultimately show ?thesis
    using shutdown_stops_reading [of ?M 0 1 "[7]" "mpx_shutdown pipe_env 0 ?M" pipe_env] by simp
qed

text \<open>
  C9: Requests from other threads are executed in order: with any number of requests in the pipe, and
  whatever chunks the operating system returns them in, the read event of the pollset updater
  terminates and has executed exactly these requests, one after the other, in the thread of the
  multiplexer.
\<close>

theorem updater_executes_requests:
  assumes "pipe_sound E data" and "updater_buf M = []" and "data (world M) = request_bytes reqs"
    and "self = tid M"
  shows "\<exists>M' again. updater_read E self M = Some (M', again) \<and> executes E self reqs M M'"
  using updater_executes [OF assms(1), of M reqs self] assms(2-4) by simp

theorem updater_executes_requests_witness:
  "\<exists>M' again. updater_read pipe_env 0
      (sample_mpx\<lparr>world := request_bytes [(register_reading_code, 7), (shutdown_code, 0)]\<rparr>) = Some (M', again) \<and>
     executes pipe_env 0 [(register_reading_code, 7), (shutdown_code, 0)]
       (sample_mpx\<lparr>world := request_bytes [(register_reading_code, 7), (shutdown_code, 0)]\<rparr>) M'"
  by (rule updater_executes_requests [OF pipe_env_sound]) (simp_all add: sample_mpx_fields)

text \<open>
  What a request of another thread puts into the pipe, together with the reference it holds.
\<close>

lemma write_to_pipe_sends:
  assumes "self \<noteq> tid M" and "write_handle M \<noteq> invalid_socket"
    and "pipe_write E (write_handle M) (pipe_message register_writing_code m) (world M) = (w, 9)"
  shows "mpx_register_writing E self m M
    = M\<lparr>pipe_refs := (pipe_refs M)(m := pipe_refs M m + 1), world := w\<rparr>"
  using assms by (simp add: mpx_register_writing_def register_op_def write_to_pipe_def Let_def)

text \<open>
  The condition on handlers in \<open>poll_once_keeps_pollset\<close> is needed. A handler that registers its own
  manager for writing and returns false (as the read event of a server does that answers a request it
  rejects) loses the registration: \<open>poll_once\<close> removes the manager because its copy of the events is
  empty, the mask still says that it is registered, and registering it again has no effect.
\<close>

definition rejecting_env :: "byte list mpx_env" where
  "rejecting_env = pipe_env\<lparr>handle_read_event := (\<lambda>m M. (sm_register_writing pipe_env 0 m M, False))\<rparr>"

lemma registration_lost:
  assumes "M = set_revents [POLLIN] sample_mpx"
  shows "map_option (\<lambda>M'. (managers M', mask_of M' 1, sm_register_writing rejecting_env 0 1 M' = M'))
      (scan_pollset rejecting_env 0 1 M) = Some ([], op_write, True)"
proof -
  have a: "input_mask AND NOT input_mask = 0" "POLLIN AND input_mask \<noteq> 0" "POLLIN AND output_mask = 0"
    by (simp_all add: input_mask_def output_mask_def)
  have f: "pollset M = [\<lparr>fd = 3, events = input_mask, revents = POLLIN\<rparr>]" "managers M = [1]"
    "mask_of M 1 = op_read" "tid M = 0" "\<not> shutting_down M"
    using sample_mpx_fields by (simp_all add: assms set_revents_def)
  let ?R = "sm_register_writing pipe_env 0 1 M"
  have r: "managers ?R = [1]" "mask_of ?R 1 = op_read_write" "length (pollset ?R) = 1"
    using f by (simp_all add: sm_register_writing_def mpx_register_writing_def register_op_def
        index_of_def mask_add_def set_events_def set_mask_def)
  have h: "handle_event rejecting_env 1 input_mask POLLIN M = (fst (mask_del op_read 1 ?R), 0)"
    using a by (simp add: handle_event_def rejecting_env_def)
  let ?F = "fst (mask_del op_read 1 ?R)"
  have l: "pollset ?F = pollset ?R" "managers ?F = managers ?R" "mask_of ?F 1 = op_write"
    using r by (simp_all add: mask_del_def Let_def)
  have "scan_pollset rejecting_env 0 1 M = scan_pollset rejecting_env 0 0 (del 0 ?F)"
    using f h l r by (subst scan_pollset.simps) (simp add: Let_def)
  also have "\<dots> = Some (del 0 ?F)" by (subst scan_pollset.simps) simp
  finally have scan: "scan_pollset rejecting_env 0 1 M = Some (del 0 ?F)" .
  have m: "mask_of (del 0 ?F) 1 = op_write" using l(3) by (simp add: del_def)
  then have "sm_register_writing rejecting_env 0 1 (del 0 ?F) = del 0 ?F"
    by (simp add: sm_register_writing_def)
  moreover have "managers (del 0 ?F) = []" using l r by (simp add: managers_del remove_nth_def)
  ultimately show ?thesis using scan m by simp
qed

end
