(* ===== verification/Basp_Header.thy ===== *)
theory Basp_Header
  imports Net_Enums
begin

text \<open>
  The header of BASP messages (\<open>caf/net/basp/header.hpp\<close>, \<open>src/header.cpp\<close>): 13 bytes with the type,
  the payload length and the operation data in network order. \<open>header\<close> derives its comparison
  operators from \<open>compare\<close>, which compares the serialized forms with \<open>memcmp\<close>.
\<close>

section \<open>Definitions\<close>

datatype basp_header = Header (hdr_type: message_type) (hdr_payload_len: u32) (hdr_operation_data: u64)

abbreviation (input) header_size :: nat where "header_size \<equiv> 13"
abbreviation (input) basp_version :: u64 where "basp_version \<equiv> 1"

definition header_new :: basp_header where
  "header_new = Header mt_handshake 0 0"

definition to_bytes :: "basp_header \<Rightarrow> byte list" where
  "to_bytes x = [hdr_type x] @ net32 (hdr_payload_len x) @ net64 (hdr_operation_data x)"

definition from_bytes :: "byte list \<Rightarrow> basp_header" where
  "from_bytes bytes =
     Header (bytes ! 0) (from_net32 (take 4 (drop 1 bytes))) (from_net64 (take 8 (drop 5 bytes)))"

text \<open>\<open>memcmp\<close>; only the sign of its result matters.\<close>

fun memcmp :: "byte list \<Rightarrow> byte list \<Rightarrow> int" where
  "memcmp (x # xs) (y # ys) = (if x < y then -1 else if y < x then 1 else memcmp xs ys)"
| "memcmp xs ys = 0"

definition header_compare :: "basp_header \<Rightarrow> basp_header \<Rightarrow> int" where
  "header_compare x y = memcmp (to_bytes x) (to_bytes y)"

section \<open>Serialization\<close>

lemma length_to_bytes [simp]: "length (to_bytes x) = header_size"
  by (simp add: to_bytes_def)

lemma from_bytes_to_bytes [simp]: "from_bytes (to_bytes x @ rest) = x"
  by (cases x) (simp add: from_bytes_def to_bytes_def)

lemma to_bytes_from_bytes: "length bytes = header_size \<Longrightarrow> to_bytes (from_bytes bytes) = bytes"
proof -
  assume l: "length bytes = header_size"
  then obtain b t where bytes: "bytes = b # t" and t: "length t = 12" by (cases bytes) auto
  have "take 8 (drop 4 t) = drop 4 t" "length (take 4 t) = 4" "length (drop 4 t) = 8" using t by simp_all
  then show ?thesis
    by (simp add: bytes to_bytes_def from_bytes_def net32_from_net32 net64_from_net64)
qed

section \<open>Comparison\<close>

lemma memcmp_refl [simp]: "memcmp xs xs = 0"
  by (induction xs) auto

lemma memcmp_append:
  "length xs = length ys \<Longrightarrow>
   memcmp (xs @ us) (ys @ vs) = (if memcmp xs ys = 0 then memcmp us vs else memcmp xs ys)"
  by (induction xs ys rule: list_induct2) auto

lemma memcmp_be_encode:
  "a < 256 ^ n \<Longrightarrow> b < 256 ^ n \<Longrightarrow>
   memcmp (be_encode n a) (be_encode n b) = (if a < b then -1 else if b < a then 1 else 0)"
proof (induction n arbitrary: a b)
  case 0
  then show ?case by simp
next
  case (Suc n)
  have d: "a div 256 < 256 ^ n" "b div 256 < 256 ^ n"
    using Suc.prems by (simp_all add: less_mult_imp_div_less mult.commute)
  have m: "memcmp [of_nat a] [of_nat b] = (if a mod 256 < b mod 256 then -1 else if b mod 256 < a mod 256 then 1 else 0)"
    by (simp add: word_less_nat_alt unat_of_nat)
  have lt: "a < b \<longleftrightarrow> a div 256 < b div 256 \<or> a div 256 = b div 256 \<and> a mod 256 < b mod 256" for a b :: nat
    using div_mult_mod_eq [of a 256] div_mult_mod_eq [of b 256] mod_less_divisor [of 256 a] mod_less_divisor [of 256 b]
    by linarith
  show ?case
    using Suc.IH [OF d] by (simp add: memcmp_append m lt [of a b] lt [of b a] del: memcmp.simps)
qed

lemma memcmp_net:
  "memcmp (net32 a) (net32 b) = (if a < b then -1 else if b < a then 1 else 0)"
  "memcmp (net64 c) (net64 d) = (if c < d then -1 else if d < c then 1 else 0)"
  using unat_less_pow [of a] unat_less_pow [of b] unat_less_pow [of c] unat_less_pow [of d]
  by (simp_all add: net32_def net64_def memcmp_be_encode word_less_nat_alt)

definition header_less :: "basp_header \<Rightarrow> basp_header \<Rightarrow> bool" where
  "header_less x y \<longleftrightarrow>
     hdr_type x < hdr_type y \<or>
     hdr_type x = hdr_type y \<and> (hdr_payload_len x < hdr_payload_len y \<or>
       hdr_payload_len x = hdr_payload_len y \<and> hdr_operation_data x < hdr_operation_data y)"

lemma header_compare_sign:
  "header_compare x y < 0 \<longleftrightarrow> header_less x y" "header_compare x y = 0 \<longleftrightarrow> x = y"
  "header_compare x y > 0 \<longleftrightarrow> header_less y x"
  by (cases x; cases y;
      auto simp: header_compare_def to_bytes_def memcmp_append memcmp_net header_less_def)+

text \<open>The operators of \<open>detail::comparable<header>\<close> are a linear order on headers.\<close>

instantiation basp_header :: linorder
begin

definition less_basp_header :: "basp_header \<Rightarrow> basp_header \<Rightarrow> bool" where
  "less_basp_header x y \<longleftrightarrow> header_compare x y < 0"

definition less_eq_basp_header :: "basp_header \<Rightarrow> basp_header \<Rightarrow> bool" where
  "less_eq_basp_header x y \<longleftrightarrow> header_compare x y \<le> 0"

instance
proof
  fix x y z :: basp_header
  have le: "x \<le> y \<longleftrightarrow> x = y \<or> header_less x y" for x y :: basp_header
    unfolding less_eq_basp_header_def using header_compare_sign [of x y] by linarith
  have lt: "x < y \<longleftrightarrow> header_less x y" for x y :: basp_header
    by (simp add: less_basp_header_def header_compare_sign)
  show "x < y \<longleftrightarrow> x \<le> y \<and> \<not> y \<le> x" "x \<le> x" "x \<le> y \<Longrightarrow> y \<le> z \<Longrightarrow> x \<le> z" "x \<le> y \<Longrightarrow> y \<le> x \<Longrightarrow> x = y"
    "x \<le> y \<or> y \<le> x"
    unfolding le lt by (cases x; cases y; cases z; auto simp: header_less_def)+
qed

end

end
