(* ===== verification/Message_Queue.thy ===== *)
theory Message_Queue
  imports Net_Enums
begin

text \<open>
  \<open>basp::message_queue\<close> (\<open>caf/net/basp/message_queue.hpp\<close>, \<open>src/message_queue.cpp\<close>): delivers
  messages that several workers deserialize concurrently in the order their IDs were issued.
  IDs are \<open>uint64_t\<close>; the wrap-around of \<open>next_id++\<close> and \<open>id + 1\<close> is written out. The mutex
  serialises the operations, so each operation is one step. \<open>receiver->enqueue\<close> is an effect on
  code outside of the repository: an operation returns the enqueued messages in order.
\<close>

section \<open>State and operations\<close>

record ('r, 'c) actor_msg =
  am_id :: nat
  am_receiver :: "'r option"
  am_content :: 'c

record ('r, 'c) message_queue =
  next_id :: nat
  next_undelivered :: nat
  pending :: "('r, 'c) actor_msg list"

definition message_queue_init :: "('r, 'c) message_queue" where
  "message_queue_init = \<lparr>next_id = 0, next_undelivered = 0, pending = []\<rparr>"

abbreviation inc64 :: "nat \<Rightarrow> nat" where
  "inc64 n \<equiv> (n + 1) mod 2 ^ 64"

text \<open>\<open>if (receiver != nullptr) receiver->enqueue(content)\<close>\<close>

definition enqueue_to :: "'r option \<Rightarrow> 'c \<Rightarrow> ('r \<times> 'c) list" where
  "enqueue_to receiver content = (case receiver of None \<Rightarrow> [] | Some r \<Rightarrow> [(r, content)])"

text \<open>The loop that delivers until it reaches a non-consecutive ID or the end.\<close>

fun deliver_consecutive ::
  "nat \<Rightarrow> ('r, 'c) actor_msg list \<Rightarrow> nat \<times> ('r \<times> 'c) list \<times> ('r, 'c) actor_msg list" where
  "deliver_consecutive nxt [] = (nxt, [], [])"
| "deliver_consecutive nxt (m # ms) =
     (if am_id m = nxt then
        let (nxt', out, rest) = deliver_consecutive (inc64 nxt) ms
        in (nxt', enqueue_to (am_receiver m) (am_content m) @ out, rest)
      else (nxt, [], m # ms))"

text \<open>\<open>pending.emplace(std::find_if(first, last, pred), ...)\<close>\<close>

fun insert_pending :: "('r, 'c) actor_msg \<Rightarrow> ('r, 'c) actor_msg list \<Rightarrow> ('r, 'c) actor_msg list" where
  "insert_pending x [] = [x]"
| "insert_pending x (m # ms) = (if am_id x \<le> am_id m then x # m # ms else m # insert_pending x ms)"

definition push ::
  "nat \<Rightarrow> 'r option \<Rightarrow> 'c \<Rightarrow> ('r, 'c) message_queue \<Rightarrow> ('r, 'c) message_queue \<times> ('r \<times> 'c) list" where
  "push i receiver content q =
     (if i = next_undelivered q then
        let out = enqueue_to receiver content; nxt = inc64 i in
        (case pending q of
           [] \<Rightarrow> (q\<lparr>next_undelivered := nxt\<rparr>, out)
         | m # _ \<Rightarrow>
             if am_id m \<noteq> nxt then (q\<lparr>next_undelivered := nxt\<rparr>, out)
             else let (nxt', more, rest) = deliver_consecutive nxt (pending q)
                  in (q\<lparr>next_undelivered := nxt', pending := rest\<rparr>, out @ more))
      else
        (q\<lparr>pending := insert_pending \<lparr>am_id = i, am_receiver = receiver, am_content = content\<rparr>
                        (pending q)\<rparr>, []))"

definition drop_id :: "nat \<Rightarrow> 'c \<Rightarrow> ('r, 'c) message_queue \<Rightarrow> ('r, 'c) message_queue \<times> ('r \<times> 'c) list" where
  "drop_id i nullcontent q = push i None nullcontent q"

definition new_id :: "('r, 'c) message_queue \<Rightarrow> nat \<times> ('r, 'c) message_queue" where
  "new_id q = (next_id q, q\<lparr>next_id := inc64 (next_id q)\<rparr>)"

section \<open>The invariant\<close>

text \<open>
  \<open>mq_inv q H\<close>: \<open>H\<close> is the history of pushed IDs with what was pushed. The IDs below
  \<open>next_undelivered\<close> and those of the pending messages are exactly the pushed ones, pending
  messages are sorted, lie strictly above \<open>next_undelivered\<close> and below \<open>next_id\<close>, and carry what
  was pushed.
\<close>

definition mq_inv :: "('r, 'c) message_queue \<Rightarrow> (nat \<Rightarrow> ('r option \<times> 'c) option) \<Rightarrow> bool" where
  "mq_inv q H \<longleftrightarrow>
     next_id q < 2 ^ 64 \<and> next_undelivered q \<le> next_id q \<and>
     sorted_wrt (<) (map am_id (pending q)) \<and>
     (\<forall>m \<in> set (pending q). next_undelivered q < am_id m \<and> am_id m < next_id q \<and>
        H (am_id m) = Some (am_receiver m, am_content m)) \<and>
     dom H = {..< next_undelivered q} \<union> am_id ` set (pending q)"

text \<open>What the IDs in a range contribute to the delivered sequence.\<close>

definition deliveries :: "(nat \<Rightarrow> ('r option \<times> 'c) option) \<Rightarrow> nat \<Rightarrow> nat \<Rightarrow> ('r \<times> 'c) list" where
  "deliveries H a b =
     concat (map (\<lambda>i. case H i of None \<Rightarrow> [] | Some (r, c) \<Rightarrow> enqueue_to r c) [a ..< b])"

lemma deliveries_refl [simp]: "deliveries H a a = []"
  by (simp add: deliveries_def)

lemma deliveries_split: "a \<le> b \<Longrightarrow> b \<le> c \<Longrightarrow> deliveries H a c = deliveries H a b @ deliveries H b c"
proof -
  assume "a \<le> b" and "b \<le> c"
  then have "[a ..< c] = [a ..< b] @ [b ..< c]"
    by (metis le_Suc_ex upt_add_eq_append)
  then show ?thesis by (simp add: deliveries_def)
qed

lemma deliveries_head:
  "a < b \<Longrightarrow> H a = Some (r, c) \<Longrightarrow> deliveries H a b = enqueue_to r c @ deliveries H (Suc a) b"
  by (simp add: deliveries_def upt_conv_Cons)

lemma deliveries_cong: "(\<And>i. a \<le> i \<Longrightarrow> i < b \<Longrightarrow> H i = H' i) \<Longrightarrow> deliveries H a b = deliveries H' a b"
  by (auto simp: deliveries_def intro!: arg_cong [where f = concat])

lemma mq_inv_init: "mq_inv message_queue_init Map.empty"
  by (simp add: mq_inv_def message_queue_init_def)

lemma set_insert_pending [simp]: "set (insert_pending x ms) = insert x (set ms)"
  by (induction ms) auto

lemma sorted_insert_pending:
  "sorted_wrt (<) (map am_id ms) \<Longrightarrow> am_id x \<notin> am_id ` set ms \<Longrightarrow>
   sorted_wrt (<) (map am_id (insert_pending x ms))"
proof (induction ms)
  case Nil
  then show ?case by simp
next
  case (Cons m ms)
  then show ?case by (auto simp: image_iff)
qed

text \<open>
  The delivery loop: starting at \<open>nxt\<close> it ships a maximal run of consecutive IDs, and what it
  leaves lies strictly above the new \<open>nxt'\<close>.
\<close>

lemma deliver_consecutive_spec:
  assumes "deliver_consecutive nxt ms = (nxt', out, rest)"
    and "sorted_wrt (<) (map am_id ms)" and "\<forall>m \<in> set ms. nxt \<le> am_id m \<and> am_id m < bound"
    and "bound < 2 ^ 64" and "nxt \<le> bound"
    and "\<forall>m \<in> set ms. H (am_id m) = Some (am_receiver m, am_content m)"
  shows "nxt \<le> nxt' \<and> nxt' \<le> bound \<and> out = deliveries H nxt nxt' \<and>
         sorted_wrt (<) (map am_id rest) \<and> set rest \<subseteq> set ms \<and>
         (\<forall>m \<in> set rest. nxt' < am_id m) \<and>
         {nxt ..< nxt'} \<union> am_id ` set rest = am_id ` set ms"
  using assms
proof (induction nxt ms arbitrary: nxt' out rest rule: deliver_consecutive.induct)
  case (1 nxt)
  then show ?case by simp
next
  case (2 nxt m ms)
  show ?case
  proof (cases "am_id m = nxt")
    case False
    then have "nxt < am_id m" using "2.prems"(3) by (auto simp: le_less)
    then have "\<forall>x \<in> set (m # ms). nxt < am_id x"
      using "2.prems"(2) by (auto intro: less_trans)
    with "2.prems" False show ?thesis by auto
  next
    case True
    obtain out' where rec: "deliver_consecutive (inc64 nxt) ms = (nxt', out', rest)"
      and out: "out = enqueue_to (am_receiver m) (am_content m) @ out'"
      using "2.prems"(1) True by (auto split: prod.splits)
    have lt: "nxt < bound" and inc: "inc64 nxt = Suc nxt"
      using "2.prems"(3,4) True by auto
    have above: "\<forall>x \<in> set ms. Suc nxt \<le> am_id x \<and> am_id x < bound"
      using "2.prems"(2,3) True by auto
    have IH: "inc64 nxt \<le> nxt' \<and> nxt' \<le> bound \<and> out' = deliveries H (inc64 nxt) nxt' \<and>
         sorted_wrt (<) (map am_id rest) \<and> set rest \<subseteq> set ms \<and>
         (\<forall>m \<in> set rest. nxt' < am_id m) \<and>
         {inc64 nxt ..< nxt'} \<union> am_id ` set rest = am_id ` set ms"
      using "2.IH" [OF True rec] "2.prems"(2,4,6) above lt inc by simp
    then have "out = deliveries H nxt nxt'"
      using out inc True "2.prems"(6) by (auto simp: deliveries_head [of nxt nxt' H])
    moreover have "{nxt ..< nxt'} = insert nxt {Suc nxt ..< nxt'}"
      using IH inc by auto
    ultimately show ?thesis
      using IH inc True by auto
  qed
qed

text \<open>
  Pushing the head: everything up to the next gap is shipped, in the order of the IDs.
\<close>

lemma push_head:
  assumes inv: "mq_inv q H" and new: "H i = None" and i: "i < next_id q"
    and head: "i = next_undelivered q" and p: "push i r c q = (q', out)"
  shows "mq_inv q' (H(i \<mapsto> (r, c))) \<and> next_id q' = next_id q \<and> i < next_undelivered q' \<and>
         out = deliveries (H(i \<mapsto> (r, c))) i (next_undelivered q')"
proof -
  let ?H = "H(i \<mapsto> (r, c))"
  note I = inv [unfolded mq_inv_def]
  have inc: "inc64 i = Suc i" using i I by simp
  have H_pend: "\<forall>m \<in> set (pending q). ?H (am_id m) = Some (am_receiver m, am_content m)"
    using I head by auto
  obtain nxt' more rest where dc: "deliver_consecutive (Suc i) (pending q) = (nxt', more, rest)"
    by (cases "deliver_consecutive (Suc i) (pending q)") auto
  have q': "q' = q\<lparr>next_undelivered := nxt', pending := rest\<rparr>" and out: "out = enqueue_to r c @ more"
    using p dc head inc by (auto simp: push_def Let_def split: list.splits if_splits)
  have spec: "Suc i \<le> nxt' \<and> nxt' \<le> next_id q \<and> more = deliveries ?H (Suc i) nxt' \<and>
      sorted_wrt (<) (map am_id rest) \<and> set rest \<subseteq> set (pending q) \<and>
      (\<forall>m \<in> set rest. nxt' < am_id m) \<and> {Suc i ..< nxt'} \<union> am_id ` set rest = am_id ` set (pending q)"
    by (rule deliver_consecutive_spec [OF dc]) (use I head i H_pend in auto)
  have "out = deliveries ?H i nxt'"
    using spec out by (simp add: deliveries_head [of i nxt' ?H r c])
  moreover have "dom ?H = {..< nxt'} \<union> am_id ` set rest"
  proof -
    have "dom ?H = insert i ({..< i} \<union> am_id ` set (pending q))"
      using I head by simp
    also have "\<dots> = {..< Suc i} \<union> ({Suc i ..< nxt'} \<union> am_id ` set rest)"
      using spec by auto
    also have "\<dots> = {..< nxt'} \<union> am_id ` set rest"
      using spec by auto
    finally show ?thesis .
  qed
  moreover have "\<forall>m \<in> set rest. nxt' < am_id m \<and> am_id m < next_id q \<and>
      ?H (am_id m) = Some (am_receiver m, am_content m)"
    using I spec H_pend by (meson subsetD)
  moreover have "next_id q < 2 ^ 64" and "nxt' \<le> next_id q" and "i < nxt'"
    and "sorted_wrt (<) (map am_id rest)"
    using I spec by simp_all
  ultimately show ?thesis
    unfolding q' mq_inv_def by simp
qed

lemma push_later:
  assumes inv: "mq_inv q H" and new: "H i = None" and i: "i < next_id q"
    and later: "i \<noteq> next_undelivered q" and p: "push i r c q = (q', out)"
  shows "mq_inv q' (H(i \<mapsto> (r, c))) \<and> next_id q' = next_id q \<and> out = [] \<and>
         next_undelivered q' = next_undelivered q"
proof -
  note I = inv [unfolded mq_inv_def]
  let ?m = "\<lparr>am_id = i, am_receiver = r, am_content = c\<rparr>"
  have notin: "i \<notin> {..< next_undelivered q} \<union> am_id ` set (pending q)"
    using new I by (metis domIff)
  have q': "q' = q\<lparr>pending := insert_pending ?m (pending q)\<rparr>" and out: "out = []"
    using p later by (auto simp: push_def)
  have "sorted_wrt (<) (map am_id (insert_pending ?m (pending q)))"
    using I notin by (auto intro!: sorted_insert_pending)
  then show ?thesis
    using I notin later i out unfolding q' mq_inv_def by auto
qed

lemmas push_cases = push_head push_later

lemma mq_inv_new_id:
  assumes "mq_inv q H" and "next_id q + 1 < 2 ^ 64" and "new_id q = (i, q')"
  shows "mq_inv q' H \<and> i = next_id q \<and> next_id q' = Suc i \<and> H i = None \<and>
         next_undelivered q' = next_undelivered q"
proof -
  have "next_id q \<notin> {..< next_undelivered q} \<union> am_id ` set (pending q)"
    using assms(1) by (auto simp: mq_inv_def)
  then have "H (next_id q) = None"
    using assms(1) by (metis mq_inv_def domIff)
  then show ?thesis
    using assms by (fastforce simp: mq_inv_def new_id_def)
qed

section \<open>The interface the workers use\<close>

text \<open>
  What a client relies on: IDs are issued in ascending order, a push above the head is kept
  without any effect on a receiver, a push of the head ships. \<open>holds q H\<close> is the provider's
  invariant for the history \<open>H\<close> of pushes, \<open>issued\<close> and \<open>shipped\<close> count the IDs handed out and
  shipped.
\<close>

locale ordered_queue =
  fixes new_ticket :: "'q \<Rightarrow> nat \<times> 'q"
    and put :: "nat \<Rightarrow> 'r option \<Rightarrow> 'c \<Rightarrow> 'q \<Rightarrow> 'q \<times> ('r \<times> 'c) list"
    and holds :: "'q \<Rightarrow> (nat \<Rightarrow> ('r option \<times> 'c) option) \<Rightarrow> bool"
    and issued :: "'q \<Rightarrow> nat"
    and shipped :: "'q \<Rightarrow> nat"
  assumes holds_shipped: "holds q H \<Longrightarrow> i < shipped q \<Longrightarrow> H i \<noteq> None"
    and holds_next: "holds q H \<Longrightarrow> H (shipped q) = None"
    and shipped_issued: "holds q H \<Longrightarrow> shipped q \<le> issued q"
    and new_ticket_ok: "holds q H \<Longrightarrow> issued q + 1 < 2 ^ 64 \<Longrightarrow> new_ticket q = (i, q') \<Longrightarrow>
      holds q' H \<and> i = issued q \<and> issued q' = Suc i \<and> H i = None \<and> shipped q' = shipped q"
    and put_head: "holds q H \<Longrightarrow> H i = None \<Longrightarrow> i < issued q \<Longrightarrow> i = shipped q \<Longrightarrow>
      put i r c q = (q', out) \<Longrightarrow>
      holds q' (H(i \<mapsto> (r, c))) \<and> issued q' = issued q \<and> i < shipped q' \<and>
      out = deliveries (H(i \<mapsto> (r, c))) i (shipped q')"
    and put_later: "holds q H \<Longrightarrow> H i = None \<Longrightarrow> i < issued q \<Longrightarrow> i \<noteq> shipped q \<Longrightarrow>
      put i r c q = (q', out) \<Longrightarrow>
      holds q' (H(i \<mapsto> (r, c))) \<and> issued q' = issued q \<and> out = [] \<and> shipped q' = shipped q"
begin

text \<open>A push of an issued ID that was not pushed before, in both cases at once.\<close>

lemma put_delivers:
  assumes "holds q H" and "H i = None" and "i < issued q" and "put i r c q = (q', out)"
  shows "holds q' (H(i \<mapsto> (r, c))) \<and> issued q' = issued q \<and> shipped q \<le> shipped q' \<and>
         out = deliveries (H(i \<mapsto> (r, c))) (shipped q) (shipped q')"
  using put_head [OF assms(1-3) _ assms(4)] put_later [OF assms(1-3) _ assms(4)]
  by (cases "i = shipped q") auto

lemma put_extends_deliveries:
  assumes "holds q H" and "H i = None" and "i < issued q" and "put i r c q = (q', out)"
  shows "deliveries H 0 (shipped q) @ out = deliveries (H(i \<mapsto> (r, c))) 0 (shipped q')"
proof -
  let ?H = "H(i \<mapsto> (r, c))"
  have p: "shipped q \<le> shipped q'" "out = deliveries ?H (shipped q) (shipped q')"
    using put_delivers [OF assms] by auto
  have "deliveries H 0 (shipped q) = deliveries ?H 0 (shipped q)"
  proof (rule deliveries_cong)
    fix j assume "j < shipped q"
    then have "H j \<noteq> None" by (rule holds_shipped [OF assms(1)])
    then show "H j = ?H j" using assms(2) by auto
  qed
  then show ?thesis
    using p by (simp add: deliveries_split [of 0 "shipped q" "shipped q'"])
qed

text \<open>Once every issued ID was pushed, everything was shipped.\<close>

lemma all_pushed_all_shipped:
  assumes "holds q H" and "\<And>i. i < issued q \<Longrightarrow> H i \<noteq> None"
  shows "shipped q = issued q"
  using holds_next [OF assms(1)] shipped_issued [OF assms(1)] assms(2) by (metis le_neq_implies_less)

text \<open>While the head is missing nothing is shipped, however many later IDs are pushed.\<close>

fun put_all :: "(nat \<times> 'r option \<times> 'c) list \<Rightarrow> 'q \<Rightarrow> 'q \<times> ('r \<times> 'c) list" where
  "put_all [] q = (q, [])"
| "put_all ((i, r, c) # ps) q =
     (let (q1, out) = put i r c q; (q2, more) = put_all ps q1 in (q2, out @ more))"

lemma stalled:
  assumes "holds q H" and "distinct (map fst ps)"
    and "\<And>p. p \<in> set ps \<Longrightarrow> H (fst p) = None \<and> fst p < issued q \<and> fst p \<noteq> shipped q"
  shows "snd (put_all ps q) = [] \<and> shipped (fst (put_all ps q)) = shipped q"
  using assms
proof (induction ps arbitrary: q H)
  case Nil
  then show ?case by simp
next
  case (Cons p ps)
  obtain i r c where p: "p = (i, r, c)" by (cases p)
  obtain q1 out where q1: "put i r c q = (q1, out)" by fastforce
  have *: "holds q1 (H(i \<mapsto> (r, c))) \<and> issued q1 = issued q \<and> out = [] \<and> shipped q1 = shipped q"
    using Cons.prems(1) Cons.prems(3) [of p] p by (intro put_later [OF _ _ _ _ q1]) auto
  have "snd (put_all ps q1) = [] \<and> shipped (fst (put_all ps q1)) = shipped q1"
  proof (rule Cons.IH)
    show "holds q1 (H(i \<mapsto> (r, c)))" using * by blast
    show "distinct (map fst ps)" using Cons.prems(2) by simp
    show "(H(i \<mapsto> (r, c))) (fst x) = None \<and> fst x < issued q1 \<and> fst x \<noteq> shipped q1"
      if "x \<in> set ps" for x
    proof -
      have "fst x \<noteq> i" using that Cons.prems(2) p by auto
      then show ?thesis using Cons.prems(3) [of x] that * by simp
    qed
  qed
  then show ?case
    using * q1 p by (auto split: prod.splits)
qed

end

lemma mq_inv_pending:
  "mq_inv q H \<Longrightarrow> m \<in> set (pending q) \<Longrightarrow> next_undelivered q < am_id m \<and> am_id m < next_id q"
  by (simp add: mq_inv_def)

lemma mq_inv_dom: "mq_inv q H \<Longrightarrow> dom H = {..< next_undelivered q} \<union> am_id ` set (pending q)"
  by (simp add: mq_inv_def)

interpretation mq: ordered_queue new_id push mq_inv next_id next_undelivered
proof (unfold_locales, goal_cases)
  case (1 q H i)
  then have "i \<in> dom H" by (simp add: mq_inv_dom)
  then show ?case by auto
next
  case (2 q H)
  then have "next_undelivered q \<notin> dom H" by (auto simp: mq_inv_dom dest: mq_inv_pending)
  then show ?case by (simp only: domIff simp_thms)
next
  case (3 q H)
  then show ?case by (simp add: mq_inv_def)
next
  case 4
  then show ?case by (rule mq_inv_new_id)
next
  case 5
  then show ?case by (rule push_head)
next
  case 6
  then show ?case by (rule push_later)
qed

section \<open>Runs: IDs are issued and pushed in any order\<close>

text \<open>
  A run of the queue with its clients: the state, the history of pushes and everything handed to
  receivers so far. Workers push the IDs they were given, each at most once, in any order; the
  counter has not wrapped.
\<close>

record ('r, 'c) mq_run =
  run_queue :: "('r, 'c) message_queue"
  run_pushed :: "nat \<Rightarrow> ('r option \<times> 'c) option"
  run_log :: "('r \<times> 'c) list"

definition mq_run_init :: "('r, 'c) mq_run" where
  "mq_run_init = \<lparr>run_queue = message_queue_init, run_pushed = Map.empty, run_log = []\<rparr>"

inductive mq_step :: "('r, 'c) mq_run \<Rightarrow> ('r, 'c) mq_run \<Rightarrow> bool" where
  issue: "next_id (run_queue s) + 1 < 2 ^ 64 \<Longrightarrow> new_id (run_queue s) = (i, q') \<Longrightarrow>
    mq_step s (s\<lparr>run_queue := q'\<rparr>)"
| pushed: "i < next_id (run_queue s) \<Longrightarrow> run_pushed s i = None \<Longrightarrow>
    push i r c (run_queue s) = (q', out) \<Longrightarrow>
    mq_step s \<lparr>run_queue = q', run_pushed = (run_pushed s)(i \<mapsto> (r, c)), run_log = run_log s @ out\<rparr>"

inductive_cases mq_stepE: "mq_step s t"

inductive mq_reachable :: "('r, 'c) mq_run \<Rightarrow> bool" where
  start: "mq_reachable mq_run_init"
| step: "mq_reachable s \<Longrightarrow> mq_step s t \<Longrightarrow> mq_reachable t"

lemma mq_reachable_inv:
  "mq_reachable s \<Longrightarrow>
     mq_inv (run_queue s) (run_pushed s) \<and>
     run_log s = deliveries (run_pushed s) 0 (next_undelivered (run_queue s))"
proof (induction rule: mq_reachable.induct)
  case start
  show ?case
    using mq_inv_init by (simp add: mq_run_init_def message_queue_init_def)
next
  case (step s t)
  then have inv: "mq_inv (run_queue s) (run_pushed s)"
    and log: "run_log s = deliveries (run_pushed s) 0 (next_undelivered (run_queue s))"
    by auto
  from step.hyps(2) show ?case
  proof (cases rule: mq_step.cases)
    case (issue i q')
    then show ?thesis
      using mq.new_ticket_ok [OF inv] log by simp
  next
    case (pushed i r c q' out)
    note new = \<open>run_pushed s i = None\<close> \<open>i < next_id (run_queue s)\<close> \<open>push i r c (run_queue s) = (q', out)\<close>
    show ?thesis
      using mq.put_delivers [OF inv new] mq.put_extends_deliveries [OF inv new] log pushed(1)
      by (simp del: fun_upd_apply)
  qed
qed

text \<open>
  C1. Strict order of delivery: in every reachable state, what receivers got is exactly what was
  pushed under the IDs \<open>0, 1, ..., next_undelivered - 1\<close>, in this order, with dropped IDs
  (\<open>nullptr\<close> receiver) skipped, no matter in which order the workers pushed.
\<close>

theorem in_order_delivery:
  assumes "mq_reachable s"
  shows "run_log s = deliveries (run_pushed s) 0 (next_undelivered (run_queue s))"
  using mq_reachable_inv [OF assms] by simp

theorem in_order_delivery_witness:
  "\<exists>s :: (string, nat) mq_run. mq_reachable s \<and>
     run_log s = [(''a'', 10), (''b'', 20)] \<and>
     run_log s = deliveries (run_pushed s) 0 (next_undelivered (run_queue s))"
proof -
  define q2 :: "(string, nat) message_queue"
    where "q2 = \<lparr>next_id = 2, next_undelivered = 0, pending = []\<rparr>"
  define q3 :: "(string, nat) message_queue"
    where "q3 = q2\<lparr>pending := [\<lparr>am_id = 1, am_receiver = Some ''b'', am_content = 20\<rparr>]\<rparr>"
  define s1 :: "(string, nat) mq_run"
    where "s1 = mq_run_init\<lparr>run_queue := message_queue_init\<lparr>next_id := 1\<rparr>\<rparr>"
  define s2 :: "(string, nat) mq_run" where "s2 = mq_run_init\<lparr>run_queue := q2\<rparr>"
  define s3 :: "(string, nat) mq_run"
    where "s3 = \<lparr>run_queue = q3, run_pushed = [1 \<mapsto> (Some ''b'', 20)], run_log = []\<rparr>"
  define s4 :: "(string, nat) mq_run"
    where "s4 = \<lparr>run_queue = \<lparr>next_id = 2, next_undelivered = 2, pending = []\<rparr>,
      run_pushed = [1 \<mapsto> (Some ''b'', 20), 0 \<mapsto> (Some ''a'', 10)],
      run_log = [(''a'', 10), (''b'', 20)]\<rparr>"
  note defs = q2_def q3_def s1_def s2_def s3_def s4_def mq_run_init_def message_queue_init_def
  have "mq_step mq_run_init s1"
    using mq_step.issue [of mq_run_init 0 "message_queue_init\<lparr>next_id := 1\<rparr>"]
    by (simp add: defs new_id_def)
  moreover have "mq_step s1 s2"
    using mq_step.issue [of s1 1 q2] by (simp add: defs new_id_def)
  moreover have "mq_step s2 s3"
    using mq_step.pushed [of 1 s2 "Some ''b''" 20 q3 "[]"] by (simp add: defs push_def)
  moreover have "mq_step s3 s4"
    using mq_step.pushed [of 0 s3 "Some ''a''" 10 "run_queue s4" "run_log s4"]
    by (simp add: defs push_def enqueue_to_def)
  ultimately have "mq_reachable s4"
    by (meson mq_reachable.intros)
  with in_order_delivery [OF this] show ?thesis
    by (intro exI [of _ s4]) (simp add: s4_def)
qed

text \<open>
  C2. No message is stuck: in every reachable state in which all issued IDs were pushed, the
  queue is empty and everything was delivered.
\<close>

theorem all_pushed_all_delivered:
  assumes "mq_reachable s" and "\<forall>i < next_id (run_queue s). run_pushed s i \<noteq> None"
  shows "pending (run_queue s) = [] \<and>
         run_log s = deliveries (run_pushed s) 0 (next_id (run_queue s))"
proof -
  have inv: "mq_inv (run_queue s) (run_pushed s)"
    and log: "run_log s = deliveries (run_pushed s) 0 (next_undelivered (run_queue s))"
    using mq_reachable_inv [OF assms(1)] by auto
  have eq: "next_undelivered (run_queue s) = next_id (run_queue s)"
    using mq.all_pushed_all_shipped [OF inv] assms(2) by blast
  have "set (pending (run_queue s)) = {}"
    using mq_inv_pending [OF inv] eq by (metis all_not_in_conv less_asym)
  then show ?thesis
    using log eq by simp
qed

theorem all_pushed_all_delivered_witness:
  "\<exists>s :: (string, nat) mq_run. mq_reachable s \<and> next_id (run_queue s) = 1 \<and>
     pending (run_queue s) = [] \<and> run_log s = deliveries (run_pushed s) 0 1"
proof -
  define s1 :: "(string, nat) mq_run"
    where "s1 = mq_run_init\<lparr>run_queue := message_queue_init\<lparr>next_id := 1\<rparr>\<rparr>"
  define s2 :: "(string, nat) mq_run"
    where "s2 = \<lparr>run_queue = \<lparr>next_id = 1, next_undelivered = 1, pending = []\<rparr>,
      run_pushed = [0 \<mapsto> (Some ''a'', 10)], run_log = [(''a'', 10)]\<rparr>"
  note defs = s1_def s2_def mq_run_init_def message_queue_init_def
  have "mq_step mq_run_init s1"
    using mq_step.issue [of mq_run_init 0 "message_queue_init\<lparr>next_id := 1\<rparr>"]
    by (simp add: defs new_id_def)
  moreover have "mq_step s1 s2"
    using mq_step.pushed [of 0 s1 "Some ''a''" 10 "run_queue s2" "run_log s2"]
    by (simp add: defs push_def enqueue_to_def)
  ultimately have r: "mq_reachable s2"
    by (meson mq_reachable.intros)
  have "\<forall>i < next_id (run_queue s2). run_pushed s2 i \<noteq> None"
    by (simp add: s2_def)
  from all_pushed_all_delivered [OF r this] r show ?thesis
    by (intro exI [of _ s2]) (simp add: s2_def)
qed

end
