(* ===== verification/Basp_Worker.thy ===== *)
theory Basp_Worker
  imports Basp_Header Message_Queue
begin

text \<open>
  \<open>basp::worker\<close> and \<open>remote_message_handler\<close> (\<open>caf/net/basp/worker.hpp\<close>, \<open>src/worker.cpp\<close>,
  \<open>remote_message_handler.hpp\<close>): deserialize actor messages in worker threads and put them into the
  message queue. The deserializer, the actor registry and the proxy registry of CAF are operations of
  an environment; \<open>'w\<close> is the state of the actor system.
\<close>

section \<open>Handling a message\<close>

record ('r, 'c) mailbox_element =
  me_sender :: "'r option"
  me_mid :: u64
  me_stages :: "'r list"
  me_content :: 'c

text \<open>
  \<open>des_message\<close> is the chain of \<open>source.apply\<close> calls: the source node (\<open>None\<close> for \<open>none\<close>), the
  source and destination IDs, the forwarding stack and the content, or nothing on failure.
\<close>

record ('n, 'r, 'c, 'w) actor_sys =
  des_message :: "byte list \<Rightarrow> ('n option \<times> u64 \<times> u64 \<times> 'r list \<times> 'c) option"
  registry_get :: "u64 \<Rightarrow> 'w \<Rightarrow> 'r option"
  get_or_put :: "'n option \<Rightarrow> u64 \<Rightarrow> 'w \<Rightarrow> 'w \<times> 'r option"

text \<open>The body of \<open>handle_remote_message\<close> up to the call of \<open>push\<close>; \<open>None\<close> is an early return.\<close>

definition remote_message ::
  "('n, 'r, 'c, 'w) actor_sys \<Rightarrow> basp_header \<Rightarrow> byte list \<Rightarrow> 'w \<Rightarrow>
   ('w \<times> 'r \<times> ('r, 'c) mailbox_element) option" where
  "remote_message S hdr payload w =
     (case des_message S payload of
        None \<Rightarrow> None
      | Some (src_node, src_id, dst_id, fwd_stack, content) \<Rightarrow>
          if dst_id = 0 then None
          else
            case registry_get S dst_id w of
              None \<Rightarrow> None
            | Some dst_hdl \<Rightarrow>
                let (w', src_hdl) =
                  (if src_node \<noteq> None \<and> src_id \<noteq> 0 then get_or_put S src_node src_id w else (w, None))
                in Some (w', dst_hdl,
                     \<lparr>me_sender = src_hdl, me_mid = hdr_operation_data hdr, me_stages = fwd_stack,
                      me_content = content\<rparr>))"

definition handle_remote_message ::
  "('n, 'r, 'c, 'w) actor_sys \<Rightarrow> nat \<Rightarrow> basp_header \<Rightarrow> byte list \<Rightarrow>
   ('r, ('r, 'c) mailbox_element) message_queue \<Rightarrow> 'w \<Rightarrow>
   ('r, ('r, 'c) mailbox_element) message_queue \<times> 'w \<times> ('r \<times> ('r, 'c) mailbox_element) list" where
  "handle_remote_message S msg_id hdr payload q w =
     (case remote_message S hdr payload w of
        None \<Rightarrow> (q, w, [])
      | Some (w', dst, ptr) \<Rightarrow> let (q', out) = push msg_id (Some dst) ptr q in (q', w', out))"

section \<open>Workers\<close>

record basp_worker =
  wk_msg_id :: nat
  wk_hdr :: basp_header
  wk_payload :: "byte list"

definition worker_launch ::
  "basp_header \<Rightarrow> byte list \<Rightarrow> ('r, 'm) message_queue \<Rightarrow> basp_worker \<times> ('r, 'm) message_queue" where
  "worker_launch hdr payload q =
     (let (i, q') = new_id q in (\<lparr>wk_msg_id = i, wk_hdr = hdr, wk_payload = payload\<rparr>, q'))"

definition worker_resume ::
  "('n, 'r, 'c, 'w) actor_sys \<Rightarrow> basp_worker \<Rightarrow>
   ('r, ('r, 'c) mailbox_element) message_queue \<Rightarrow> 'w \<Rightarrow>
   ('r, ('r, 'c) mailbox_element) message_queue \<times> 'w \<times> ('r \<times> ('r, 'c) mailbox_element) list" where
  "worker_resume S j q w = handle_remote_message S (wk_msg_id j) (wk_hdr j) (wk_payload j) q w"

section \<open>Runs of the workers\<close>

text \<open>
  Actor messages arrive one after the other. Each is given to an idle worker (\<open>idle\<close> counts the
  workers in the hub), or handled at once if there is none. The scheduler resumes launched workers in
  any order. The rest of the actor system changes its registries at any time. Ghosts: what arrived, what was delivered to mailboxes, and the IDs whose handler returned
  early.
\<close>

record ('r, 'c, 'w) basp_run =
  br_queue :: "('r, ('r, 'c) mailbox_element) message_queue"
  br_idle :: nat
  br_jobs :: "basp_worker list"
  br_world :: 'w
  br_arrived :: "(basp_header \<times> byte list) list"
  br_delivered :: "('r \<times> ('r, 'c) mailbox_element) list"
  br_skipped :: "nat set"

definition basp_run_init :: "nat \<Rightarrow> 'w \<Rightarrow> ('r, 'c, 'w) basp_run" where
  "basp_run_init n w =
     \<lparr>br_queue = message_queue_init, br_idle = n, br_jobs = [], br_world = w, br_arrived = [],
      br_delivered = [], br_skipped = {}\<rparr>"

definition complete_job ::
  "('n, 'r, 'c, 'w) actor_sys \<Rightarrow> basp_worker \<Rightarrow> ('r, 'c, 'w) basp_run \<Rightarrow> ('r, 'c, 'w) basp_run" where
  "complete_job S j s =
     (let (q, w, out) = worker_resume S j (br_queue s) (br_world s)
      in s\<lparr>br_queue := q, br_world := w, br_delivered := br_delivered s @ out,
           br_skipped := (if remote_message S (wk_hdr j) (wk_payload j) (br_world s) = None
                          then insert (wk_msg_id j) (br_skipped s) else br_skipped s)\<rparr>)"

text \<open>
  \<open>application::handle_actor_message\<close>: take a worker out of the hub and launch it, or run the same
  handler in this thread.
\<close>

definition arrive ::
  "('n, 'r, 'c, 'w) actor_sys \<Rightarrow> basp_header \<Rightarrow> byte list \<Rightarrow> ('r, 'c, 'w) basp_run \<Rightarrow> ('r, 'c, 'w) basp_run" where
  "arrive S hdr p s =
     (let (j, q) = worker_launch hdr p (br_queue s);
          s' = s\<lparr>br_queue := q, br_arrived := br_arrived s @ [(hdr, p)]\<rparr>
      in if br_idle s > 0 then s'\<lparr>br_idle := br_idle s - 1, br_jobs := br_jobs s @ [j]\<rparr>
         else complete_job S j s')"

inductive basp_step ::
  "('n, 'r, 'c, 'w) actor_sys \<Rightarrow> ('r, 'c, 'w) basp_run \<Rightarrow> ('r, 'c, 'w) basp_run \<Rightarrow> bool"
  for S where
  arrival: "length (br_arrived s) + 1 < 2 ^ 64 \<Longrightarrow> basp_step S s (arrive S hdr p s)"
| resume: "j \<in> set (br_jobs s) \<Longrightarrow>
    basp_step S s (complete_job S j (s\<lparr>br_jobs := remove1 j (br_jobs s), br_idle := br_idle s + 1\<rparr>))"
| world: "basp_step S s (s\<lparr>br_world := w\<rparr>)"

inductive basp_reachable ::
  "('n, 'r, 'c, 'w) actor_sys \<Rightarrow> ('r, 'c, 'w) basp_run \<Rightarrow> bool" for S where
  start: "basp_reachable S (basp_run_init n w)"
| step: "basp_reachable S s \<Longrightarrow> basp_step S s t \<Longrightarrow> basp_reachable S t"

section \<open>Invariant\<close>

text \<open>
  Every ID handed out belongs to exactly one of: messages pushed into the queue, launched workers,
  skipped messages; and what was pushed under an ID comes from the message that arrived with it.
\<close>

definition from_arrival ::
  "('n, 'r, 'c, 'w) actor_sys \<Rightarrow> (basp_header \<times> byte list) \<Rightarrow> ('r, 'c) mailbox_element \<Rightarrow> bool" where
  "from_arrival S a e \<longleftrightarrow>
     me_mid e = hdr_operation_data (fst a) \<and>
     (\<exists>n i d st. des_message S (snd a) = Some (n, i, d, st, me_content e) \<and> me_stages e = st)"

definition basp_inv ::
  "('n, 'r, 'c, 'w) actor_sys \<Rightarrow> ('r, 'c, 'w) basp_run \<Rightarrow>
   (nat \<Rightarrow> ('r option \<times> ('r, 'c) mailbox_element) option) \<Rightarrow> bool" where
  "basp_inv S s H \<longleftrightarrow>
     mq_inv (br_queue s) H \<and> next_id (br_queue s) = length (br_arrived s) \<and>
     br_delivered s = deliveries H 0 (next_undelivered (br_queue s)) \<and>
     distinct (map wk_msg_id (br_jobs s)) \<and>
     (\<forall>j \<in> set (br_jobs s). wk_msg_id j < length (br_arrived s) \<and> H (wk_msg_id j) = None \<and>
        wk_msg_id j \<notin> br_skipped s \<and> br_arrived s ! wk_msg_id j = (wk_hdr j, wk_payload j)) \<and>
     (\<forall>i \<in> br_skipped s. H i = None \<and> i < length (br_arrived s)) \<and>
     (\<forall>i < length (br_arrived s). H i \<noteq> None \<or> i \<in> br_skipped s \<or> i \<in> wk_msg_id ` set (br_jobs s)) \<and>
     (\<forall>i r e. H i = Some (r, e) \<longrightarrow> i < length (br_arrived s) \<and> r \<noteq> None \<and> from_arrival S (br_arrived s ! i) e)"

lemma remote_message_arrival:
  assumes "remote_message S hdr p w = Some (w', r, e)"
  shows "from_arrival S (hdr, p) e"
  using assms
  by (auto simp: remote_message_def from_arrival_def Let_def split: option.splits if_splits prod.splits)

lemma basp_inv_jobs:
  assumes "basp_inv S s H" and "set js = set (br_jobs s)" and "distinct (map wk_msg_id js)"
  shows "basp_inv S (s\<lparr>br_jobs := js, br_idle := n\<rparr>) H"
  using assms by (simp add: basp_inv_def)

text \<open>A job in hand that completes, by a push or by an early return.\<close>

lemma complete_job_inv:
  assumes inv: "basp_inv S (s\<lparr>br_jobs := j # br_jobs s\<rparr>) H"
  shows "\<exists>H'. basp_inv S (complete_job S j s) H'"
proof -
  let ?i = "wk_msg_id j"
  have mq: "mq_inv (br_queue s) H" and nid: "next_id (br_queue s) = length (br_arrived s)"
    and del: "br_delivered s = deliveries H 0 (next_undelivered (br_queue s))"
    and fresh: "H ?i = None" "?i < length (br_arrived s)" "?i \<notin> wk_msg_id ` set (br_jobs s)"
    and arr: "br_arrived s ! ?i = (wk_hdr j, wk_payload j)" "?i \<notin> br_skipped s"
    using inv by (auto simp: basp_inv_def)
  show ?thesis
  proof (cases "remote_message S (wk_hdr j) (wk_payload j) (br_world s)")
    case None
    then have "complete_job S j s = s\<lparr>br_skipped := insert ?i (br_skipped s)\<rparr>"
      by (simp add: complete_job_def worker_resume_def handle_remote_message_def)
    moreover have "basp_inv S (s\<lparr>br_skipped := insert ?i (br_skipped s)\<rparr>) H"
      using inv fresh by (simp add: basp_inv_def) (metis imageI)
    ultimately show ?thesis by auto
  next
    case (Some res)
    obtain w' r e where res: "res = (w', r, e)" by (cases res)
    obtain q out where p: "push ?i (Some r) e (br_queue s) = (q, out)"
      by (cases "push ?i (Some r) e (br_queue s)")
    let ?H = "H(?i \<mapsto> (Some r, e))"
    have lt: "?i < next_id (br_queue s)" using fresh(2) nid by simp
    note put = mq.put_delivers [OF mq fresh(1) lt p] mq.put_extends_deliveries [OF mq fresh(1) lt p]
    have cj: "complete_job S j s = s\<lparr>br_queue := q, br_world := w', br_delivered := br_delivered s @ out\<rparr>"
      using Some res p by (simp add: complete_job_def worker_resume_def handle_remote_message_def)
    have other: "wk_msg_id ja \<noteq> ?i" if "ja \<in> set (br_jobs s)" for ja
      using fresh(3) that by (metis imageI)
    have "from_arrival S (br_arrived s ! ?i) e"
      using remote_message_arrival [OF Some [unfolded res]] arr by simp
    then have "basp_inv S (s\<lparr>br_queue := q, br_world := w', br_delivered := br_delivered s @ out\<rparr>) ?H"
      using inv put del nid fresh(1,2) other arr by (auto simp: basp_inv_def)
    then show ?thesis using cj by auto
  qed
qed

text \<open>A new arrival draws the next ID.\<close>

lemma arrival_inv:
  assumes inv: "basp_inv S s H" and room: "length (br_arrived s) + 1 < 2 ^ 64"
    and l: "worker_launch hdr p (br_queue s) = (j, q)"
  shows "basp_inv S (s\<lparr>br_queue := q, br_jobs := j # br_jobs s, br_arrived := br_arrived s @ [(hdr, p)]\<rparr>) H"
proof -
  obtain i where i: "new_id (br_queue s) = (i, q)" "j = \<lparr>wk_msg_id = i, wk_hdr = hdr, wk_payload = p\<rparr>"
    using l by (auto simp: worker_launch_def split: prod.splits)
  have mq: "mq_inv (br_queue s) H" and nid: "next_id (br_queue s) = length (br_arrived s)"
    using inv by (simp_all add: basp_inv_def)
  have "next_id (br_queue s) + 1 < 2 ^ 64" using room nid by simp
  note nt = mq.new_ticket_ok [OF mq this i(1)]
  show ?thesis
    using inv nt i(2) nid unfolding basp_inv_def
    by (auto simp: nth_append less_Suc_eq)
qed

lemma arrive_inv:
  assumes inv: "basp_inv S s H" and room: "length (br_arrived s) + 1 < 2 ^ 64"
  shows "\<exists>H'. basp_inv S (arrive S hdr p s) H'"
proof -
  obtain j q where l: "worker_launch hdr p (br_queue s) = (j, q)"
    by (cases "worker_launch hdr p (br_queue s)")
  note a = arrival_inv [OF inv room l]
  let ?s = "s\<lparr>br_queue := q, br_arrived := br_arrived s @ [(hdr, p)]\<rparr>"
  show ?thesis
  proof (cases "br_idle s > 0")
    case True
    have "distinct (map wk_msg_id (br_jobs s @ [j]))" using a by (simp add: basp_inv_def)
    then have "basp_inv S (arrive S hdr p s) H"
      using basp_inv_jobs [OF a, of "br_jobs s @ [j]" "br_idle s"] True
      by (simp add: basp_inv_def arrive_def l)
    then show ?thesis by blast
  next
    case False
    have "basp_inv S (?s\<lparr>br_jobs := j # br_jobs ?s\<rparr>) H"
      using a by (simp add: basp_inv_def)
    from complete_job_inv [OF this] show ?thesis using False by (simp add: arrive_def l)
  qed
qed

lemma basp_reachable_inv: "basp_reachable S s \<Longrightarrow> \<exists>H. basp_inv S s H"
proof (induction rule: basp_reachable.induct)
  case (start n w)
  have "basp_inv S (basp_run_init n w) Map.empty"
    using mq_inv_init by (simp add: basp_inv_def basp_run_init_def) (simp add: message_queue_init_def)
  then show ?case by blast
next
  case (step s t)
  then obtain H where inv: "basp_inv S s H" by blast
  from step.hyps(2) show ?case
  proof (cases rule: basp_step.cases)
    case (arrival hdr p)
    then show ?thesis using arrive_inv [OF inv] by simp
  next
    case (world w)
    then have "basp_inv S t H" using inv by (simp add: basp_inv_def)
    then show ?thesis by blast
  next
    case (resume j)
    let ?s = "s\<lparr>br_jobs := remove1 j (br_jobs s), br_idle := br_idle s + 1\<rparr>"
    have d: "distinct (map wk_msg_id (br_jobs s))" using inv by (simp add: basp_inv_def)
    then have dj: "distinct (br_jobs s)" by (simp add: distinct_map)
    have "set (j # remove1 j (br_jobs s)) = set (br_jobs s)"
      using resume(2) dj by auto
    moreover have "distinct (map wk_msg_id (j # remove1 j (br_jobs s)))"
      using d dj resume(2) by (auto simp: distinct_map inj_on_def)
    ultimately have "basp_inv S (?s\<lparr>br_jobs := j # br_jobs ?s\<rparr>) H"
      using basp_inv_jobs [OF inv, of "j # remove1 j (br_jobs s)" "br_idle s + 1"]
      by (simp add: basp_inv_def)
    from complete_job_inv [OF this] show ?thesis unfolding resume(1) .
  qed
qed

section \<open>Order of delivery\<close>

lemma deliveries_from_arrivals:
  assumes "basp_inv S s H" and "n \<le> next_undelivered (br_queue s)"
  shows "length (deliveries H 0 n) = n \<and>
    (\<forall>i < n. from_arrival S (br_arrived s ! i) (snd (deliveries H 0 n ! i)))"
  using assms(2)
proof (induction n)
  case 0
  show ?case by simp
next
  case (Suc n)
  have mq: "mq_inv (br_queue s) H" using assms(1) by (simp add: basp_inv_def)
  have "H n \<noteq> None" using mq.holds_shipped [OF mq] Suc.prems by simp
  then obtain r e where h: "H n = Some (r, e)" by auto
  have prov: "r \<noteq> None" "from_arrival S (br_arrived s ! n) e"
    using assms(1) h unfolding basp_inv_def by blast+
  then obtain a where a: "r = Some a" by auto
  have split: "deliveries H 0 (Suc n) = deliveries H 0 n @ [(a, e)]"
    using h a by (simp add: deliveries_def enqueue_to_def)
  show ?case
    using Suc prov(2) unfolding split by (auto simp: nth_append less_Suc_eq)
qed

text \<open>An ID whose handler returned early stays the upper limit of what is delivered.\<close>

lemma skipped_limits:
  assumes "basp_inv S s H" and "i \<in> br_skipped s"
  shows "length (br_delivered s) \<le> i"
proof -
  have mq: "mq_inv (br_queue s) H" using assms(1) by (simp add: basp_inv_def)
  have "H i = None" using assms by (simp add: basp_inv_def)
  then have "\<not> i < next_undelivered (br_queue s)" using mq.holds_shipped [OF mq] by blast
  moreover have "length (br_delivered s) = next_undelivered (br_queue s)"
    using assms(1) deliveries_from_arrivals [OF assms(1) order_refl] by (simp add: basp_inv_def)
  ultimately show ?thesis by simp
qed

lemma basp_step_skipped: "basp_step S s t \<Longrightarrow> br_skipped s \<subseteq> br_skipped t"
  by (induction rule: basp_step.induct) (auto simp: arrive_def complete_job_def Let_def split: prod.splits)

lemma basp_steps_skipped: "(basp_step S)\<^sup>*\<^sup>* s t \<Longrightarrow> br_skipped s \<subseteq> br_skipped t"
  by (induction rule: rtranclp_induct) (auto dest: basp_step_skipped)

lemma basp_steps_reachable: "(basp_step S)\<^sup>*\<^sup>* s t \<Longrightarrow> basp_reachable S s \<Longrightarrow> basp_reachable S t"
  by (induction rule: rtranclp_induct) (auto intro: basp_reachable.step)

lemma reachable_in_order:
  assumes "basp_reachable S s"
  shows "length (br_delivered s) \<le> length (br_arrived s) \<and>
    (\<forall>i < length (br_delivered s). from_arrival S (br_arrived s ! i) (snd (br_delivered s ! i)))"
proof -
  obtain H where inv: "basp_inv S s H" using basp_reachable_inv [OF assms] by blast
  have mq: "mq_inv (br_queue s) H" using inv by (simp add: basp_inv_def)
  note d = deliveries_from_arrivals [OF inv order_refl]
  have "next_undelivered (br_queue s) \<le> length (br_arrived s)"
    using mq.shipped_issued [OF mq] inv by (simp add: basp_inv_def)
  then show ?thesis using d inv by (simp add: basp_inv_def)
qed

section \<open>Properties\<close>

text \<open>
  An actor system for witnesses: a payload is the ID of the receiver followed by the content, there is
  one actor with the ID 1.
\<close>

definition echo_sys :: "(nat, nat, byte list, unit) actor_sys" where
  "echo_sys =
     \<lparr>des_message = (\<lambda>p. case p of [] \<Rightarrow> None | b # bs \<Rightarrow> Some (None, 0, ucast b, [], bs)),
      registry_get = (\<lambda>i w. if i = 1 then Some 1 else None),
      get_or_put = (\<lambda>n i w. (w, None))\<rparr>"

text \<open>The run in which one message arrives while there is no idle worker.\<close>

definition first_run :: "byte list \<Rightarrow> (nat, byte list, unit) basp_run" where
  "first_run p = arrive echo_sys header_new p (basp_run_init 0 ())"

lemma first_run_reachable: "basp_reachable echo_sys (first_run p)"
  unfolding first_run_def
  by (rule basp_reachable.step [OF basp_reachable.start basp_step.arrival]) (simp add: basp_run_init_def)

lemmas first_run_eval = first_run_def arrive_def worker_launch_def new_id_def complete_job_def basp_run_init_def worker_resume_def
  handle_remote_message_def remote_message_def echo_sys_def push_def enqueue_to_def message_queue_init_def

text \<open>
  C10: Actor messages are delivered in the order in which they arrived, however the scheduler resumes
  the workers: the message delivered as number \<open>i\<close> has the message ID of the header, the forwarding
  stack and the content of the message that arrived as number \<open>i\<close>.
\<close>

theorem workers_deliver_in_order:
  assumes "basp_reachable S s"
  shows "length (br_delivered s) \<le> length (br_arrived s) \<and>
    (\<forall>i < length (br_delivered s). from_arrival S (br_arrived s ! i) (snd (br_delivered s ! i)))"
  using assms by (rule reachable_in_order)

theorem workers_deliver_in_order_witness:
  "length (br_delivered (first_run [1, 42])) = 1 \<and>
   from_arrival echo_sys (br_arrived (first_run [1, 42]) ! 0) (snd (br_delivered (first_run [1, 42]) ! 0))"
proof -
  have "length (br_delivered (first_run [1, 42])) = 1" by (simp add: first_run_eval)
  with workers_deliver_in_order [OF first_run_reachable [of "[1, 42]"]] show ?thesis by simp
qed

text \<open>
  C11: A message that a worker cannot deliver (its payload does not deserialize, it has no receiver ID
  or its receiver is unknown) blocks all later messages for good: the handler returns without
  dropping the ID from the queue, so whatever happens afterwards, no message that arrived after it is
  ever delivered.
\<close>

theorem undeliverable_message_blocks_queue:
  assumes "basp_reachable S s" and "i \<in> br_skipped s" and "(basp_step S)\<^sup>*\<^sup>* s t"
  shows "length (br_delivered t) \<le> i"
proof -
  obtain H where "basp_inv S t H"
    using basp_reachable_inv [OF basp_steps_reachable [OF assms(3,1)]] by blast
  then show ?thesis using skipped_limits basp_steps_skipped [OF assms(3)] assms(2) by blast
qed

theorem undeliverable_message_blocks_queue_witness:
  "\<exists>t. basp_step echo_sys (first_run [7]) t \<and> length (br_arrived t) = 2 \<and> length (br_delivered t) \<le> 0"
proof -
  let ?s = "first_run [7]"
  have f: "br_skipped ?s = {0}" "br_arrived ?s = [(header_new, [7])]"
    by (simp_all add: first_run_eval)
  let ?t = "arrive echo_sys header_new [1, 42] ?s"
  have st: "basp_step echo_sys ?s ?t" by (rule basp_step.arrival) (simp add: f)
  then have "length (br_delivered ?t) \<le> 0"
    using undeliverable_message_blocks_queue [OF first_run_reachable, of 0 "[7]" ?t] f(1) by blast
  moreover have "length (br_arrived ?t) = 2" by (simp add: arrive_def Let_def complete_job_def f split: prod.split)
  ultimately show ?thesis using st by blast
qed

end
