(* ===== verification/Basp_Application.thy ===== *)
theory Basp_Application
  imports Basp_Worker Layers
begin

text \<open>
  \<open>basp::application\<close> (\<open>caf/net/basp/application.hpp\<close>, \<open>src/net/basp/application.cpp\<close>): the BASP
  protocol on top of a transport that hands out chunks of the configured size. CAF's serializers,
  registries, proxies, parsers and settings are operations of an environment, \<open>'w\<close> is the state of
  the actor system. A node ID is \<open>'n option\<close> with \<open>None\<close> for the invalid ID. Packets, messages to
  listeners and attached functors are effects, in the order of the calls.
\<close>

section \<open>Environment\<close>

datatype 'e basp_error = Ec ec | Exit_unknown | Other_error 'e

text \<open>\<open>begin_sequence\<close> returns the announced size and the remainder of the input.\<close>

record ('n, 'r, 'c, 'w, 'e) basp_env =
  env_sys :: "('n, 'r, 'c, 'w) actor_sys"
  env_node :: "'n option"
  cfg_workers :: "nat option"
  hardware_concurrency :: nat
  cfg_app_ids :: "string list option"
  default_app_id :: string
  ser_handshake :: "'n option \<Rightarrow> string list \<Rightarrow> 'e basp_error + byte list"
  des_handshake :: "byte list \<Rightarrow> 'e basp_error + ('n option \<times> string list)"
  ser_routing :: "'n option \<Rightarrow> u64 \<Rightarrow> u64 \<Rightarrow> 'r list \<Rightarrow> 'e basp_error + byte list"
  ser_content :: "'c \<Rightarrow> 'e basp_error + byte list"
  ser_path :: "string \<Rightarrow> 'e basp_error + byte list"
  des_sequence :: "byte list \<Rightarrow> 'e basp_error + (nat \<times> byte list)"
  ser_resolved :: "u64 \<Rightarrow> string set \<Rightarrow> 'e basp_error + byte list"
  des_resolved :: "byte list \<Rightarrow> 'e basp_error + (u64 \<times> string set)"
  ser_error :: "'e basp_error \<Rightarrow> 'e basp_error + byte list"
  des_error :: "byte list \<Rightarrow> 'e basp_error + 'e basp_error"
  parse_actor_id :: "string \<Rightarrow> u64 option"
  parse_name :: "string \<Rightarrow> string option"
  actor_id_of :: "'r \<Rightarrow> u64"
  actor_node_of :: "'r \<Rightarrow> 'n option"
  registry_put :: "u64 \<Rightarrow> 'r \<Rightarrow> 'w \<Rightarrow> 'w"
  registry_get_name :: "string \<Rightarrow> 'w \<Rightarrow> 'r option"
  proxies_erase :: "'n option \<Rightarrow> u64 \<Rightarrow> 'e basp_error \<Rightarrow> 'w \<Rightarrow> 'w"

text \<open>What a listener of \<open>resolve\<close> receives.\<close>

datatype 'r resolve_result = Remote_lookup_failed | Resolved "'r option" "string set"

datatype ('n, 'r, 'l) effect =
    Write_packet "byte list list"
  | Anon_send 'l "'r resolve_result"
  | Attach_functor 'r "'n option" u64

section \<open>State\<close>

record ('n, 'r, 'c, 'w, 'l) application =
  app_state :: connection_state
  app_hdr :: basp_header
  peer_id :: "'n option"
  pending_resolves :: "u64 \<rightharpoonup> 'l"
  next_request_id :: u64
  app_run :: "('r, 'c, 'w) basp_run"

definition application_new :: "'w \<Rightarrow> ('n, 'r, 'c, 'w, 'l) application" where
  "application_new w =
     \<lparr>app_state = cs_await_handshake_header, app_hdr = header_new, peer_id = None,
      pending_resolves = Map.empty, next_request_id = 1, app_run = basp_run_init 0 w\<rparr>"

lemma application_new_state [simp]: "app_state (application_new w) = cs_await_handshake_header"
  by (simp add: application_new_def)

abbreviation app_world :: "('n, 'r, 'c, 'w, 'l) application \<Rightarrow> 'w" where
  "app_world a \<equiv> br_world (app_run a)"

definition set_world :: "'w \<Rightarrow> ('n, 'r, 'c, 'w, 'l) application \<Rightarrow> ('n, 'r, 'c, 'w, 'l) application" where
  "set_world w a = a\<lparr>app_run := (app_run a)\<lparr>br_world := w\<rparr>\<rparr>"

lemma set_world_sel [simp]:
  "app_state (set_world w a) = app_state a" "app_hdr (set_world w a) = app_hdr a"
  "peer_id (set_world w a) = peer_id a" "pending_resolves (set_world w a) = pending_resolves a"
  "next_request_id (set_world w a) = next_request_id a"
  "app_run (set_world w a) = (app_run a)\<lparr>br_world := w\<rparr>"
  by (simp_all add: set_world_def)

type_synonym ('n, 'r, 'c, 'w, 'l, 'e) app_result =
  "'e basp_error option \<times> ('n, 'r, 'c, 'w, 'l) application \<times> ('n, 'r, 'l) effect list"

section \<open>Sending\<close>

text \<open>\<open>to_bytes(header{type, static_cast<uint32_t>(payload.size()), data}, hdr); write_packet(hdr, payload)\<close>\<close>

definition packet_with :: "message_type \<Rightarrow> u64 \<Rightarrow> byte list \<Rightarrow> ('n, 'r, 'l) effect" where
  "packet_with ty data payload = Write_packet [to_bytes (Header ty (of_nat (length payload)) data), payload]"

definition app_ids :: "('n, 'r, 'c, 'w, 'e) basp_env \<Rightarrow> string list" where
  "app_ids E = (case cfg_app_ids E of Some ids \<Rightarrow> ids | None \<Rightarrow> [default_app_id E])"

definition generate_handshake :: "('n, 'r, 'c, 'w, 'e) basp_env \<Rightarrow> 'e basp_error + byte list" where
  "generate_handshake E = ser_handshake E (env_node E) (app_ids E)"

definition worker_count :: "('n, 'r, 'c, 'w, 'e) basp_env \<Rightarrow> nat" where
  "worker_count E =
     (case cfg_workers E of Some n \<Rightarrow> n | None \<Rightarrow> min 3 (hardware_concurrency E div 4) + 1)"

text \<open>The last component is the policy passed to \<open>configure_read\<close>, if it is called.\<close>

definition app_init ::
  "('n, 'r, 'c, 'w, 'e) basp_env \<Rightarrow> ('n, 'r, 'c, 'w, 'l) application \<Rightarrow>
   ('n, 'r, 'c, 'w, 'l, 'e) app_result \<times> receive_policy option" where
  "app_init E a =
     (let a' = a\<lparr>app_run := (app_run a)\<lparr>br_idle := br_idle (app_run a) + worker_count E\<rparr>\<rparr>
      in case generate_handshake E of
           Inl err \<Rightarrow> ((Some err, a', []), None)
         | Inr payload \<Rightarrow>
             ((None, a', [packet_with mt_handshake basp_version payload]),
              Some (policy_exactly (of_nat header_size))))"

text \<open>A message to a remote actor: the mailbox element and its receiver.\<close>

definition write_message ::
  "('n, 'r, 'c, 'w, 'e) basp_env \<Rightarrow> ('r, 'c) mailbox_element \<Rightarrow> 'r option \<Rightarrow>
   ('n, 'r, 'c, 'w, 'l) application \<Rightarrow> ('n, 'r, 'c, 'w, 'l, 'e) app_result" where
  "write_message E msg receiver a =
     (case receiver of
        None \<Rightarrow> (None, a, [])
      | Some dst \<Rightarrow>
          let (a', routing) =
            (case me_sender msg of
               Some src \<Rightarrow>
                 (set_world (registry_put E (actor_id_of E src) src (app_world a)) a,
                  ser_routing E (actor_node_of E src) (actor_id_of E src) (actor_id_of E dst) (me_stages msg))
             | None \<Rightarrow> (a, ser_routing E None 0 (actor_id_of E dst) (me_stages msg)))
          in case routing of
               Inl err \<Rightarrow> (Some err, a', [])
             | Inr buf \<Rightarrow>
                 case ser_content E (me_content msg) of
                   Inl err \<Rightarrow> (Some err, a', [])
                 | Inr content \<Rightarrow> (None, a', [packet_with mt_actor_message (me_mid msg) (buf @ content)]))"

definition app_resolve ::
  "('n, 'r, 'c, 'w, 'e) basp_env \<Rightarrow> string \<Rightarrow> 'l \<Rightarrow> ('n, 'r, 'c, 'w, 'l) application \<Rightarrow>
   ('n, 'r, 'c, 'w, 'l) application \<times> ('n, 'r, 'l) effect list" where
  "app_resolve E path listener a =
     (case ser_path E path of
        Inl err \<Rightarrow> (a, [])
      | Inr payload \<Rightarrow>
          let req_id = next_request_id a
          in (a\<lparr>next_request_id := req_id + 1,
                pending_resolves := (case pending_resolves a req_id of
                                       None \<Rightarrow> (pending_resolves a)(req_id \<mapsto> listener)
                                     | Some l \<Rightarrow> pending_resolves a)\<rparr>,
              [packet_with mt_resolve_request req_id payload]))"

definition new_proxy :: "u64 \<Rightarrow> ('n, 'r, 'l) effect list" where
  "new_proxy i = [Write_packet [to_bytes (Header mt_monitor_message 0 i)]]"

text \<open>\<open>None\<close>: the exception raised when the error cannot be serialized.\<close>

definition local_actor_down ::
  "('n, 'r, 'c, 'w, 'e) basp_env \<Rightarrow> u64 \<Rightarrow> 'e basp_error \<Rightarrow> ('n, 'r, 'l) effect list option" where
  "local_actor_down E i reason =
     (case ser_error E reason of
        Inl err \<Rightarrow> None
      | Inr payload \<Rightarrow> Some [packet_with mt_down_message i payload])"

section \<open>Receiving\<close>

definition starts_with :: "string \<Rightarrow> string \<Rightarrow> bool" where
  "starts_with s p \<longleftrightarrow> take (length p) s = p"

definition resolve_local_path :: "('n, 'r, 'c, 'w, 'e) basp_env \<Rightarrow> string \<Rightarrow> 'w \<Rightarrow> 'r option" where
  "resolve_local_path E path w =
     (if starts_with path ''id/'' then
        case parse_actor_id E (drop 3 path) of
          None \<Rightarrow> None
        | Some aid \<Rightarrow> registry_get (env_sys E) aid w
      else if starts_with path ''name/'' then
        case parse_name E (drop 5 path) of
          None \<Rightarrow> None
        | Some name \<Rightarrow> registry_get_name E name w
      else None)"

definition handle_handshake ::
  "('n, 'r, 'c, 'w, 'e) basp_env \<Rightarrow> basp_header \<Rightarrow> byte list \<Rightarrow> ('n, 'r, 'c, 'w, 'l) application \<Rightarrow>
   ('n, 'r, 'c, 'w, 'l, 'e) app_result" where
  "handle_handshake E hdr payload a =
     (if hdr_type hdr \<noteq> mt_handshake then (Some (Ec ec_missing_handshake), a, [])
      else if hdr_operation_data hdr \<noteq> basp_version then (Some (Ec ec_version_mismatch), a, [])
      else
        case des_handshake E payload of
          Inl err \<Rightarrow> (Some err, a, [])
        | Inr (peer, ids) \<Rightarrow>
            if peer = None \<or> ids = [] then (Some (Ec ec_invalid_handshake), a, [])
            else if \<not> list_ex (\<lambda>x. x \<in> set (app_ids E)) ids
            then (Some (Ec ec_app_identifiers_mismatch), a, [])
            else (None, a\<lparr>peer_id := peer, app_state := cs_await_header\<rparr>, []))"

definition handle_actor_message ::
  "('n, 'r, 'c, 'w, 'e) basp_env \<Rightarrow> basp_header \<Rightarrow> byte list \<Rightarrow> ('n, 'r, 'c, 'w, 'l) application \<Rightarrow>
   ('n, 'r, 'c, 'w, 'l, 'e) app_result" where
  "handle_actor_message E hdr payload a =
     (None, a\<lparr>app_run := arrive (env_sys E) hdr payload (app_run a)\<rparr>, [])"

text \<open>\<open>reinterpret_cast<const char*>\<close>\<close>

definition chars_of :: "byte list \<Rightarrow> string" where
  "chars_of = map (\<lambda>b. char_of (unat b))"

definition handle_resolve_request ::
  "('n, 'r, 'c, 'w, 'e) basp_env \<Rightarrow> basp_header \<Rightarrow> byte list \<Rightarrow> ('n, 'r, 'c, 'w, 'l) application \<Rightarrow>
   ('n, 'r, 'c, 'w, 'l, 'e) app_result" where
  "handle_resolve_request E rec_hdr received a =
     (case des_sequence E received of
        Inl err \<Rightarrow> (Some err, a, [])
      | Inr (path_size, remainder) \<Rightarrow>
          if path_size \<noteq> length remainder then (Some (Ec ec_invalid_payload), a, [])
          else
            let (a', aid) =
              (case resolve_local_path E (chars_of remainder) (app_world a) of
                 Some r \<Rightarrow> (set_world (registry_put E (actor_id_of E r) r (app_world a)) a, actor_id_of E r)
               | None \<Rightarrow> (a, 0))
            in case ser_resolved E aid {} of
                 Inl err \<Rightarrow> (Some err, a', [])
               | Inr payload \<Rightarrow>
                   (None, a', [packet_with mt_resolve_response (hdr_operation_data rec_hdr) payload]))"

text \<open>The scope guard erases the request on every path after the lookup.\<close>

definition handle_resolve_response ::
  "('n, 'r, 'c, 'w, 'e) basp_env \<Rightarrow> basp_header \<Rightarrow> byte list \<Rightarrow> ('n, 'r, 'c, 'w, 'l) application \<Rightarrow>
   ('n, 'r, 'c, 'w, 'l, 'e) app_result" where
  "handle_resolve_response E received_hdr received a =
     (case pending_resolves a (hdr_operation_data received_hdr) of
        None \<Rightarrow> (None, a, [])
      | Some listener \<Rightarrow>
          let a' = a\<lparr>pending_resolves := (pending_resolves a)(hdr_operation_data received_hdr := None)\<rparr>
          in case des_resolved E received of
               Inl err \<Rightarrow> (Some err, a', [Anon_send listener Remote_lookup_failed])
             | Inr (aid, ifs) \<Rightarrow>
                 if aid = 0 then (None, a', [Anon_send listener (Resolved None ifs)])
                 else
                   let (w, proxy) = get_or_put (env_sys E) (peer_id a) aid (app_world a)
                   in (None, set_world w a', [Anon_send listener (Resolved proxy ifs)]))"

definition handle_monitor_message ::
  "('n, 'r, 'c, 'w, 'e) basp_env \<Rightarrow> basp_header \<Rightarrow> byte list \<Rightarrow> ('n, 'r, 'c, 'w, 'l) application \<Rightarrow>
   ('n, 'r, 'c, 'w, 'l, 'e) app_result" where
  "handle_monitor_message E received_hdr received a =
     (if received \<noteq> [] then (Some (Ec ec_unexpected_payload), a, [])
      else
        case registry_get (env_sys E) (hdr_operation_data received_hdr) (app_world a) of
          Some hdl \<Rightarrow> (None, a, [Attach_functor hdl (peer_id a) (hdr_operation_data received_hdr)])
        | None \<Rightarrow>
            case ser_error E Exit_unknown of
              Inl err \<Rightarrow> (Some err, a, [])
            | Inr payload \<Rightarrow>
                (None, a, [packet_with mt_down_message (hdr_operation_data received_hdr) payload]))"

definition handle_down_message ::
  "('n, 'r, 'c, 'w, 'e) basp_env \<Rightarrow> basp_header \<Rightarrow> byte list \<Rightarrow> ('n, 'r, 'c, 'w, 'l) application \<Rightarrow>
   ('n, 'r, 'c, 'w, 'l, 'e) app_result" where
  "handle_down_message E received_hdr received a =
     (case des_error E received of
        Inl err \<Rightarrow> (Some err, a, [])
      | Inr reason \<Rightarrow>
          (None, set_world (proxies_erase E (peer_id a) (hdr_operation_data received_hdr) reason (app_world a)) a, []))"

definition handle_message ::
  "('n, 'r, 'c, 'w, 'e) basp_env \<Rightarrow> basp_header \<Rightarrow> byte list \<Rightarrow> ('n, 'r, 'c, 'w, 'l) application \<Rightarrow>
   ('n, 'r, 'c, 'w, 'l, 'e) app_result" where
  "handle_message E hdr payload a =
     (if hdr_type hdr = mt_handshake then (Some (Ec ec_unexpected_handshake), a, [])
      else if hdr_type hdr = mt_actor_message then handle_actor_message E hdr payload a
      else if hdr_type hdr = mt_resolve_request then handle_resolve_request E hdr payload a
      else if hdr_type hdr = mt_resolve_response then handle_resolve_response E hdr payload a
      else if hdr_type hdr = mt_monitor_message then handle_monitor_message E hdr payload a
      else if hdr_type hdr = mt_down_message then handle_down_message E hdr payload a
      else if hdr_type hdr = mt_heartbeat then (None, a, [])
      else (Some (Ec ec_unimplemented), a, []))"

text \<open>The state machine; the first component of the result is \<open>next_read_size\<close>, 64 bits wide.\<close>

definition app_handle ::
  "('n, 'r, 'c, 'w, 'e) basp_env \<Rightarrow> u64 \<Rightarrow> byte list \<Rightarrow> ('n, 'r, 'c, 'w, 'l) application \<Rightarrow>
   u64 \<times> ('n, 'r, 'c, 'w, 'l, 'e) app_result" where
  "app_handle E next_read_size bytes a =
     (case app_state a of
        cs_await_handshake_header \<Rightarrow>
          if length bytes \<noteq> header_size then (next_read_size, Some (Ec ec_unexpected_number_of_bytes), a, [])
          else
            let hdr = from_bytes bytes; a' = a\<lparr>app_hdr := hdr\<rparr> in
            if hdr_type hdr \<noteq> mt_handshake then (next_read_size, Some (Ec ec_missing_handshake), a', [])
            else if hdr_operation_data hdr \<noteq> basp_version then (next_read_size, Some (Ec ec_version_mismatch), a', [])
            else if hdr_payload_len hdr = 0 then (next_read_size, Some (Ec ec_missing_payload), a', [])
            else (ucast (hdr_payload_len hdr), None, a'\<lparr>app_state := cs_await_handshake_payload\<rparr>, [])
      | cs_await_handshake_payload \<Rightarrow>
          (case handle_handshake E (app_hdr a) bytes a of
             (Some err, a', out) \<Rightarrow> (next_read_size, Some err, a', out)
           | (None, a', out) \<Rightarrow> (next_read_size, None, a'\<lparr>app_state := cs_await_header\<rparr>, out))
      | cs_await_header \<Rightarrow>
          if length bytes \<noteq> header_size then (next_read_size, Some (Ec ec_unexpected_number_of_bytes), a, [])
          else
            let hdr = from_bytes bytes; a' = a\<lparr>app_hdr := hdr\<rparr> in
            if hdr_payload_len hdr = 0 then (next_read_size, handle_message E hdr [] a')
            else (ucast (hdr_payload_len hdr), None, a'\<lparr>app_state := cs_await_payload\<rparr>, [])
      | cs_await_payload \<Rightarrow>
          if length bytes \<noteq> unat (hdr_payload_len (app_hdr a))
          then (next_read_size, Some (Ec ec_unexpected_number_of_bytes), a, [])
          else (next_read_size, handle_message E (app_hdr a) bytes (a\<lparr>app_state := cs_await_header\<rparr>))
      | cs_shutdown \<Rightarrow> (next_read_size, Some (Ec ec_illegal_state), a, []))"

text \<open>\<open>exactly\<close> takes a \<open>uint32_t\<close>.\<close>

definition handle_data ::
  "('n, 'r, 'c, 'w, 'e) basp_env \<Rightarrow> byte list \<Rightarrow> ('n, 'r, 'c, 'w, 'l) application \<Rightarrow>
   ('n, 'r, 'c, 'w, 'l, 'e) app_result \<times> receive_policy option" where
  "handle_data E bytes a =
     (case app_handle E (of_nat header_size) bytes a of
        (n, None, a', out) \<Rightarrow> ((None, a', out), Some (policy_exactly (ucast n)))
      | (n, Some err, a', out) \<Rightarrow> ((Some err, a', out), None))"

section \<open>Frame facts\<close>

lemma arrive_arrived [simp]: "br_arrived (arrive S hdr p s) = br_arrived s @ [(hdr, p)]"
  by (simp add: arrive_def complete_job_def Let_def split: prod.split)

lemma handle_message_frame:
  assumes "handle_message E hdr p a = (e, a', out)"
  shows "app_state a' = app_state a \<and> app_hdr a' = app_hdr a \<and> peer_id a' = peer_id a"
  using assms unfolding handle_message_def handle_actor_message_def handle_resolve_request_def
    handle_resolve_response_def handle_monitor_message_def handle_down_message_def Let_def
  by (auto split: if_splits sum.splits option.splits prod.splits)

text \<open>A message leaves the run alone, is an arrival, or changes the registries.\<close>

lemma handle_message_run:
  assumes "handle_message E hdr p a = (e, a', out)"
  shows "app_run a' = app_run a \<or> app_run a' = arrive (env_sys E) hdr p (app_run a) \<or>
    (\<exists>w. app_run a' = (app_run a)\<lparr>br_world := w\<rparr>)"
  using assms unfolding handle_message_def handle_actor_message_def handle_resolve_request_def
    handle_resolve_response_def handle_monitor_message_def handle_down_message_def Let_def
  by (auto split: if_splits sum.splits option.splits prod.splits)

section \<open>Packets\<close>

text \<open>
  What a transport does that honours \<open>configure_read(receive_policy::exactly(n))\<close>: it passes on the
  next \<open>n\<close> bytes as soon as it has them and stops after an error. The read sizes are positive.
\<close>

function app_feed ::
  "('n, 'r, 'c, 'w, 'e) basp_env \<Rightarrow> nat \<Rightarrow> byte list \<Rightarrow> ('n, 'r, 'c, 'w, 'l) application \<Rightarrow>
   ('n, 'r, 'c, 'w, 'l, 'e) app_result" where
  "app_feed E n bytes a =
     (if n = 0 \<or> length bytes < n then (None, a, [])
      else
        case handle_data E (take n bytes) a of
          ((None, a', out), Some pol) \<Rightarrow>
            (case app_feed E (unat (max_size pol)) (drop n bytes) a' of (e, a'', out') \<Rightarrow> (e, a'', out @ out'))
        | (res, _) \<Rightarrow> res)"
  by pat_completeness auto
termination
  by (relation "measure (\<lambda>(E, n, bytes, a). length bytes)") auto

declare app_feed.simps [simp del]

text \<open>The same on the level of packets.\<close>

definition wire_packet :: "basp_header \<times> byte list \<Rightarrow> byte list" where
  "wire_packet p = to_bytes (fst p) @ snd p"

definition proper_packet :: "basp_header \<times> byte list \<Rightarrow> bool" where
  "proper_packet p \<longleftrightarrow> unat (hdr_payload_len (fst p)) = length (snd p)"

fun handle_packets ::
  "('n, 'r, 'c, 'w, 'e) basp_env \<Rightarrow> (basp_header \<times> byte list) list \<Rightarrow>
   ('n, 'r, 'c, 'w, 'l) application \<Rightarrow> ('n, 'r, 'c, 'w, 'l, 'e) app_result" where
  "handle_packets E [] a = (None, a, [])"
| "handle_packets E ((hdr, p) # ps) a =
     (case handle_message E hdr p (a\<lparr>app_hdr := hdr\<rparr>) of
        (Some err, a', out) \<Rightarrow> (Some err, a', out)
      | (None, a', out) \<Rightarrow>
          (case handle_packets E ps a' of (e, a'', out') \<Rightarrow> (e, a'', out @ out')))"

lemma app_feed_Nil [simp]: "app_feed E n [] a = (None, a, [])"
  by (subst app_feed.simps) auto

lemma ucast_32_64 [simp]: "ucast (ucast (x :: u32) :: u64) = x"
  by transfer simp

lemma handle_data_header:
  assumes "app_state a = cs_await_header" and "hdr_payload_len hdr \<noteq> 0"
  shows "handle_data E (to_bytes hdr) a =
    ((None, a\<lparr>app_hdr := hdr, app_state := cs_await_payload\<rparr>, []), Some (policy_exactly (hdr_payload_len hdr)))"
  using assms from_bytes_to_bytes [of hdr "[]"] by (simp add: handle_data_def app_handle_def)

text \<open>One packet, with or without payload.\<close>

lemma app_feed_packet:
  fixes a :: "('n, 'r, 'c, 'w, 'l) application"
  assumes st: "app_state a = cs_await_header" and ok: "proper_packet (hdr, p)"
  shows "app_feed E header_size (wire_packet (hdr, p) @ rest) a =
    (case handle_message E hdr p (a\<lparr>app_hdr := hdr\<rparr>) of
       (Some err, a', out) \<Rightarrow> (Some err, a', out)
     | (None, a', out) \<Rightarrow>
         (case app_feed E header_size rest a' of (e, a'', out') \<Rightarrow> (e, a'', out @ out')))"
proof (cases "hdr_payload_len hdr = 0")
  case True
  then have "p = []" using ok by (simp add: proper_packet_def)
  then show ?thesis
    using st True from_bytes_to_bytes [of hdr "[]"]
    by (subst app_feed.simps)
      (auto simp: wire_packet_def handle_data_def app_handle_def policy_exactly_def
        split: prod.splits option.splits)
next
  case False
  let ?n = "unat (hdr_payload_len hdr)"
  let ?a = "a\<lparr>app_hdr := hdr, app_state := cs_await_payload\<rparr>"
  have len: "length p = ?n" "?n \<noteq> 0"
    using ok False unat_eq_zero [of "hdr_payload_len hdr"] by (simp_all add: proper_packet_def)
  have sta: "?a\<lparr>app_state := cs_await_header\<rparr> = a\<lparr>app_hdr := hdr\<rparr>" using st by simp
  have "app_feed E header_size (wire_packet (hdr, p) @ rest) a = app_feed E ?n (p @ rest) ?a"
    using handle_data_header [OF st False, of E]
    by (subst app_feed.simps) (simp add: wire_packet_def policy_exactly_def split: prod.split)
  also have "\<dots> = (case handle_message E hdr p (a\<lparr>app_hdr := hdr\<rparr>) of
       (Some err, a', out) \<Rightarrow> (Some err, a', out)
     | (None, a', out) \<Rightarrow>
         (case app_feed E header_size rest a' of (e, a'', out') \<Rightarrow> (e, a'', out @ out')))"
    using len sta
    by (subst app_feed.simps)
      (auto simp: handle_data_def app_handle_def policy_exactly_def split: prod.splits option.splits)
  finally show ?thesis .
qed

text \<open>
  C12: After the handshake, a stream of well-formed packets is processed packet by packet, each exactly
  once and with its own payload: the read sizes that \<open>handle_data\<close> asks for always match the
  boundaries of the packets.
\<close>

theorem stream_is_packets:
  assumes "app_state a = cs_await_header" and "list_all proper_packet ps"
  shows "app_feed E header_size (concat (map wire_packet ps)) a = handle_packets E ps a"
  using assms
proof (induction ps arbitrary: a)
  case Nil
  then show ?case by simp
next
  case (Cons x ps)
  obtain hdr p where x: "x = (hdr, p)" by (cases x)
  obtain e a' out where h: "handle_message E hdr p (a\<lparr>app_hdr := hdr\<rparr>) = (e, a', out)"
    by (cases "handle_message E hdr p (a\<lparr>app_hdr := hdr\<rparr>)")
  have "app_state a' = cs_await_header" using handle_message_frame [OF h] Cons.prems(1) by simp
  then have "app_feed E header_size (concat (map wire_packet ps)) a' = handle_packets E ps a'"
    using Cons.IH Cons.prems(2) by simp
  then show ?case
    using app_feed_packet [OF Cons.prems(1), of hdr p E "concat (map wire_packet ps)"] Cons.prems(2) h
    by (simp add: x split: option.split)
qed

section \<open>Runs\<close>

text \<open>
  The transport hands chunks to the application, the endpoint manager asks it to send, the scheduler
  resumes workers and the rest of the actor system changes its registries, in any order. Message IDs
  have 64 bits; a run ends before they wrap around.
\<close>

inductive app_step ::
  "('n, 'r, 'c, 'w, 'e) basp_env \<Rightarrow> ('n, 'r, 'c, 'w, 'l) application \<Rightarrow>
   ('n, 'r, 'c, 'w, 'l) application \<Rightarrow> bool" for E where
  data: "length (br_arrived (app_run a)) + 1 < 2 ^ 64 \<Longrightarrow>
    handle_data E bytes a = ((e, a', out), pol) \<Longrightarrow> app_step E a a'"
| send: "write_message E msg receiver a = (e, a', out) \<Longrightarrow> app_step E a a'"
| resolve: "app_resolve E path listener a = (a', out) \<Longrightarrow> app_step E a a'"
| system: "j \<in> set (br_jobs (app_run a)) \<and>
      s = complete_job (env_sys E) j
        ((app_run a)\<lparr>br_jobs := remove1 j (br_jobs (app_run a)), br_idle := br_idle (app_run a) + 1\<rparr>) \<or>
    s = (app_run a)\<lparr>br_world := w\<rparr> \<Longrightarrow> app_step E a (a\<lparr>app_run := s\<rparr>)"

inductive app_reachable ::
  "('n, 'r, 'c, 'w, 'e) basp_env \<Rightarrow> ('n, 'r, 'c, 'w, 'l) application \<Rightarrow> bool" for E where
  start: "app_init E (application_new w) = ((None, a, out), pol) \<Longrightarrow> app_reachable E a"
| step: "app_reachable E a \<Longrightarrow> app_step E a b \<Longrightarrow> app_reachable E b"

definition app_inv :: "('n, 'r, 'c, 'w, 'e) basp_env \<Rightarrow> ('n, 'r, 'c, 'w, 'l) application \<Rightarrow> bool" where
  "app_inv E a \<longleftrightarrow>
     basp_reachable (env_sys E) (app_run a) \<and>
     (app_state a \<in> {cs_await_handshake_header, cs_await_handshake_payload} \<longrightarrow> br_arrived (app_run a) = []) \<and>
     (app_state a \<in> {cs_await_header, cs_await_payload} \<longrightarrow> peer_id a \<noteq> None) \<and>
     app_state a \<noteq> cs_shutdown"

lemma handle_message_app_inv:
  assumes inv: "app_inv E a" and room: "length (br_arrived (app_run a)) + 1 < 2 ^ 64"
    and st: "app_state a = cs_await_header" and h: "handle_message E hdr p a = (e, a', out)"
  shows "app_inv E a'"
proof -
  have r: "basp_reachable (env_sys E) (app_run a)" using inv by (simp add: app_inv_def)
  have "basp_reachable (env_sys E) (app_run a')"
    using handle_message_run [OF h] r basp_reachable.step basp_step.arrival [OF room] basp_step.world by metis
  then show ?thesis using handle_message_frame [OF h] st inv by (simp add: app_inv_def)
qed

lemma app_handle_inv:
  assumes inv: "app_inv E a" and room: "length (br_arrived (app_run a)) + 1 < 2 ^ 64"
    and h: "app_handle E n bytes a = (m, e, a', out)"
  shows "app_inv E a'"
proof (cases "app_state a")
  case cs_await_handshake_header
  then show ?thesis
    using inv h by (auto simp: app_handle_def app_inv_def Let_def split: if_splits)
next
  case cs_await_handshake_payload
  then show ?thesis
    using inv h
    by (auto simp: app_handle_def handle_handshake_def app_inv_def
        split: if_splits sum.splits prod.splits option.splits)
next
  case cs_await_header
  have a1: "app_inv E (a\<lparr>app_hdr := hd\<rparr>)" for hd using inv by (simp add: app_inv_def)
  show ?thesis
  proof (cases "length bytes = header_size \<and> hdr_payload_len (from_bytes bytes) = 0")
    case True
    then have "handle_message E (from_bytes bytes) [] (a\<lparr>app_hdr := from_bytes bytes\<rparr>) = (e, a', out)"
      using h cs_await_header by (simp add: app_handle_def Let_def)
    from handle_message_app_inv [OF a1 _ _ this] show ?thesis using room cs_await_header by simp
  next
    case False
    then show ?thesis
      using h inv cs_await_header by (auto simp: app_handle_def app_inv_def Let_def split: if_splits)
  qed
next
  case cs_await_payload
  have a1: "app_inv E (a\<lparr>app_state := cs_await_header\<rparr>)"
    using inv cs_await_payload by (simp add: app_inv_def)
  show ?thesis
  proof (cases "length bytes = unat (hdr_payload_len (app_hdr a))")
    case True
    then have "handle_message E (app_hdr a) bytes (a\<lparr>app_state := cs_await_header\<rparr>) = (e, a', out)"
      using h cs_await_payload by (simp add: app_handle_def)
    from handle_message_app_inv [OF a1 _ _ this] show ?thesis using room by simp
  next
    case False
    then show ?thesis using h inv cs_await_payload by (simp add: app_handle_def)
  qed
next
  case cs_shutdown
  then show ?thesis using inv by (simp add: app_inv_def)
qed

lemma app_step_inv:
  assumes "app_step E a b" and inv: "app_inv E a"
  shows "app_inv E b"
  using assms(1)
proof (cases rule: app_step.cases)
  case (data bytes e out pol)
  obtain n where "app_handle E (of_nat header_size) bytes a = (n, e, b, out)"
    using data(2) by (auto simp: handle_data_def split: prod.splits option.splits)
  from app_handle_inv [OF inv data(1) this] show ?thesis .
next
  case (send msg receiver e out)
  then obtain w where "b = a \<or> b = set_world w a"
    by (auto simp: write_message_def Let_def split: option.splits sum.splits)
  then show ?thesis using inv basp_reachable.step [OF _ basp_step.world, of "env_sys E" "app_run a" w]
    by (auto simp: app_inv_def)
next
  case (resolve path listener out)
  then have "app_run b = app_run a" "app_state b = app_state a" "peer_id b = peer_id a"
    by (auto simp: app_resolve_def Let_def split: sum.splits)
  then show ?thesis using inv by (simp add: app_inv_def)
next
  case (system j s w)
  have "basp_step (env_sys E) (app_run a) s"
    using system(2) by (elim disjE conjE) (simp_all only: basp_step.resume basp_step.world)
  moreover have "br_arrived s = br_arrived (app_run a)"
    using system(2) by (auto simp: complete_job_def split: prod.splits)
  moreover have "basp_reachable (env_sys E) s"
    using basp_reachable.step [OF _ calculation(1)] inv by (simp add: app_inv_def)
  ultimately show ?thesis using inv system(1) by (auto simp: app_inv_def)
qed

lemma app_reachable_inv: "app_reachable E a \<Longrightarrow> app_inv E a"
proof (induction rule: app_reachable.induct)
  case (start w a out pol)
  then have "app_run a = basp_run_init (worker_count E) w" "app_state a = cs_await_handshake_header"
    by (auto simp: app_init_def application_new_def basp_run_init_def Let_def split: sum.splits)
  then show ?case
    by (simp add: app_inv_def basp_reachable.start) (simp add: basp_run_init_def)
next
  case (step a b)
  then show ?case using app_step_inv by blast
qed

section \<open>Peers\<close>

text \<open>The bytes that an application passes to its transport.\<close>

fun packet_bytes :: "('n, 'r, 'l) effect \<Rightarrow> byte list" where
  "packet_bytes (Write_packet bufs) = concat bufs"
| "packet_bytes _ = []"

abbreviation sent_bytes :: "('n, 'r, 'l) effect list \<Rightarrow> byte list" where
  "sent_bytes out \<equiv> concat (map packet_bytes out)"

lemma packet_with_bytes [simp]:
  "packet_bytes (packet_with ty d p) = wire_packet (Header ty (of_nat (length p)) d, p)"
  by (simp add: packet_with_def wire_packet_def)

lemma proper_packet_with: "length p < 2 ^ 32 \<Longrightarrow> proper_packet (Header ty (of_nat (length p)) d, p)"
  by (simp add: proper_packet_def unat_of_nat)

text \<open>A packet that arrives after the handshake and is the only one.\<close>

lemma feed_packet_with:
  assumes "app_state a = cs_await_header" and "length p < 2 ^ 32"
  shows "app_feed E header_size (wire_packet (Header ty (of_nat (length p)) d, p)) a =
    handle_message E (Header ty (of_nat (length p)) d) p (a\<lparr>app_hdr := Header ty (of_nat (length p)) d\<rparr>)"
  using app_feed_packet [OF assms(1) proper_packet_with [OF assms(2)], where E = E and rest = "[]"]
  by (simp split: prod.split option.split)

lemma handshake_between_peers_aux:
  assumes st: "app_state a = cs_await_handshake_header"
    and p: "p \<noteq> []" "length p < 2 ^ 32"
    and des: "des_handshake E p = Inr (Some n, ids)" "ids \<noteq> []"
  shows "app_feed E header_size (wire_packet (Header mt_handshake (of_nat (length p)) basp_version, p)) a =
    (let h = Header mt_handshake (of_nat (length p)) basp_version in
     if set ids \<inter> set (app_ids E) \<noteq> {}
     then (None, a\<lparr>app_hdr := h, peer_id := Some n, app_state := cs_await_header\<rparr>, [])
     else (Some (Ec ec_app_identifiers_mismatch),
           a\<lparr>app_hdr := h, app_state := cs_await_handshake_payload\<rparr>, []))"
proof -
  let ?h = "Header mt_handshake (of_nat (length p)) basp_version"
  let ?a = "a\<lparr>app_hdr := ?h, app_state := cs_await_handshake_payload\<rparr>"
  have len: "unat (of_nat (length p) :: u32) = length p" using p(2) by (simp add: unat_of_nat)
  then have nz: "(of_nat (length p) :: u32) \<noteq> 0" using p(1) by (metis length_0_conv unat_0)
  have "handle_data E (to_bytes ?h) a = ((None, ?a, []), Some (policy_exactly (of_nat (length p))))"
    using st nz from_bytes_to_bytes [of ?h "[]"] by (simp add: handle_data_def app_handle_def)
  then have "app_feed E header_size (wire_packet (Header mt_handshake (of_nat (length p)) basp_version, p)) a =
      app_feed E (length p) p ?a"
    by (subst app_feed.simps) (simp add: wire_packet_def policy_exactly_def len split: prod.split)
  also have "\<dots> = (let h = ?h in
     if set ids \<inter> set (app_ids E) \<noteq> {}
     then (None, a\<lparr>app_hdr := h, peer_id := Some n, app_state := cs_await_header\<rparr>, [])
     else (Some (Ec ec_app_identifiers_mismatch),
           a\<lparr>app_hdr := h, app_state := cs_await_handshake_payload\<rparr>, []))"
    using p(1) des
    by (subst app_feed.simps)
      (auto simp: handle_data_def app_handle_def handle_handshake_def list_ex_iff Let_def)
  finally show ?thesis .
qed

section \<open>Properties\<close>

text \<open>
  An environment for witnesses. Node \<open>n\<close> is the byte \<open>n + 1\<close> and 0 the invalid node, strings carry
  their length in one byte, an actor ID is one byte, errors are one byte. Every node has one actor with
  the ID 1 and the name \<open>echo\<close>.
\<close>

definition str_bytes :: "string \<Rightarrow> byte list" where
  "str_bytes = map (\<lambda>c. of_nat (of_char c))"

lemma chars_of_str_bytes [simp]: "chars_of (str_bytes s) = s"
proof (induction s)
  case (Cons c s)
  have "of_char c < (256 :: nat)" using of_char_mod_256 [of c] by (metis mod_less_divisor zero_less_numeral)
  then have "char_of (unat (of_nat (of_char c) :: byte)) = c"
    by (simp add: unat_of_nat_byte)
  then show ?case using Cons by (simp add: chars_of_def str_bytes_def)
qed (simp add: chars_of_def str_bytes_def)

lemma length_str_bytes [simp]: "length (str_bytes s) = length s"
  by (simp add: str_bytes_def)

definition put_str :: "string \<Rightarrow> byte list" where
  "put_str s = of_nat (length s) # str_bytes s"

fun get_strs :: "nat \<Rightarrow> byte list \<Rightarrow> string list" where
  "get_strs 0 bs = []"
| "get_strs (Suc n) [] = []"
| "get_strs (Suc n) (b # bs) = chars_of (take (unat b) bs) # get_strs n (drop (unat b) bs)"

lemma get_strs_Nil [simp]: "get_strs n [] = []"
  by (cases n) simp_all

lemma get_put_str: "length s < 256 \<Longrightarrow> get_strs (length (put_str s)) (put_str s) = [s]"
  by (simp add: put_str_def unat_of_nat_byte)

definition sample_basp_env :: "nat \<Rightarrow> (nat, nat, byte list, unit, unit) basp_env" where
  "sample_basp_env node =
     \<lparr>env_sys =
        \<lparr>des_message = (\<lambda>p. case p of n # s # d # bs \<Rightarrow>
             Some (if n = 0 then None else Some (unat n - 1), ucast s, ucast d, [], bs) | _ \<Rightarrow> None),
         registry_get = (\<lambda>i w. if i = 1 then Some 1 else None),
         get_or_put = (\<lambda>n i w. (w, Some (unat i + 100)))\<rparr>,
      env_node = Some node, cfg_workers = Some 0, hardware_concurrency = 8,
      cfg_app_ids = None, default_app_id = ''generic'',
      ser_handshake = (\<lambda>n ids. Inr ((case n of None \<Rightarrow> 0 | Some k \<Rightarrow> of_nat (k + 1)) # concat (map put_str ids))),
      des_handshake = (\<lambda>bs. case bs of [] \<Rightarrow> Inl (Other_error ()) | b # bs \<Rightarrow>
           Inr (if b = 0 then None else Some (unat b - 1), get_strs (length bs) bs)),
      ser_routing = (\<lambda>n s d stages.
           if stages = [] then Inr [case n of None \<Rightarrow> 0 | Some k \<Rightarrow> of_nat (k + 1), ucast s, ucast d]
           else Inl (Other_error ())),
      ser_content = Inr,
      ser_path = (\<lambda>s. Inr (put_str s)),
      des_sequence = (\<lambda>bs. case bs of [] \<Rightarrow> Inl (Other_error ()) | b # bs \<Rightarrow> Inr (unat b, bs)),
      ser_resolved = (\<lambda>i ifs. Inr [ucast i]),
      des_resolved = (\<lambda>bs. case bs of [i] \<Rightarrow> Inr (ucast i, {}) | _ \<Rightarrow> Inl (Other_error ())),
      ser_error = (\<lambda>e. Inr [case e of Ec c \<Rightarrow> ec_to_integer c | Exit_unknown \<Rightarrow> 100 | Other_error _ \<Rightarrow> 101]),
      des_error = (\<lambda>bs. case bs of [b] \<Rightarrow> Inr (if b = 100 then Exit_unknown else Other_error ()) | _ \<Rightarrow> Inl (Other_error ())),
      parse_actor_id = (\<lambda>s. if s = ''1'' then Some 1 else None),
      parse_name = Some,
      actor_id_of = of_nat, actor_node_of = (\<lambda>r. Some node),
      registry_put = (\<lambda>i r w. w),
      registry_get_name = (\<lambda>s w. if s = ''echo'' then Some 1 else None),
      proxies_erase = (\<lambda>n i e w. w)\<rparr>"

lemma app_ids_sample: "app_ids (sample_basp_env n) = [''generic'']"
  by (simp add: app_ids_def sample_basp_env_def)

lemma ser_handshake_sample:
  "env_node (sample_basp_env n) = Some n"
  "ser_handshake (sample_basp_env m) (Some n) [s] = Inr (of_nat (n + 1) # put_str s)"
  by (simp_all add: sample_basp_env_def)

definition sample_app :: "nat \<Rightarrow> (nat, nat, byte list, unit, nat) application" where
  "sample_app peer = (application_new ())\<lparr>app_state := cs_await_header, peer_id := Some peer\<rparr>"

theorem stream_is_packets_witness:
  "app_feed (sample_basp_env 1) header_size
     (concat (map wire_packet [(Header mt_heartbeat 0 0, []), (Header mt_actor_message 4 7, [0, 0, 1, 42])])) (sample_app 2) =
   handle_packets (sample_basp_env 1)
     [(Header mt_heartbeat 0 0, []), (Header mt_actor_message 4 7, [0, 0, 1, 42])] (sample_app 2)"
  by (rule stream_is_packets) (simp_all add: sample_app_def proper_packet_def)



text \<open>
  C14: The handshake that one application writes in \<open>init\<close> is understood by its peer: if the peers share
  an application identifier, the receiver enters the state for messages and knows the node ID of the
  sender; otherwise it reports the mismatch and does not enter that state. Nothing is sent in reply.
\<close>

theorem handshake_between_peers:
  assumes "app_init EB b = ((None, b', out), pol)" and "env_node EB = Some n" and "app_ids EB \<noteq> []"
    and "app_state a = cs_await_handshake_header"
    and ser: "ser_handshake EB (Some n) (app_ids EB) = Inr p" and "p \<noteq> []" and "length p < 2 ^ 32"
    and des: "des_handshake EA p = Inr (Some n, app_ids EB)"
  shows "app_feed EA header_size (sent_bytes out) a =
    (let h = Header mt_handshake (of_nat (length p)) basp_version in
     if set (app_ids EB) \<inter> set (app_ids EA) \<noteq> {}
     then (None, a\<lparr>app_hdr := h, peer_id := Some n, app_state := cs_await_header\<rparr>, [])
     else (Some (Ec ec_app_identifiers_mismatch),
           a\<lparr>app_hdr := h, app_state := cs_await_handshake_payload\<rparr>, []))"
proof -
  have "out = [packet_with mt_handshake basp_version p]"
    using assms(1,2) ser by (simp add: app_init_def generate_handshake_def)
  then show ?thesis
    using handshake_between_peers_aux [OF assms(4,6,7) des assms(3)] by simp
qed

theorem handshake_between_peers_witness:
  "peer_id (fst (snd (app_feed (sample_basp_env 1) header_size
     (sent_bytes (snd (snd (fst (app_init (sample_basp_env 2) (application_new () :: (nat, nat, byte list, unit, nat) application))))))
     (application_new () :: (nat, nat, byte list, unit, nat) application)))) = Some 2"
proof -
  let ?p = "3 # put_str ''generic''"
  obtain b' :: "(nat, nat, byte list, unit, nat) application" and out pol
    where i: "app_init (sample_basp_env 2) (application_new ()) = ((None, b', out), pol)"
    by (simp add: app_init_def generate_handshake_def sample_basp_env_def)
  have "des_handshake (sample_basp_env 1) ?p = Inr (Some 2, app_ids (sample_basp_env 2))"
    using get_put_str [of "''generic''"] by (simp add: sample_basp_env_def app_ids_def)
  from handshake_between_peers [OF i _ _ _ _ _ _ this,
      of "application_new () :: (nat, nat, byte list, unit, nat) application"] show ?thesis
    by (simp add: i app_ids_sample ser_handshake_sample put_str_def Let_def)
qed

text \<open>
  C15: A resolve request and its answer: the peer answers with the ID of the actor it knows under the
  path (0 if there is none), and the listener of the request, and nobody else, receives the proxy that
  the registry provides for this ID and the peer (no actor for 0). The request is no longer pending.
\<close>

theorem resolve_round_trip:
  assumes "app_state a = cs_await_header" and "app_state b = cs_await_header"
    and fresh: "pending_resolves a (next_request_id a) = None"
    and path: "ser_path EA path = Inr p" "des_sequence EB p = Inr (length path, str_bytes path)" "length p < 2 ^ 32"
    and aid: "aid = (case resolve_local_path EB path (app_world b) of None \<Rightarrow> 0 | Some r \<Rightarrow> actor_id_of EB r)"
    and answer: "ser_resolved EB aid {} = Inr q" "des_resolved EA q = Inr (aid, {})" "length q < 2 ^ 32"
    and r1: "app_resolve EA path listener a = (a1, out1)"
    and r2: "app_feed EB header_size (sent_bytes out1) b = (e2, b2, out2)"
    and r3: "app_feed EA header_size (sent_bytes out2) a1 = (e3, a3, out3)"
  shows "e2 = None \<and> e3 = None \<and> pending_resolves a3 = pending_resolves a \<and>
    out3 = [Anon_send listener
      (Resolved (if aid = 0 then None else snd (get_or_put (env_sys EA) (peer_id a) aid (app_world a))) {})]"
proof -
  let ?i = "next_request_id a"
  let ?a1 = "a\<lparr>next_request_id := ?i + 1, pending_resolves := (pending_resolves a)(?i \<mapsto> listener)\<rparr>"
  have o1: "a1 = ?a1" "sent_bytes out1 = wire_packet (Header mt_resolve_request (of_nat (length p)) ?i, p)"
    using r1 path(1) fresh by (auto simp: app_resolve_def Let_def)
  have o2: "e2 = None" "sent_bytes out2 = wire_packet (Header mt_resolve_response (of_nat (length q)) ?i, q)"
    using r2 o1(2) feed_packet_with [OF assms(2) path(3), of EB mt_resolve_request ?i] path(2) answer(1) aid
    by (auto simp: handle_message_def handle_resolve_request_def split: option.splits)
  have "app_state a1 = cs_await_header" using o1(1) assms(1) by simp
  from feed_packet_with [OF this answer(3), of EA mt_resolve_response ?i] show ?thesis
    using r3 o2 o1(1) answer(2) fresh
    by (auto simp: handle_message_def handle_resolve_response_def fun_upd_idem split: if_splits prod.splits)
qed

theorem resolve_round_trip_witness:
  "\<exists>a1 out1 b2 out2 a3 out3.
     app_resolve (sample_basp_env 1) ''name/echo'' 5 (sample_app 2) = (a1, out1) \<and>
     app_feed (sample_basp_env 2) header_size (sent_bytes out1) (sample_app 1) = (None, b2, out2) \<and>
     app_feed (sample_basp_env 1) header_size (sent_bytes out2) a1 = (None, a3, out3) \<and>
     out3 = [Anon_send 5 (Resolved (Some 101) {})]"
proof -
  obtain a1 out1 where r1: "app_resolve (sample_basp_env 1) ''name/echo'' 5 (sample_app 2) = (a1, out1)"
    by (cases "app_resolve (sample_basp_env 1) ''name/echo'' 5 (sample_app 2)")
  obtain e2 b2 out2 where r2: "app_feed (sample_basp_env 2) header_size (sent_bytes out1) (sample_app 1) = (e2, b2, out2)"
    using surj_pair by metis
  obtain e3 a3 out3 where r3: "app_feed (sample_basp_env 1) header_size (sent_bytes out2) a1 = (e3, a3, out3)"
    using surj_pair by metis
  have aid: "(1 :: u64) = (case resolve_local_path (sample_basp_env 2) ''name/echo'' (app_world (sample_app 1)) of
      None \<Rightarrow> 0 | Some r \<Rightarrow> actor_id_of (sample_basp_env 2) r)"
    by (simp add: resolve_local_path_def starts_with_def sample_basp_env_def)
  show ?thesis
    using resolve_round_trip [OF _ _ _ _ _ _ aid _ _ _ r1 r2 r3, of "put_str ''name/echo''" "[1]"] r1 r2 r3
    by (simp add: sample_app_def application_new_def sample_basp_env_def put_str_def)
qed



end
