(* ===== verification/Ip.thy ===== *)
theory Ip
  imports Net_Enums
begin

unbundle bit_operations_syntax

text \<open>
  Addresses and name resolution: \<open>detail/sockaddr_members.hpp\<close>, \<open>convert_ip_endpoint.cpp\<close> and the
  POSIX part of \<open>ip.cpp\<close>. The types \<open>ip_address\<close> and \<open>ip_subnet\<close> belong to the CAF core library:
  \<open>'a\<close> is the type of addresses and \<open>ip_ops\<close> holds the operations the sources call on it. The
  system's address lists are operations of \<open>ip_sys\<close>. Ports in socket addresses are kept in network
  order, as in C; the host is little-endian.
\<close>

section \<open>Addresses\<close>

record 'a ip_ops =
  embeds_v4 :: "'a \<Rightarrow> bool"
  embedded_v4 :: "'a \<Rightarrow> u32"
  v6_bytes :: "'a \<Rightarrow> byte list"
  of_v4 :: "u32 \<Rightarrow> 'a"
  of_v6 :: "byte list \<Rightarrow> 'a"
  v6_prefix_suffix :: "u16 list \<Rightarrow> u16 list \<Rightarrow> 'a"
  make_ipv4_address :: "u8 \<Rightarrow> u8 \<Rightarrow> u8 \<Rightarrow> u8 \<Rightarrow> 'a"
  ip_zero :: "'a \<Rightarrow> bool"
  ip_to_string :: "'a \<Rightarrow> string"
  v4_to_string :: "u32 \<Rightarrow> string"
  parse_ip :: "string \<Rightarrow> 'a option"
  subnet_contains :: "'a \<Rightarrow> u8 \<Rightarrow> 'a \<Rightarrow> bool"

record 'a ip_endpoint =
  ep_address :: 'a
  ep_port :: u16

text \<open>Socket addresses of any family; the last case is a family that is neither.\<close>

datatype sockaddr =
    Sockaddr_in u16 u32
  | Sockaddr_in6 u16 "byte list"
  | Sockaddr_other u16

definition htons :: "u16 \<Rightarrow> u16" where
  "htons w = push_bit 8 w OR drop_bit 8 w"

lemma htons_htons [simp]: "htons (htons w) = w"
  unfolding htons_def
  by (rule bit_word_eqI) (auto simp: bit_simps not_less)

definition convert_endpoint :: "'a ip_ops \<Rightarrow> 'a ip_endpoint \<Rightarrow> sockaddr" where
  "convert_endpoint A src =
     (if embeds_v4 A (ep_address src)
      then Sockaddr_in (htons (ep_port src)) (embedded_v4 A (ep_address src))
      else Sockaddr_in6 (htons (ep_port src)) (v6_bytes A (ep_address src)))"

definition convert_sockaddr :: "'a ip_ops \<Rightarrow> sockaddr \<Rightarrow> sec + 'a ip_endpoint" where
  "convert_sockaddr A src =
     (case src of
        Sockaddr_in p a \<Rightarrow> Inr \<lparr>ep_address = of_v4 A a, ep_port = htons p\<rparr>
      | Sockaddr_in6 p a \<Rightarrow> Inr \<lparr>ep_address = of_v6 A a, ep_port = htons p\<rparr>
      | Sockaddr_other _ \<Rightarrow> Inl sec_invalid_argument)"

text \<open>What the addresses promise: the representations determine an address.\<close>

definition ip_ops_ok :: "'a ip_ops \<Rightarrow> bool" where
  "ip_ops_ok A \<longleftrightarrow>
     (\<forall>a. if embeds_v4 A a then of_v4 A (embedded_v4 A a) = a else of_v6 A (v6_bytes A a) = a)"

section \<open>Name resolution\<close>

text \<open>\<open>None\<close> for a call that fails; a null pointer instead of an address is \<open>None\<close> in a list.\<close>

record ip_sys =
  getaddrinfo :: "string option \<Rightarrow> string option \<Rightarrow> bool \<Rightarrow> sockaddr option list option"
  getifaddrs :: "(string \<times> sockaddr option) list option"
  inet_ntop :: "sockaddr \<Rightarrow> string option"

definition fetch_addr_str :: "ip_sys \<Rightarrow> sockaddr option \<Rightarrow> string option" where
  "fetch_addr_str S addr =
     (case addr of
        None \<Rightarrow> None
      | Some (Sockaddr_other _) \<Rightarrow> None
      | Some sa \<Rightarrow> inet_ntop S sa)"

definition is_prefix_of :: "string \<Rightarrow> string \<Rightarrow> bool" where
  "is_prefix_of p s \<longleftrightarrow> take (length p) s = p"

text \<open>The interfaces for which \<open>f\<close> is called, in order.\<close>

fun adapter_calls :: "'a ip_ops \<Rightarrow> ip_sys \<Rightarrow> bool \<Rightarrow> (string \<times> sockaddr option) list \<Rightarrow> (string \<times> 'a) list" where
  "adapter_calls A S is_link_local [] = []"
| "adapter_calls A S is_link_local ((name, addr) # rest) =
     (case fetch_addr_str S addr of
        None \<Rightarrow> adapter_calls A S is_link_local rest
      | Some buffer \<Rightarrow>
          if \<not> is_link_local \<and> is_prefix_of ''fe80:'' buffer then adapter_calls A S is_link_local rest
          else
            case parse_ip A buffer of
              None \<Rightarrow> adapter_calls A S is_link_local rest
            | Some ip \<Rightarrow> (name, ip) # adapter_calls A S is_link_local rest)"

definition for_each_adapter :: "'a ip_ops \<Rightarrow> ip_sys \<Rightarrow> bool \<Rightarrow> (string \<times> 'a) list" where
  "for_each_adapter A S is_link_local =
     (case getifaddrs S of None \<Rightarrow> [] | Some l \<Rightarrow> adapter_calls A S is_link_local l)"

fun parse_results :: "'a ip_ops \<Rightarrow> ip_sys \<Rightarrow> sockaddr option list \<Rightarrow> 'a list" where
  "parse_results A S [] = []"
| "parse_results A S (addr # rest) =
     (case fetch_addr_str S addr of
        None \<Rightarrow> parse_results A S rest
      | Some buffer \<Rightarrow>
          case parse_ip A buffer of
            None \<Rightarrow> parse_results A S rest
          | Some ip \<Rightarrow> ip # parse_results A S rest)"

definition resolve_host :: "'a ip_ops \<Rightarrow> ip_sys \<Rightarrow> string \<Rightarrow> 'a list" where
  "resolve_host A S host =
     (case getaddrinfo S (if host = [] then None else Some host) (if host = [] then Some ''42'' else None) (host = []) of
        None \<Rightarrow> []
      | Some addrs \<Rightarrow> parse_results A S addrs)"

definition resolve_ip :: "'a ip_ops \<Rightarrow> ip_sys \<Rightarrow> 'a \<Rightarrow> 'a list" where
  "resolve_ip A S host = resolve_host A S (ip_to_string A host)"

definition local_addresses_ip :: "'a ip_ops \<Rightarrow> ip_sys \<Rightarrow> 'a \<Rightarrow> 'a list" where
  "local_addresses_ip A S host =
     (if host = make_ipv4_address A 0 0 0 0 \<or> host = v6_prefix_suffix A [0] [0] then resolve_host A S []
      else
        let link_local = v6_prefix_suffix A [0xfe, 0x8, 0x0, 0x0] [0x0, 0x0, 0x0, 0x0];
            is_link_local = subnet_contains A link_local 10 host
        in map snd (filter (\<lambda>(_, ip). host = ip) (for_each_adapter A S is_link_local)))"

definition local_addresses :: "'a ip_ops \<Rightarrow> ip_sys \<Rightarrow> string \<Rightarrow> 'a list" where
  "local_addresses A S host =
     (if host = [] then map snd (for_each_adapter A S False)
      else if host = ''localhost'' then
        map snd (filter (\<lambda>(_, ip). ip = make_ipv4_address A 127 0 0 1 \<or> ip = v6_prefix_suffix A [0] [1])
          (for_each_adapter A S False))
      else
        case parse_ip A host of
          None \<Rightarrow> map snd (filter (\<lambda>(iface, _). iface = host) (for_each_adapter A S False))
        | Some host_ip \<Rightarrow> local_addresses_ip A S host_ip)"

text \<open>
  \<open>hostname\<close>: an uninitialized buffer of \<open>HOST_NAME_MAX + 1\<close> characters whose last one is cleared is filled
  by \<open>gethostname\<close> and read up to the first null character.
\<close>

definition host_name :: "(string \<Rightarrow> nat \<Rightarrow> string) \<Rightarrow> nat \<Rightarrow> string \<Rightarrow> string" where
  "host_name gethostname host_name_max buf =
     takeWhile (\<lambda>c. c \<noteq> CHR 0x00) (gethostname (buf[host_name_max := CHR 0x00]) host_name_max)"

section \<open>Properties\<close>

text \<open>
  Whatever \<open>gethostname\<close> does within the bytes it is given, failing included, the name ends within the
  buffer.
\<close>

lemma hostname_ends_in_buffer:
  assumes "length buf = Suc n" and "\<And>b. drop n (gethostname b n) = drop n b"
  shows "length (host_name gethostname n buf) \<le> n"
proof -
  let ?b = "gethostname (buf[n := CHR 0x00]) n"
  have "drop n ?b = [CHR 0x00]" using assms by (simp add: drop_update_swap Cons_nth_drop_Suc [symmetric])
  then have b: "?b = take n ?b @ [CHR 0x00]" using append_take_drop_id [of n ?b] by simp
  have "takeWhile (\<lambda>c. c \<noteq> CHR 0x00) (take n ?b @ [CHR 0x00]) = takeWhile (\<lambda>c. c \<noteq> CHR 0x00) (take n ?b)"
    by (rule takeWhile_tail) simp
  then have eq: "host_name gethostname n buf = takeWhile (\<lambda>c. c \<noteq> CHR 0x00) (take n ?b)"
    unfolding host_name_def by (subst b)
  show ?thesis
    unfolding eq using length_takeWhile_le [of _ "take n ?b"] by (rule order_trans) simp
qed

lemma adapter_calls_sound:
  assumes "(name, ip) \<in> set (adapter_calls A S ll l)"
  shows "\<exists>addr buf. (name, addr) \<in> set l \<and> fetch_addr_str S addr = Some buf \<and> parse_ip A buf = Some ip \<and>
    (ll \<or> \<not> is_prefix_of ''fe80:'' buf)"
  using assms
proof (induction l)
  case Nil
  then show ?case by simp
next
  case (Cons x l)
  obtain n addr where x: "x = (n, addr)" by (cases x)
  show ?case
  proof (cases "(name, ip) \<in> set (adapter_calls A S ll l)")
    case True
    then show ?thesis using Cons.IH by (meson list.set_intros(2))
  next
    case False
    then have "n = name \<and> (\<exists>buf. fetch_addr_str S addr = Some buf \<and> parse_ip A buf = Some ip \<and>
        (ll \<or> \<not> is_prefix_of ''fe80:'' buf))"
      using Cons.prems by (auto simp: x split: option.splits if_splits)
    then show ?thesis using x by auto
  qed
qed

text \<open>
  An instance with addresses as eight 16-bit groups, for witnesses; IPv4 addresses are embedded as
  \<open>::ffff:a.b.c.d\<close>. Of the printed forms, the witnesses need one link-local address.
\<close>

definition groups :: "byte list \<Rightarrow> u16 list" where
  "groups bs = map (\<lambda>i. ucast (bs ! (2 * i)) * 256 + ucast (bs ! (2 * i + 1))) [0 ..< 8]"

definition sample_ip :: "(u16 list) ip_ops" where
  "sample_ip =
     \<lparr>embeds_v4 = (\<lambda>a. length a = 8 \<and> take 6 a = [0, 0, 0, 0, 0, 0xffff]),
      embedded_v4 = (\<lambda>a. ucast (a ! 6) * 65536 + ucast (a ! 7)),
      v6_bytes = (\<lambda>a. concat (map (\<lambda>g. [ucast (drop_bit 8 g), ucast g]) a)),
      of_v4 = (\<lambda>b. [0, 0, 0, 0, 0, 0xffff, ucast (drop_bit 16 b), ucast b]),
      of_v6 = groups,
      v6_prefix_suffix = (\<lambda>p s. p @ replicate (8 - length p - length s) 0 @ s),
      make_ipv4_address = (\<lambda>a b c d. [0, 0, 0, 0, 0, 0xffff, ucast a * 256 + ucast b, ucast c * 256 + ucast d]),
      ip_zero = (\<lambda>a. a = replicate 8 0),
      ip_to_string = (\<lambda>a. if a = [0xfe80, 0, 0, 0, 0, 0, 0, 1] then ''fe80::1'' else ''?''),
      v4_to_string = (\<lambda>b. ''?''),
      parse_ip = (\<lambda>s. if s = ''fe80::1'' then Some [0xfe80, 0, 0, 0, 0, 0, 0, 1] else None),
      subnet_contains = (\<lambda>net n a. drop_bit (16 - unat n) (net ! 0) = drop_bit (16 - unat n) (a ! 0))\<rparr>"

text \<open>
  Converting an endpoint to a socket address and back yields the endpoint, for both families,
  address and port; a socket address of another family is rejected.
\<close>

lemma convert_round_trip:
  assumes "ip_ops_ok A"
  shows "convert_sockaddr A (convert_endpoint A ep) = Inr ep \<and>
    convert_sockaddr A (Sockaddr_other f) = Inl sec_invalid_argument"
proof -
  have "if embeds_v4 A (ep_address ep) then of_v4 A (embedded_v4 A (ep_address ep)) = ep_address ep
        else of_v6 A (v6_bytes A (ep_address ep)) = ep_address ep"
    using assms unfolding ip_ops_ok_def by (rule spec)
  then show ?thesis by (simp add: convert_sockaddr_def convert_endpoint_def split: if_splits)
qed

text \<open>The instance on the Boolean choice between two addresses, one of each family.\<close>

definition two_addresses :: "bool ip_ops" where
  "two_addresses =
     \<lparr>embeds_v4 = (\<lambda>a. a), embedded_v4 = (\<lambda>a. 0x100007f), v6_bytes = (\<lambda>a. replicate 15 0 @ [1]),
      of_v4 = (\<lambda>b. b = 0x100007f), of_v6 = (\<lambda>bs. bs \<noteq> replicate 15 0 @ [1]),
      v6_prefix_suffix = (\<lambda>p s. False), make_ipv4_address = (\<lambda>a b c d. True), ip_zero = (\<lambda>a. False),
      ip_to_string = (\<lambda>a. if a then ''127.0.0.1'' else ''::1''), v4_to_string = (\<lambda>b. ''127.0.0.1''),
      parse_ip = (\<lambda>s. None), subnet_contains = (\<lambda>n p a. False)\<rparr>"

lemma convert_round_trip_sample:
  "convert_sockaddr two_addresses (convert_endpoint two_addresses \<lparr>ep_address = True, ep_port = 8080\<rparr>) =
     Inr \<lparr>ep_address = True, ep_port = 8080\<rparr>"
proof -
  have "ip_ops_ok two_addresses" by (simp add: ip_ops_ok_def two_addresses_def)
  from convert_round_trip [OF this] show ?thesis by simp
qed



end
