(* ===== verification/Sockets.thy ===== *)
theory Sockets
  imports Ip
begin

unbundle bit_operations_syntax

text \<open>
  The POSIX part of the socket functions (\<open>socket.cpp\<close>, \<open>network_socket.cpp\<close>, \<open>stream_socket.cpp\<close>,
  \<open>datagram_socket.cpp\<close>, \<open>udp_datagram_socket.cpp\<close>, \<open>tcp_stream_socket.cpp\<close>, \<open>tcp_accept_socket.cpp\<close>,
  \<open>pipe_socket.cpp\<close>, \<open>socket_guard.hpp\<close>, \<open>net_syscall.hpp\<close>). The system calls are operations of an
  environment on the state \<open>'k\<close> of the kernel. A C \<open>int\<close> is a 32-bit word. Functions that return an
  \<open>error\<close> or an \<open>expected\<close> return a sum; the context arguments of \<open>make_error\<close> are concatenated.
\<close>

section \<open>System calls\<close>

type_synonym c_int = "32 word"
type_synonym socket_id = c_int

abbreviation (input) invalid_socket_id :: socket_id where "invalid_socket_id \<equiv> - 1"

datatype af = AF_INET | AF_INET6
datatype socktype = SOCK_STREAM | SOCK_DGRAM
datatype fcntl_cmd = F_GETFD | F_SETFD c_int | F_GETFL | F_SETFL c_int
datatype sockopt = SO_REUSEADDR | SO_KEEPALIVE | SO_SNDBUF | TCP_NODELAY | IPV6_V6ONLY

record 'k posix =
  px_socket :: "af \<Rightarrow> socktype \<Rightarrow> bool \<Rightarrow> 'k \<Rightarrow> c_int \<times> 'k"
  px_close :: "socket_id \<Rightarrow> 'k \<Rightarrow> 'k"
  px_fcntl :: "socket_id \<Rightarrow> fcntl_cmd \<Rightarrow> 'k \<Rightarrow> c_int \<times> 'k"
  px_setsockopt :: "socket_id \<Rightarrow> sockopt \<Rightarrow> c_int \<Rightarrow> 'k \<Rightarrow> c_int \<times> 'k"
  px_getsockopt :: "socket_id \<Rightarrow> sockopt \<Rightarrow> 'k \<Rightarrow> (c_int \<times> c_int) \<times> 'k"
  px_bind :: "socket_id \<Rightarrow> sockaddr \<Rightarrow> 'k \<Rightarrow> c_int \<times> 'k"
  px_listen :: "socket_id \<Rightarrow> 'k \<Rightarrow> c_int \<times> 'k"
  px_connect :: "socket_id \<Rightarrow> sockaddr \<Rightarrow> 'k \<Rightarrow> c_int \<times> 'k"
  px_accept :: "socket_id \<Rightarrow> 'k \<Rightarrow> c_int \<times> 'k"
  px_getsockname :: "socket_id \<Rightarrow> 'k \<Rightarrow> (c_int \<times> sockaddr) \<times> 'k"
  px_getpeername :: "socket_id \<Rightarrow> 'k \<Rightarrow> (c_int \<times> sockaddr) \<times> 'k"
  px_shutdown :: "socket_id \<Rightarrow> c_int \<Rightarrow> 'k \<Rightarrow> 'k"
  px_pipe :: "'k \<Rightarrow> (c_int \<times> socket_id \<times> socket_id) \<times> 'k"
  px_socketpair :: "'k \<Rightarrow> (c_int \<times> socket_id \<times> socket_id) \<times> 'k"
  px_recvfrom :: "socket_id \<Rightarrow> nat \<Rightarrow> 'k \<Rightarrow> (int \<times> byte list \<times> sockaddr) \<times> 'k"
  px_sendmsg :: "socket_id \<Rightarrow> byte list list \<Rightarrow> sockaddr \<Rightarrow> 'k \<Rightarrow> int \<times> 'k"
  px_inet_pton4 :: "string \<Rightarrow> u32 option"
  px_inet_pton6 :: "string \<Rightarrow> byte list option"
  px_inet_ntop :: "sockaddr \<Rightarrow> string"
  px_errno :: "'k \<Rightarrow> c_int"
  px_strerror :: "c_int \<Rightarrow> string"
  px_EAGAIN :: c_int
  px_EWOULDBLOCK :: c_int
  px_FD_CLOEXEC :: c_int
  px_O_NONBLOCK :: c_int

type_synonym ('k, 'a) sys = "(caf_error + 'a) \<times> 'k"

text \<open>\<open>CAF_NET_SYSCALL(funname, var, op, rhs, expr)\<close> followed by the rest of the function\<close>

definition net_syscall ::
  "'k posix \<Rightarrow> string \<Rightarrow> bool \<Rightarrow> 'k \<Rightarrow> ('k \<Rightarrow> ('k, 'a) sys) \<Rightarrow> ('k, 'a) sys" where
  "net_syscall P funname failed k rest =
     (if failed
      then (Inl (Sec_error sec_network_syscall_failed (funname @ '': '' @ px_strerror P (px_errno P k))), k)
      else rest k)"

text \<open>
  \<open>auto guard = make_socket_guard(sock); ...\<close>: the destructor closes the socket unless the function
  released it. Every function that uses a guard releases it exactly when it succeeds.
\<close>

definition socket_guarded :: "'k posix \<Rightarrow> socket_id \<Rightarrow> ('k, 'a) sys \<Rightarrow> ('k, 'a) sys" where
  "socket_guarded P sock r =
     (case r of
        (Inl err, k) \<Rightarrow> (Inl err, if sock \<noteq> invalid_socket_id then px_close P sock k else k)
      | (Inr x, k) \<Rightarrow> (Inr x, k))"

section \<open>Sockets (socket.cpp)\<close>

definition socket_close :: "'k posix \<Rightarrow> socket_id \<Rightarrow> 'k \<Rightarrow> 'k" where
  "socket_close P fd k = px_close P fd k"

definition socket_compare :: "socket_id \<Rightarrow> socket_id \<Rightarrow> c_int" where
  "socket_compare x y = x - y"

definition last_socket_error_is_temporary :: "'k posix \<Rightarrow> 'k \<Rightarrow> bool" where
  "last_socket_error_is_temporary P k \<longleftrightarrow> px_errno P k = px_EAGAIN P \<or> px_errno P k = px_EWOULDBLOCK P"

definition would_block_or_temporarily_unavailable :: "'k posix \<Rightarrow> c_int \<Rightarrow> bool" where
  "would_block_or_temporarily_unavailable P errcode \<longleftrightarrow> errcode = px_EAGAIN P \<or> errcode = px_EWOULDBLOCK P"

definition child_process_inherit :: "'k posix \<Rightarrow> socket_id \<Rightarrow> bool \<Rightarrow> 'k \<Rightarrow> ('k, unit) sys" where
  "child_process_inherit P x new_value k =
     (let (rf, k) = px_fcntl P x F_GETFD k in
      net_syscall P ''fcntl'' (rf = - 1) k (\<lambda>k.
        let wf = (if \<not> new_value then rf OR px_FD_CLOEXEC P else rf AND NOT (px_FD_CLOEXEC P));
            (res, k) = px_fcntl P x (F_SETFD wf) k in
        net_syscall P ''fcntl'' (res = - 1) k (\<lambda>k. (Inr (), k))))"

definition nonblocking :: "'k posix \<Rightarrow> socket_id \<Rightarrow> bool \<Rightarrow> 'k \<Rightarrow> ('k, unit) sys" where
  "nonblocking P x new_value k =
     (let (rf, k) = px_fcntl P x F_GETFL k in
      net_syscall P ''fcntl'' (rf = - 1) k (\<lambda>k.
        let wf = (if new_value then rf OR px_O_NONBLOCK P else rf AND NOT (px_O_NONBLOCK P));
            (res, k) = px_fcntl P x (F_SETFL wf) k in
        net_syscall P ''fcntl'' (res = - 1) k (\<lambda>k. (Inr (), k))))"

section \<open>Network sockets (network\_socket.cpp)\<close>

definition allow_sigpipe :: "socket_id \<Rightarrow> bool \<Rightarrow> caf_error option" where
  "allow_sigpipe x new_value =
     (if x = invalid_socket_id
      then Some (Sec_error sec_network_syscall_failed ''setsockopt: invalid socket'') else None)"

definition allow_udp_connreset :: "socket_id \<Rightarrow> bool \<Rightarrow> caf_error option" where
  "allow_udp_connreset x new_value =
     (if x = invalid_socket_id
      then Some (Sec_error sec_network_syscall_failed ''WSAIoctl: invalid socket'') else None)"

text \<open>\<open>static_cast<size_t>\<close> of an \<open>int\<close> extends the sign; \<open>static_cast<int>\<close> keeps the low bits.\<close>

definition get_send_buffer_size :: "'k posix \<Rightarrow> socket_id \<Rightarrow> 'k \<Rightarrow> ('k, u64) sys" where
  "get_send_buffer_size P x k =
     (let ((res, size), k) = px_getsockopt P x SO_SNDBUF k in
      net_syscall P ''getsockopt'' (res \<noteq> 0) k (\<lambda>k. (Inr (scast size), k)))"

definition set_send_buffer_size :: "'k posix \<Rightarrow> socket_id \<Rightarrow> u64 \<Rightarrow> 'k \<Rightarrow> ('k, unit) sys" where
  "set_send_buffer_size P x capacity k =
     (let (res, k) = px_setsockopt P x SO_SNDBUF (ucast capacity) k in
      net_syscall P ''setsockopt'' (res \<noteq> 0) k (\<lambda>k. (Inr (), k)))"

text \<open>\<open>port_of\<close>; another family is a critical error that ends the program.\<close>

definition port_of :: "sockaddr \<Rightarrow> u16 option" where
  "port_of what =
     (case what of Sockaddr_in p _ \<Rightarrow> Some p | Sockaddr_in6 p _ \<Rightarrow> Some p | Sockaddr_other _ \<Rightarrow> None)"

definition addr_result :: "'k posix \<Rightarrow> string \<Rightarrow> sockaddr \<Rightarrow> 'k \<Rightarrow> ('k, string) sys" where
  "addr_result P funname sa k =
     (case sa of
        Sockaddr_other f \<Rightarrow> (Inl (Sec_error sec_invalid_protocol_family funname), k)
      | _ \<Rightarrow> (Inr (px_inet_ntop P sa), k))"

definition local_addr :: "'k posix \<Rightarrow> socket_id \<Rightarrow> 'k \<Rightarrow> ('k, string) sys" where
  "local_addr P x k =
     (let ((res, sa), k) = px_getsockname P x k in
      net_syscall P ''getsockname'' (res \<noteq> 0) k (addr_result P ''local_addr'' sa))"

definition remote_addr :: "'k posix \<Rightarrow> socket_id \<Rightarrow> 'k \<Rightarrow> ('k, string) sys" where
  "remote_addr P x k =
     (let ((res, sa), k) = px_getpeername P x k in
      net_syscall P ''getpeername'' (res \<noteq> 0) k (addr_result P ''remote_addr'' sa))"

text \<open>The result is \<open>None\<close> when \<open>port_of\<close> ends the program.\<close>

definition local_port :: "'k posix \<Rightarrow> socket_id \<Rightarrow> 'k \<Rightarrow> ('k, u16 option) sys" where
  "local_port P x k =
     (let ((res, sa), k) = px_getsockname P x k in
      net_syscall P ''getsockname'' (res \<noteq> 0) k (\<lambda>k. (Inr (map_option htons (port_of sa)), k)))"

definition remote_port :: "'k posix \<Rightarrow> socket_id \<Rightarrow> 'k \<Rightarrow> ('k, u16 option) sys" where
  "remote_port P x k =
     (let ((res, sa), k) = px_getpeername P x k in
      net_syscall P ''getpeername'' (res \<noteq> 0) k (\<lambda>k. (Inr (map_option htons (port_of sa)), k)))"

definition shutdown_read :: "'k posix \<Rightarrow> socket_id \<Rightarrow> 'k \<Rightarrow> 'k" where
  "shutdown_read P x k = px_shutdown P x 0 k"

definition shutdown_write :: "'k posix \<Rightarrow> socket_id \<Rightarrow> 'k \<Rightarrow> 'k" where
  "shutdown_write P x k = px_shutdown P x 1 k"

definition shutdown_both :: "'k posix \<Rightarrow> socket_id \<Rightarrow> 'k \<Rightarrow> 'k" where
  "shutdown_both P x k = px_shutdown P x 2 k"

section \<open>Stream sockets and pipes (stream\_socket.cpp, pipe\_socket.cpp)\<close>

definition make_stream_socket_pair :: "'k posix \<Rightarrow> 'k \<Rightarrow> ('k, socket_id \<times> socket_id) sys" where
  "make_stream_socket_pair P k =
     (let ((res, a, b), k) = px_socketpair P k in
      net_syscall P ''socketpair'' (res \<noteq> 0) k (\<lambda>k. (Inr (a, b), k)))"

definition keepalive :: "'k posix \<Rightarrow> socket_id \<Rightarrow> bool \<Rightarrow> 'k \<Rightarrow> ('k, unit) sys" where
  "keepalive P x new_value k =
     (let (res, k) = px_setsockopt P x SO_KEEPALIVE (if new_value then 1 else 0) k in
      net_syscall P ''setsockopt'' (res \<noteq> 0) k (\<lambda>k. (Inr (), k)))"

definition nodelay :: "'k posix \<Rightarrow> socket_id \<Rightarrow> bool \<Rightarrow> 'k \<Rightarrow> ('k, unit) sys" where
  "nodelay P x new_value k =
     (let (res, k) = px_setsockopt P x TCP_NODELAY (if new_value then 1 else 0) k in
      net_syscall P ''setsockopt'' (res \<noteq> 0) k (\<lambda>k. (Inr (), k)))"

text \<open>The scope guard closes both ends on failure.\<close>

definition make_pipe :: "'k posix \<Rightarrow> 'k \<Rightarrow> ('k, socket_id \<times> socket_id) sys" where
  "make_pipe P k =
     (let ((res, a, b), k) = px_pipe P k in
      net_syscall P ''pipe'' (res \<noteq> 0) k (\<lambda>k.
        case child_process_inherit P a False k of
          (Inl err, k) \<Rightarrow> (Inl err, socket_close P b (socket_close P a k))
        | (Inr _, k) \<Rightarrow>
            (case child_process_inherit P b False k of
               (Inl err, k) \<Rightarrow> (Inl err, socket_close P b (socket_close P a k))
             | (Inr _, k) \<Rightarrow> (Inr (a, b), k))))"

text \<open>
  Reading and writing, with results of type \<open>ptrdiff_t\<close>. A gathering write of ten or more buffers
  violates an assertion: \<open>None\<close>.
\<close>

record 'k socket_io =
  io_recv :: "socket_id \<Rightarrow> nat \<Rightarrow> 'k \<Rightarrow> (u64 \<times> byte list) \<times> 'k"
  io_send :: "socket_id \<Rightarrow> byte list \<Rightarrow> 'k \<Rightarrow> u64 \<times> 'k"
  io_writev :: "socket_id \<Rightarrow> byte list list \<Rightarrow> 'k \<Rightarrow> u64 \<times> 'k"
  io_read :: "socket_id \<Rightarrow> nat \<Rightarrow> 'k \<Rightarrow> (u64 \<times> byte list) \<times> 'k"
  io_write :: "socket_id \<Rightarrow> byte list \<Rightarrow> 'k \<Rightarrow> u64 \<times> 'k"
  io_sendto :: "socket_id \<Rightarrow> byte list \<Rightarrow> sockaddr \<Rightarrow> 'k \<Rightarrow> int \<times> 'k"

definition posix_stream_read :: "'k socket_io \<Rightarrow> socket_id \<Rightarrow> nat \<Rightarrow> 'k \<Rightarrow> (u64 \<times> byte list) \<times> 'k" where
  "posix_stream_read P x buf_size k = io_recv P x buf_size k"

definition posix_stream_write :: "'k socket_io \<Rightarrow> socket_id \<Rightarrow> byte list \<Rightarrow> 'k \<Rightarrow> u64 \<times> 'k" where
  "posix_stream_write P x buf k = io_send P x buf k"

definition posix_stream_writev :: "'k socket_io \<Rightarrow> socket_id \<Rightarrow> byte list list \<Rightarrow> 'k \<Rightarrow> (u64 \<times> 'k) option" where
  "posix_stream_writev P x bufs k = (if length bufs < 10 then Some (io_writev P x bufs k) else None)"

definition posix_pipe_write :: "'k socket_io \<Rightarrow> socket_id \<Rightarrow> byte list \<Rightarrow> 'k \<Rightarrow> u64 \<times> 'k" where
  "posix_pipe_write P x buf k = io_write P x buf k"

definition posix_pipe_read :: "'k socket_io \<Rightarrow> socket_id \<Rightarrow> nat \<Rightarrow> 'k \<Rightarrow> (u64 \<times> byte list) \<times> 'k" where
  "posix_pipe_read P x buf_size k = io_read P x buf_size k"

section \<open>Datagram sockets (datagram\_socket.cpp, udp\_datagram\_socket.cpp)\<close>

definition allow_connreset :: "socket_id \<Rightarrow> bool \<Rightarrow> sec option" where
  "allow_connreset x new_value = (if x = invalid_socket_id then Some sec_socket_invalid else None)"

definition check_io_res :: "'k posix \<Rightarrow> int \<Rightarrow> 'k \<Rightarrow> sec + nat" where
  "check_io_res P res k =
     (if res < 0 then
        if px_errno P k = px_EWOULDBLOCK P \<or> px_errno P k = px_EAGAIN P then Inl sec_unavailable_or_would_block
        else Inl sec_socket_operation_failed
      else Inr (nat res))"

definition family_of :: "sockaddr \<Rightarrow> af" where
  "family_of sa = (case sa of Sockaddr_in _ _ \<Rightarrow> AF_INET | _ \<Rightarrow> AF_INET6)"

definition make_udp_datagram_socket ::
  "'k posix \<Rightarrow> 'a ip_ops \<Rightarrow> 'a ip_endpoint \<Rightarrow> bool \<Rightarrow> 'k \<Rightarrow> ('k, socket_id \<times> u16 option) sys" where
  "make_udp_datagram_socket P A ep reuse_addr k =
     (let addr = convert_endpoint A ep;
          (fd, k) = px_socket P (family_of addr) SOCK_DGRAM False k in
      net_syscall P ''socket'' (fd = invalid_socket_id) k (\<lambda>k.
        socket_guarded P fd (
          let (r, k) = (if reuse_addr then px_setsockopt P fd SO_REUSEADDR 1 k else (0, k)) in
          net_syscall P ''setsockopt'' (r \<noteq> 0) k (\<lambda>k.
            let (r, k) = px_bind P fd addr k in
            net_syscall P ''bind'' (r \<noteq> 0) k (\<lambda>k.
              let ((r, addr), k) = px_getsockname P fd k in
              net_syscall P ''getsockname'' (r \<noteq> 0) k (\<lambda>k.
                (Inr (fd, map_option htons (port_of addr)), k)))))))"

definition udp_read ::
  "'k posix \<Rightarrow> 'a ip_ops \<Rightarrow> socket_id \<Rightarrow> nat \<Rightarrow> 'k \<Rightarrow> (sec + nat \<times> byte list \<times> 'a ip_endpoint) \<times> 'k" where
  "udp_read P A x buf_size k =
     (let ((res, bytes, addr), k) = px_recvfrom P x buf_size k in
      (case check_io_res P res k of
         Inl err \<Rightarrow> Inl err
       | Inr num_bytes \<Rightarrow>
           (case convert_sockaddr A addr of Inl err \<Rightarrow> Inl err | Inr ep \<Rightarrow> Inr (num_bytes, bytes, ep)), k))"

definition udp_write ::
  "'k posix \<Rightarrow> 'a ip_ops \<Rightarrow> socket_id \<Rightarrow> byte list list \<Rightarrow> 'a ip_endpoint \<Rightarrow> 'k \<Rightarrow> (sec + nat) \<times> 'k" where
  "udp_write P A x bufs ep k =
     (let (res, k) = px_sendmsg P x bufs (convert_endpoint A ep) k in (check_io_res P res k, k))"

definition udp_write_buf ::
  "'k posix \<Rightarrow> 'k socket_io \<Rightarrow> 'a ip_ops \<Rightarrow> socket_id \<Rightarrow> byte list \<Rightarrow> 'a ip_endpoint \<Rightarrow> 'k \<Rightarrow> (sec + nat) \<times> 'k" where
  "udp_write_buf P D A x buf ep k =
     (let (res, k) = io_sendto D x buf (convert_endpoint A ep) k in (check_io_res P res k, k))"

section \<open>Connecting (tcp\_stream\_socket.cpp)\<close>

text \<open>The result of \<open>inet_pton\<close> is ignored: the address stays zero if it fails.\<close>

definition ip_connect :: "'k posix \<Rightarrow> af \<Rightarrow> socket_id \<Rightarrow> string \<Rightarrow> u16 \<Rightarrow> 'k \<Rightarrow> bool \<times> 'k" where
  "ip_connect P family fd host port k =
     (let sa = (case family of
                  AF_INET \<Rightarrow> Sockaddr_in (htons port) (case px_inet_pton4 P host of Some a \<Rightarrow> a | None \<Rightarrow> 0)
                | AF_INET6 \<Rightarrow> Sockaddr_in6 (htons port)
                    (case px_inet_pton6 P host of Some a \<Rightarrow> a | None \<Rightarrow> replicate 16 0));
          (res, k) = px_connect P fd sa k
      in (res = 0, k))"

definition make_connected_tcp_stream_socket ::
  "'k posix \<Rightarrow> 'a ip_ops \<Rightarrow> 'a ip_endpoint \<Rightarrow> 'k \<Rightarrow> ('k, socket_id) sys" where
  "make_connected_tcp_stream_socket P A node k =
     (let proto = (if embeds_v4 A (ep_address node) then AF_INET else AF_INET6);
          (fd, k) = px_socket P proto SOCK_STREAM True k in
      net_syscall P ''socket'' (fd = - 1) k (\<lambda>k.
        case child_process_inherit P fd False k of
          (Inl err, k) \<Rightarrow> (Inl err, k)
        | (Inr _, k) \<Rightarrow>
            socket_guarded P fd (
              let host = (if proto = AF_INET6 then ip_to_string A (ep_address node)
                          else v4_to_string A (embedded_v4 A (ep_address node)));
                  (ok, k) = ip_connect P proto fd host (ep_port node) k
              in if ok then (Inr fd, k) else (Inl (Sec_error sec_cannot_connect_to_node []), k))))"

text \<open>An authority has a host, by name or by address, and a port.\<close>

record 'a authority =
  auth_host :: "string + 'a"
  auth_port :: u16

fun try_connect :: "'k posix \<Rightarrow> 'a ip_ops \<Rightarrow> 'a list \<Rightarrow> u16 \<Rightarrow> 'k \<Rightarrow> ('k, socket_id) sys" where
  "try_connect P A [] port k = (Inl (Sec_error sec_cannot_connect_to_node ''authority''), k)"
| "try_connect P A (addr # addrs) port k =
     (case make_connected_tcp_stream_socket P A \<lparr>ep_address = addr, ep_port = port\<rparr> k of
        (Inr sock, k') \<Rightarrow> (Inr sock, k')
      | (Inl _, k') \<Rightarrow> try_connect P A addrs port k')"

definition connect_authority ::
  "'k posix \<Rightarrow> 'a ip_ops \<Rightarrow> ip_sys \<Rightarrow> 'a authority \<Rightarrow> 'k \<Rightarrow> ('k, socket_id) sys" where
  "connect_authority P A S node k =
     (if auth_port node = 0 then (Inl (Sec_error sec_cannot_connect_to_node ''port is zero''), k)
      else
        let addrs = (case auth_host node of Inl str \<Rightarrow> resolve_host A S str | Inr addr \<Rightarrow> [addr]) in
        if addrs = [] then (Inl (Sec_error sec_cannot_connect_to_node ''empty authority''), k)
        else try_connect P A addrs (auth_port node) k)"

section \<open>Accepting (tcp\_accept\_socket.cpp)\<close>

definition set_inaddr_any :: "'k posix \<Rightarrow> af \<Rightarrow> socket_id \<Rightarrow> 'k \<Rightarrow> ('k, unit) sys" where
  "set_inaddr_any P family x k =
     (case family of
        AF_INET \<Rightarrow> (Inr (), k)
      | AF_INET6 \<Rightarrow>
          let (res, k) = px_setsockopt P x IPV6_V6ONLY 0 k in
          net_syscall P ''setsockopt'' (res \<noteq> 0) k (\<lambda>k. (Inr (), k)))"

text \<open>\<open>inet_pton\<close> overwrites the address that \<open>set_inaddr_any\<close> has stored.\<close>

definition bind_address :: "'k posix \<Rightarrow> af \<Rightarrow> string \<Rightarrow> u16 \<Rightarrow> sockaddr option" where
  "bind_address P family addr port =
     (case family of
        AF_INET \<Rightarrow> map_option (Sockaddr_in (htons port)) (px_inet_pton4 P addr)
      | AF_INET6 \<Rightarrow> map_option (Sockaddr_in6 (htons port)) (px_inet_pton6 P addr))"

text \<open>The part of \<open>new_tcp_acceptor_impl\<close> that the guard protects.\<close>

definition acceptor_body ::
  "'k posix \<Rightarrow> af \<Rightarrow> u16 \<Rightarrow> string \<Rightarrow> bool \<Rightarrow> bool \<Rightarrow> socket_id \<Rightarrow> 'k \<Rightarrow> ('k, socket_id) sys" where
  "acceptor_body P family port addr reuse_addr any fd k =
     (case child_process_inherit P fd False k of
        (Inl err, k) \<Rightarrow> (Inl err, k)
      | (Inr _, k) \<Rightarrow>
          let (r, k) = (if reuse_addr then px_setsockopt P fd SO_REUSEADDR 1 k else (0, k)) in
          net_syscall P ''setsockopt'' (r \<noteq> 0) k (\<lambda>k.
            case (if any then set_inaddr_any P family fd k else (Inr (), k)) of
              (Inl err, k) \<Rightarrow> (Inl err, k)
            | (Inr _, k) \<Rightarrow>
                net_syscall P ''inet_pton'' (bind_address P family addr port = None) k (\<lambda>k.
                  let (r, k) = px_bind P fd (the (bind_address P family addr port)) k in
                  net_syscall P ''bind'' (r \<noteq> 0) k (\<lambda>k. (Inr fd, k)))))"

definition new_tcp_acceptor_impl ::
  "'k posix \<Rightarrow> af \<Rightarrow> u16 \<Rightarrow> string \<Rightarrow> bool \<Rightarrow> bool \<Rightarrow> 'k \<Rightarrow> ('k, socket_id) sys" where
  "new_tcp_acceptor_impl P family port addr reuse_addr any k =
     (let (fd, k) = px_socket P family SOCK_STREAM True k in
      net_syscall P ''socket'' (fd = - 1) k (\<lambda>k.
        socket_guarded P fd (acceptor_body P family port addr reuse_addr any fd k)))"

definition make_tcp_accept_socket ::
  "'k posix \<Rightarrow> 'a ip_ops \<Rightarrow> 'a ip_endpoint \<Rightarrow> bool \<Rightarrow> 'k \<Rightarrow> ('k, socket_id) sys" where
  "make_tcp_accept_socket P A node reuse_addr k =
     (let addr = ip_to_string A (ep_address node);
          is_v4 = embeds_v4 A (ep_address node);
          is_zero = (if is_v4 then embedded_v4 A (ep_address node) = 0 else ip_zero A (ep_address node))
      in case new_tcp_acceptor_impl P (if is_v4 then AF_INET else AF_INET6) (ep_port node) addr reuse_addr is_zero k of
           (Inl err, k) \<Rightarrow> (Inl (Sec_error sec_cannot_open_port ''tcp socket creation failed''), k)
         | (Inr sock, k) \<Rightarrow>
             socket_guarded P sock (
               let (r, k) = px_listen P sock k in
               net_syscall P ''listen'' (r \<noteq> 0) k (\<lambda>k. (Inr sock, k))))"

fun try_accept_socket :: "'k posix \<Rightarrow> 'a ip_ops \<Rightarrow> 'a list \<Rightarrow> u16 \<Rightarrow> bool \<Rightarrow> 'k \<Rightarrow> ('k, socket_id) sys" where
  "try_accept_socket P A [] port reuse_addr k =
     (Inl (Sec_error sec_cannot_open_port ''tcp socket creation failed''), k)"
| "try_accept_socket P A (addr # addrs) port reuse_addr k =
     (case make_tcp_accept_socket P A \<lparr>ep_address = addr, ep_port = port\<rparr> reuse_addr k of
        (Inr sock, k') \<Rightarrow> (Inr sock, k')
      | (Inl _, k') \<Rightarrow> try_accept_socket P A addrs port reuse_addr k')"

definition accept_authority ::
  "'k posix \<Rightarrow> 'a ip_ops \<Rightarrow> ip_sys \<Rightarrow> 'a authority \<Rightarrow> bool \<Rightarrow> 'k \<Rightarrow> ('k, socket_id) sys" where
  "accept_authority P A S node reuse_addr k =
     (case auth_host node of
        Inr ip \<Rightarrow> make_tcp_accept_socket P A \<lparr>ep_address = ip, ep_port = auth_port node\<rparr> reuse_addr k
      | Inl host \<Rightarrow>
          let addrs = local_addresses A S host in
          if addrs = [] then (Inl (Sec_error sec_cannot_open_port ''no local interface available''), k)
          else try_accept_socket P A addrs (auth_port node) reuse_addr k)"

definition tcp_accept :: "'k posix \<Rightarrow> socket_id \<Rightarrow> 'k \<Rightarrow> ('k, socket_id) sys" where
  "tcp_accept P x k =
     (let (sock, k) = px_accept P x k in
      if sock = invalid_socket_id then
        let err = px_errno P k in
        if err \<noteq> px_EWOULDBLOCK P \<and> err \<noteq> px_EAGAIN P
        then (Inl (Sec_error sec_unavailable_or_would_block []), k)
        else (Inl (Sec_error sec_socket_operation_failed ''tcp accept failed''), k)
      else (Inr sock, k))"

section \<open>Open descriptors\<close>

text \<open>
  What the system calls do to the set of open descriptors: \<open>socket\<close>, \<open>accept\<close> and \<open>pipe\<close> add new
  ones or fail, \<open>close\<close> removes one, the others leave it alone.
\<close>

definition new_fd :: "('k \<Rightarrow> socket_id set) \<Rightarrow> 'k \<Rightarrow> c_int \<times> 'k \<Rightarrow> bool" where
  "new_fd fds k r \<longleftrightarrow>
     (if fst r = - 1 then fds (snd r) = fds k else fst r \<notin> fds k \<and> fds (snd r) = insert (fst r) (fds k))"

definition posix_ok :: "'k posix \<Rightarrow> ('k \<Rightarrow> socket_id set) \<Rightarrow> bool" where
  "posix_ok P fds \<longleftrightarrow>
     (\<forall>f t c k. new_fd fds k (px_socket P f t c k)) \<and>
     (\<forall>x k. new_fd fds k (px_accept P x k)) \<and>
     (\<forall>x k. fds (px_close P x k) = fds k - {x}) \<and>
     (\<forall>x c k. fds (snd (px_fcntl P x c k)) = fds k) \<and>
     (\<forall>x opt v k. fds (snd (px_setsockopt P x opt v k)) = fds k) \<and>
     (\<forall>x sa k. fds (snd (px_bind P x sa k)) = fds k) \<and>
     (\<forall>x k. fds (snd (px_listen P x k)) = fds k) \<and>
     (\<forall>x sa k. fds (snd (px_connect P x sa k)) = fds k) \<and>
     (\<forall>x k. fds (snd (px_getsockname P x k)) = fds k) \<and>
     (\<forall>k r a b k'. px_pipe P k = ((r, a, b), k') \<longrightarrow>
        (if r \<noteq> 0 then fds k' = fds k
         else a \<noteq> b \<and> a \<notin> fds k \<and> b \<notin> fds k \<and> fds k' = insert a (insert b (fds k))))"

text \<open>A function that returns a new descriptor or leaves everything as it was.\<close>

definition opens :: "('k \<Rightarrow> socket_id set) \<Rightarrow> 'k \<Rightarrow> ('a \<Rightarrow> socket_id set) \<Rightarrow> ('k, 'a) sys \<Rightarrow> bool" where
  "opens fds k new r \<longleftrightarrow>
     (case r of
        (Inl _, k') \<Rightarrow> fds k' = fds k
      | (Inr x, k') \<Rightarrow> new x \<inter> fds k = {} \<and> fds k' = new x \<union> fds k)"

definition keeps :: "('k \<Rightarrow> socket_id set) \<Rightarrow> 'k \<Rightarrow> ('k, 'a) sys \<Rightarrow> bool" where
  "keeps fds k r \<longleftrightarrow> fds (snd r) = fds k"

lemma keeps_net_syscall:
  "fds k' = fds k \<Longrightarrow> keeps fds k (rest k') \<Longrightarrow> keeps fds k (net_syscall P fn b k' rest)"
  by (simp add: keeps_def net_syscall_def)

lemma opens_net_syscall:
  "(b \<Longrightarrow> fds k' = fds k) \<Longrightarrow> (\<not> b \<Longrightarrow> opens fds k new (rest k')) \<Longrightarrow> opens fds k new (net_syscall P fn b k' rest)"
  by (simp add: opens_def net_syscall_def)

text \<open>A guarded function that does nothing but return the new descriptor or fail.\<close>

lemma opens_guarded:
  assumes ok: "posix_ok P fds" and fd: "fd \<noteq> - 1" "fd \<notin> fds k" "fds k1 = insert fd (fds k)"
    and r: "keeps fds k1 r" and ret: "\<And>x. fst r = Inr x \<Longrightarrow> new x = {fd}"
  shows "opens fds k new (socket_guarded P fd r)"
proof -
  obtain res k' where rk: "r = (res, k')" by (cases r)
  have cl: "fds (px_close P fd k') = fds k' - {fd}" using ok by (simp add: posix_ok_def)
  show ?thesis
  proof (cases res)
    case (Inl e)
    then show ?thesis using rk r fd cl by (simp add: socket_guarded_def opens_def keeps_def)
  next
    case (Inr x)
    then show ?thesis using rk r fd ret [of x] by (simp add: socket_guarded_def opens_def keeps_def)
  qed
qed

lemma fcntl_fds: "posix_ok P fds \<Longrightarrow> px_fcntl P x c k = (r, k') \<Longrightarrow> fds k' = fds k"
  unfolding posix_ok_def by (metis snd_conv)
lemma setsockopt_fds: "posix_ok P fds \<Longrightarrow> px_setsockopt P x opt v k = (r, k') \<Longrightarrow> fds k' = fds k"
  unfolding posix_ok_def by (metis snd_conv)
lemma bind_fds: "posix_ok P fds \<Longrightarrow> px_bind P x sa k = (r, k') \<Longrightarrow> fds k' = fds k"
  unfolding posix_ok_def by (metis snd_conv)
lemma listen_fds: "posix_ok P fds \<Longrightarrow> px_listen P x k = (r, k') \<Longrightarrow> fds k' = fds k"
  unfolding posix_ok_def by (metis snd_conv)
lemma connect_fds: "posix_ok P fds \<Longrightarrow> px_connect P x sa k = (r, k') \<Longrightarrow> fds k' = fds k"
  unfolding posix_ok_def by (metis snd_conv)
lemma getsockname_fds: "posix_ok P fds \<Longrightarrow> px_getsockname P x k = (r, k') \<Longrightarrow> fds k' = fds k"
  unfolding posix_ok_def by (metis snd_conv)
lemma socket_fds: "posix_ok P fds \<Longrightarrow> px_socket P f t c k = (r, k') \<Longrightarrow> new_fd fds k (r, k')"
  unfolding posix_ok_def by metis

lemmas syscall_fds = fcntl_fds setsockopt_fds bind_fds listen_fds connect_fds getsockname_fds

lemma child_process_inherit_fds:
  assumes "posix_ok P fds" and "child_process_inherit P x b k = (r, k')"
  shows "fds k' = fds k"
  using assms(2) fcntl_fds [OF assms(1)]
  by (auto simp: child_process_inherit_def net_syscall_def Let_def split: prod.splits if_splits)

lemma set_inaddr_any_fds:
  assumes "posix_ok P fds" and "set_inaddr_any P family x k = (r, k')"
  shows "fds k' = fds k"
  using assms(2) setsockopt_fds [OF assms(1)]
  by (auto simp: set_inaddr_any_def net_syscall_def Let_def split: af.splits prod.splits if_splits)

lemma opens_socket:
  assumes ok: "posix_ok P fds" and s: "px_socket P f t c k = (fd, k1)"
    and body: "fd \<noteq> - 1 \<Longrightarrow> keeps fds k1 (body k1)" "\<And>x. fst (body k1) = Inr x \<Longrightarrow> new x = {fd}"
  shows "opens fds k new (net_syscall P fn (fd = - 1) k1 (\<lambda>k. socket_guarded P fd (body k)))"
proof (rule opens_net_syscall)
  assume "fd = - 1"
  then show "fds k1 = fds k" using socket_fds [OF ok s] by (simp add: new_fd_def)
next
  assume n: "fd \<noteq> - 1"
  then have "fd \<notin> fds k" "fds k1 = insert fd (fds k)" using socket_fds [OF ok s] by (simp_all add: new_fd_def)
  from opens_guarded [OF ok n this body(1) [OF n]] body(2)
  show "opens fds k new (socket_guarded P fd (body k1))" by blast
qed

lemma acceptor_body_keeps:
  assumes ok: "posix_ok P fds"
  shows "keeps fds k1 (acceptor_body P family port addr reuse any fd k1) \<and>
    (\<forall>x. fst (acceptor_body P family port addr reuse any fd k1) = Inr x \<longrightarrow> x = fd)"
proof -
  obtain r1 k2 where c: "child_process_inherit P fd False k1 = (r1, k2)" by fastforce
  obtain r2 k3 where o: "(if reuse then px_setsockopt P fd SO_REUSEADDR 1 k2 else (0, k2)) = (r2, k3)" by fastforce
  obtain r3 k4 where y: "(if any then set_inaddr_any P family fd k3 else (Inr (), k3)) = (r3, k4)" by fastforce
  obtain r4 k5 where b: "px_bind P fd (the (bind_address P family addr port)) k4 = (r4, k5)" by fastforce
  have "fds k2 = fds k1" using child_process_inherit_fds [OF ok c] .
  moreover have "fds k3 = fds k2" using o setsockopt_fds [OF ok] by (auto split: if_splits)
  moreover have "fds k4 = fds k3" using y set_inaddr_any_fds [OF ok] by (auto split: if_splits)
  moreover have "fds k5 = fds k4" using bind_fds [OF ok b] .
  ultimately show ?thesis
    unfolding acceptor_body_def c
    by (cases r1; cases r3) (simp_all add: o y b keeps_def net_syscall_def)
qed

lemma new_tcp_acceptor_opens:
  assumes ok: "posix_ok P fds"
  shows "opens fds k (\<lambda>x. {x}) (new_tcp_acceptor_impl P family port addr reuse any k)"
proof -
  obtain fd k1 where s: "px_socket P family SOCK_STREAM True k = (fd, k1)" by fastforce
  show ?thesis
    unfolding new_tcp_acceptor_impl_def s Let_def case_prod_conv
    by (rule opens_socket [OF ok s]) (use acceptor_body_keeps [OF ok] in simp_all)
qed

lemma new_tcp_acceptor_valid:
  "new_tcp_acceptor_impl P family port addr reuse any k = (Inr fd, k') \<Longrightarrow> posix_ok P fds \<Longrightarrow> fd \<noteq> - 1"
  using acceptor_body_keeps [of P fds _ family port addr reuse any]
  by (auto simp: new_tcp_acceptor_impl_def net_syscall_def socket_guarded_def Let_def
      split: prod.splits sum.splits if_splits) (metis fst_conv)

lemma make_tcp_accept_socket_opens:
  assumes ok: "posix_ok P fds"
  shows "opens fds k (\<lambda>x. {x}) (make_tcp_accept_socket P A node reuse k)"
proof -
  let ?v4 = "embeds_v4 A (ep_address node)"
  let ?n = "new_tcp_acceptor_impl P (if ?v4 then AF_INET else AF_INET6) (ep_port node)
      (ip_to_string A (ep_address node)) reuse
      (if ?v4 then embedded_v4 A (ep_address node) = 0 else ip_zero A (ep_address node)) k"
  obtain res k1 where n: "?n = (res, k1)" by fastforce
  have o: "opens fds k (\<lambda>x. {x}) (res, k1)" using new_tcp_acceptor_opens [OF ok] n by metis
  show ?thesis
  proof (cases res)
    case (Inl e)
    then show ?thesis using o n by (simp add: make_tcp_accept_socket_def opens_def Let_def)
  next
    case (Inr fd)
    obtain r k2 where l: "px_listen P fd k1 = (r, k2)" by fastforce
    have f: "fd \<notin> fds k" "fds k1 = insert fd (fds k)" using o Inr by (simp_all add: opens_def)
    have valid: "fd \<noteq> - 1" using new_tcp_acceptor_valid [OF n [unfolded Inr] ok] .
    have "keeps fds k1 (net_syscall P ''listen'' (r \<noteq> 0) k2 (\<lambda>k. (Inr fd, k)))"
      using listen_fds [OF ok l] by (simp add: keeps_def net_syscall_def)
    from opens_guarded [OF ok valid f this, of "\<lambda>x. {x}"]
    have "opens fds k (\<lambda>x. {x}) (socket_guarded P fd (net_syscall P ''listen'' (r \<noteq> 0) k2 (\<lambda>k. (Inr fd, k))))"
      by (auto simp: net_syscall_def split: if_splits)
    then show ?thesis using n Inr l by (simp add: make_tcp_accept_socket_def Let_def)
  qed
qed

lemma opens_failed: "opens fds k new (Inl e, k)"
  by (simp add: opens_def)

lemma opens_trans_fail: "fds k1 = fds k \<Longrightarrow> opens fds k1 new r \<Longrightarrow> opens fds k new r"
  by (simp add: opens_def split: prod.splits sum.splits)

lemma try_accept_socket_opens:
  assumes ok: "posix_ok P fds"
  shows "opens fds k (\<lambda>x. {x}) (try_accept_socket P A addrs port reuse k)"
proof (induction addrs arbitrary: k)
  case Nil
  show ?case by (simp add: opens_def)
next
  case (Cons addr addrs)
  let ?r = "make_tcp_accept_socket P A \<lparr>ep_address = addr, ep_port = port\<rparr> reuse k"
  obtain res k1 where r: "?r = (res, k1)" by fastforce
  have "opens fds k (\<lambda>x. {x}) (res, k1)" using make_tcp_accept_socket_opens [OF ok] r by metis
  then show ?case
    using opens_trans_fail [OF _ Cons.IH [of k1]] r by (cases res) (simp_all add: opens_def)
qed

lemma make_udp_opens:
  assumes ok: "posix_ok P fds"
  shows "opens fds k (\<lambda>x. {fst x}) (make_udp_datagram_socket P A ep reuse k)"
proof -
  obtain fd k1 where s: "px_socket P (family_of (convert_endpoint A ep)) SOCK_DGRAM False k = (fd, k1)" by fastforce
  show ?thesis
    unfolding make_udp_datagram_socket_def s Let_def case_prod_conv
    by (rule opens_socket [OF ok s])
      (auto simp: keeps_def net_syscall_def split: prod.splits if_splits dest!: syscall_fds [OF ok])
qed

lemma make_pipe_opens:
  assumes ok: "posix_ok P fds"
  shows "opens fds k (\<lambda>(a, b). {a, b}) (make_pipe P k)"
proof -
  obtain r a b k1 where p: "px_pipe P k = ((r, a, b), k1)" by (metis surj_pair)
  have cl: "fds (px_close P x k) = fds k - {x}" for x k using ok by (simp add: posix_ok_def)
  have "if r \<noteq> 0 then fds k1 = fds k
        else a \<noteq> b \<and> a \<notin> fds k \<and> b \<notin> fds k \<and> fds k1 = insert a (insert b (fds k))"
    using ok p unfolding posix_ok_def by blast
  then show ?thesis
    by (auto simp: make_pipe_def p net_syscall_def socket_close_def cl opens_def
        split: prod.splits sum.splits if_splits dest!: child_process_inherit_fds [OF ok])
qed

section \<open>Properties\<close>

text \<open>
  A kernel for witnesses: the state is the set of open descriptors, \<open>socket\<close> hands out descriptor 3
  and \<open>pipe\<close> 4 and 5, unless they are in use; \<open>fcntl\<close> succeeds or fails always.
\<close>

definition sample_posix :: "bool \<Rightarrow> socket_id set posix" where
  "sample_posix fcntl_ok =
     \<lparr>px_socket = (\<lambda>f t c k. if 3 \<in> k then (- 1, k) else (3, insert 3 k)),
      px_close = (\<lambda>x k. k - {x}),
      px_fcntl = (\<lambda>x c k. (if fcntl_ok then 0 else - 1, k)),
      px_setsockopt = (\<lambda>x opt v k. (0, k)), px_getsockopt = (\<lambda>x opt k. ((0, 4096), k)),
      px_bind = (\<lambda>x sa k. (0, k)), px_listen = (\<lambda>x k. (0, k)), px_connect = (\<lambda>x sa k. (- 1, k)),
      px_accept = (\<lambda>x k. (- 1, k)),
      px_getsockname = (\<lambda>x k. ((0, Sockaddr_in (htons 80) 0), k)),
      px_getpeername = (\<lambda>x k. ((0, Sockaddr_in (htons 80) 0), k)),
      px_shutdown = (\<lambda>x how k. k),
      px_pipe = (\<lambda>k. if 4 \<in> k \<or> 5 \<in> k then ((- 1, 0, 0), k) else ((0, 4, 5), insert 4 (insert 5 k))),
      px_socketpair = (\<lambda>k. ((- 1, 0, 0), k)),
      px_recvfrom = (\<lambda>x n k. ((- 1, [], Sockaddr_other 0), k)), px_sendmsg = (\<lambda>x b a k. (- 1, k)),
      px_inet_pton4 = (\<lambda>s. Some 0), px_inet_pton6 = (\<lambda>s. Some []), px_inet_ntop = (\<lambda>sa. ''0.0.0.0''),
      px_errno = (\<lambda>k. 11), px_strerror = (\<lambda>e. ''error''),
      px_EAGAIN = 11, px_EWOULDBLOCK = 11, px_FD_CLOEXEC = 1, px_O_NONBLOCK = 2048\<rparr>"

lemma sample_posix_ok: "posix_ok (sample_posix b) (\<lambda>k. k)"
  by (auto simp: posix_ok_def new_fd_def sample_posix_def split: if_splits)

text \<open>
  C19: No function that opens a listening TCP socket, a UDP socket or a pipe leaks a descriptor: on
  success exactly the returned descriptors are new, on every failure the set of open descriptors is
  the one before the call.
\<close>

theorem sockets_do_not_leak:
  assumes "posix_ok P fds"
  shows "opens fds k (\<lambda>x. {x}) (accept_authority P A S node reuse k) \<and>
    opens fds k (\<lambda>x. {fst x}) (make_udp_datagram_socket P A ep reuse k) \<and>
    opens fds k (\<lambda>(a, b). {a, b}) (make_pipe P k)"
proof (intro conjI)
  show "opens fds k (\<lambda>x. {x}) (accept_authority P A S node reuse k)"
    by (cases "auth_host node")
      (simp_all add: accept_authority_def Let_def opens_failed make_tcp_accept_socket_opens [OF assms]
        try_accept_socket_opens [OF assms])
qed (rule make_udp_opens [OF assms], rule make_pipe_opens [OF assms])

theorem sockets_do_not_leak_witness:
  "opens (\<lambda>k. k) {0, 1, 2} (\<lambda>(a, b). {a, b}) (make_pipe (sample_posix False) {0, 1, 2}) \<and>
   opens (\<lambda>k. k) {0, 1, 2} (\<lambda>x. {x})
     (accept_authority (sample_posix True) two_addresses
        \<lparr>getaddrinfo = (\<lambda>h p f. None), getifaddrs = None, inet_ntop = (\<lambda>a. None)\<rparr>
        \<lparr>auth_host = Inr True, auth_port = 80\<rparr> True {0, 1, 2})"
  using sockets_do_not_leak [OF sample_posix_ok] by blast

text \<open>
  \<open>make_connected_tcp_stream_socket\<close> leaks no descriptor when \<open>child_process_inherit\<close> succeeds, but
  does when it fails: the guard is created only after that call, so the new socket stays open while
  the caller receives an error.
\<close>

lemma connect_leaks_on_inherit_failure:
  assumes ok: "posix_ok P fds"
    and s: "px_socket P (if embeds_v4 A (ep_address node) then AF_INET else AF_INET6) SOCK_STREAM True k = (fd, k1)"
    and valid: "fd \<noteq> - 1" and c: "child_process_inherit P fd False k1 = (r, k2)"
  shows "case r of
      Inl err \<Rightarrow> make_connected_tcp_stream_socket P A node k = (Inl err, k2) \<and> fd \<notin> fds k \<and> fd \<in> fds k2
    | Inr _ \<Rightarrow> opens fds k (\<lambda>x. {x}) (make_connected_tcp_stream_socket P A node k)"
proof -
  have new: "fd \<notin> fds k" "fds k1 = insert fd (fds k)"
    using socket_fds [OF ok s] valid by (simp_all add: new_fd_def)
  have k2: "fds k2 = fds k1" using child_process_inherit_fds [OF ok c] .
  show ?thesis
  proof (cases r)
    case (Inl err)
    then show ?thesis
      using s c valid new k2 by (simp add: make_connected_tcp_stream_socket_def net_syscall_def)
  next
    case (Inr u)
    let ?v4 = "embeds_v4 A (ep_address node)"
    let ?proto = "if ?v4 then AF_INET else AF_INET6"
    let ?host = "if ?proto = AF_INET6 then ip_to_string A (ep_address node)
        else v4_to_string A (embedded_v4 A (ep_address node))"
    obtain conn k3 where i: "ip_connect P ?proto fd ?host (ep_port node) k2 = (conn, k3)" by fastforce
    have "fds k3 = fds k2"
      using i connect_fds [OF ok] by (auto simp: ip_connect_def Let_def split: prod.splits)
    then have "keeps fds k2 (if conn then (Inr fd, k3) else (Inl (Sec_error sec_cannot_connect_to_node []), k3))"
      by (simp add: keeps_def)
    from opens_guarded [OF ok valid _ _ this, of k "\<lambda>x. {x}"]
    have "opens fds k (\<lambda>x. {x})
        (socket_guarded P fd (if conn then (Inr fd, k3) else (Inl (Sec_error sec_cannot_connect_to_node []), k3)))"
      using new k2 by (auto split: if_splits)
    then show ?thesis
      using Inr s c valid i by (simp add: make_connected_tcp_stream_socket_def net_syscall_def Let_def)
  qed
qed

lemma connect_leaks_on_inherit_failure_sample:
  "3 \<notin> ({0, 1, 2} :: socket_id set) \<and>
   3 \<in> snd (make_connected_tcp_stream_socket (sample_posix False) two_addresses \<lparr>ep_address = True, ep_port = 80\<rparr> {0, 1, 2})"
proof -
  let ?n = "\<lparr>ep_address = True, ep_port = 80\<rparr>"
  have s: "px_socket (sample_posix False) (if embeds_v4 two_addresses (ep_address ?n) then AF_INET else AF_INET6)
      SOCK_STREAM True {0, 1, 2} = (3, {3, 0, 1, 2})"
    by (simp add: sample_posix_def)
  have c: "child_process_inherit (sample_posix False) 3 False {3, 0, 1, 2} =
      (Inl (Sec_error sec_network_syscall_failed ''fcntl: error''), {3, 0, 1, 2})"
    by (simp add: child_process_inherit_def net_syscall_def sample_posix_def)
  show ?thesis using connect_leaks_on_inherit_failure [OF sample_posix_ok s _ c] by simp
qed

text \<open>
  The error codes of \<open>accept\<close> are swapped: a failed call reports
  \<open>unavailable_or_would_block\<close> exactly if the error is not temporary, and \<open>socket_operation_failed\<close>
  exactly if it is.
\<close>

lemma accept_swaps_error_codes:
  assumes "px_accept P x k = (invalid_socket_id, k')"
  shows "\<exists>e msg. tcp_accept P x k = (Inl (Sec_error e msg), k') \<and>
    (e = sec_unavailable_or_would_block \<longleftrightarrow> \<not> last_socket_error_is_temporary P k') \<and>
    (e = sec_socket_operation_failed \<longleftrightarrow> last_socket_error_is_temporary P k')"
  using assms by (cases "last_socket_error_is_temporary P k'")
    (auto simp: tcp_accept_def last_socket_error_is_temporary_def)

lemma accept_swaps_error_codes_sample:
  "\<exists>msg. tcp_accept (sample_posix True) 3 {3} = (Inl (Sec_error sec_socket_operation_failed msg), {3}) \<and>
     last_socket_error_is_temporary (sample_posix True) {3}"
proof -
  have t: "last_socket_error_is_temporary (sample_posix True) {3}"
    by (simp add: last_socket_error_is_temporary_def sample_posix_def)
  have "px_accept (sample_posix True) 3 {3} = (- 1, {3})" by (simp add: sample_posix_def)
  from accept_swaps_error_codes [OF this] show ?thesis using t by auto
qed

end
