(* ===== verification/Datagram_Transport.thy ===== *)
theory Datagram_Transport
  imports Sockets
begin

text \<open>
  The datagram stack: \<open>packet_writer_decorator.hpp\<close>, \<open>transport_worker.hpp\<close>,
  \<open>transport_worker_dispatcher.hpp\<close>, \<open>transport_base.hpp\<close> and \<open>datagram_transport.hpp\<close>. One worker
  per remote endpoint holds an application; the transport reads datagrams, dispatches them to the
  workers, queues the packets the applications write and sends them. The application and the factory
  are template parameters: records of operations. The workers are shared pointers: they live in a
  list and the dictionaries of the dispatcher hold indices. A dictionary is an association list, so
  that the order of insertion is kept; \<open>emplace\<close> does not replace an entry.
\<close>

section \<open>The output side of the transport (transport\_base.hpp, datagram\_transport.hpp)\<close>

record 'i dgram_packet =
  pk_id :: 'i
  pk_bytes :: "byte list list"
  pk_size :: nat

record 'i dgram_out =
  header_bufs :: "byte list list"
  header_cap :: nat
  payload_bufs :: "byte list list"
  payload_cap :: nat
  packet_queue :: "'i dgram_packet list"
  writing_registered :: bool

definition next_buffer_impl :: "byte list list \<Rightarrow> byte list \<times> byte list list" where
  "next_buffer_impl cache = (if cache = [] then ([], []) else (last cache, butlast cache))"

definition next_header_buffer :: "'i dgram_out \<Rightarrow> byte list \<times> 'i dgram_out" where
  "next_header_buffer o1 = (let (b, c) = next_buffer_impl (header_bufs o1) in (b, o1\<lparr>header_bufs := c\<rparr>))"

definition next_payload_buffer :: "'i dgram_out \<Rightarrow> byte list \<times> 'i dgram_out" where
  "next_payload_buffer o1 = (let (b, c) = next_buffer_impl (payload_bufs o1) in (b, o1\<lparr>payload_bufs := c\<rparr>))"

definition packet_new :: "'i \<Rightarrow> byte list list \<Rightarrow> 'i dgram_packet" where
  "packet_new i bufs = \<lparr>pk_id = i, pk_bytes = bufs, pk_size = sum_list (map length bufs)\<rparr>"

definition dg_write_packet :: "'i \<Rightarrow> byte list list \<Rightarrow> 'i dgram_out \<Rightarrow> 'i dgram_out" where
  "dg_write_packet i bufs o1 =
     (let o2 = (if packet_queue o1 = [] then o1\<lparr>writing_registered := True\<rparr> else o1)
      in o2\<lparr>packet_queue := packet_queue o2 @ [packet_new i bufs]\<rparr>)"

text \<open>\<open>recycle\<close>: the first buffer goes back to the header cache if there is room, the others to the
  payload cache as long as there is room; if the header cache is full, the first one is an other.\<close>

fun recycle_payload :: "byte list list \<Rightarrow> 'i dgram_out \<Rightarrow> 'i dgram_out" where
  "recycle_payload [] o1 = o1"
| "recycle_payload (b # bs) o1 =
     (if length (payload_bufs o1) < payload_cap o1
      then recycle_payload bs (o1\<lparr>payload_bufs := payload_bufs o1 @ [[]]\<rparr>) else o1)"

definition recycle :: "'i dgram_out \<Rightarrow> 'i dgram_out" where
  "recycle o1 =
     (let bufs = pk_bytes (hd (packet_queue o1));
          (o2, rest) = (if length (header_bufs o1) < header_cap o1
                        then (o1\<lparr>header_bufs := header_bufs o1 @ [[]]\<rparr>, tl bufs) else (o1, bufs));
          o3 = recycle_payload rest o2
      in o3\<lparr>packet_queue := tl (packet_queue o3)\<rparr>)"

section \<open>Packet writers, applications and workers\<close>

record 'o packet_writer =
  pw_header :: "'o \<Rightarrow> byte list \<times> 'o"
  pw_payload :: "'o \<Rightarrow> byte list \<times> 'o"
  pw_write :: "byte list list \<Rightarrow> 'o \<Rightarrow> 'o"

definition make_packet_writer_decorator :: "'i \<Rightarrow> ('i dgram_out) packet_writer" where
  "make_packet_writer_decorator i =
     \<lparr>pw_header = next_header_buffer, pw_payload = next_payload_buffer, pw_write = dg_write_packet i\<rparr>"

type_synonym ('a, 'o, 'r) app_op = "'o packet_writer \<Rightarrow> 'a \<Rightarrow> 'o \<Rightarrow> 'r \<times> 'a \<times> 'o"

text \<open>The application and its factory; \<open>'m\<close> are messages, \<open>'l\<close> listeners.\<close>

record ('a, 'f, 'o, 'm, 'l) transport_app =
  factory_make :: "'f \<Rightarrow> 'a \<times> 'f"
  ap_init :: "('a, 'o, caf_error option) app_op"
  ap_handle_data :: "byte list \<Rightarrow> ('a, 'o, caf_error option) app_op"
  ap_write_message :: "'m \<Rightarrow> ('a, 'o, caf_error option) app_op"
  ap_resolve :: "string \<Rightarrow> 'l \<Rightarrow> ('a, 'o, unit) app_op"
  ap_new_proxy :: "u64 \<Rightarrow> ('a, 'o, unit) app_op"
  ap_local_actor_down :: "u64 \<Rightarrow> caf_error \<Rightarrow> ('a, 'o, unit) app_op"
  ap_timeout :: "string \<Rightarrow> u64 \<Rightarrow> ('a, 'o, unit) app_op"
  ap_handle_error :: "sec \<Rightarrow> 'a \<Rightarrow> 'a"

record ('a, 'i) transport_worker =
  tw_application :: 'a
  tw_id :: 'i

text \<open>The member functions of \<open>transport_worker\<close>: call the application with a decorated writer.\<close>

definition tw_call ::
  "('a, 'i dgram_out, 'r) app_op \<Rightarrow> ('a, 'i) transport_worker \<Rightarrow> 'i dgram_out \<Rightarrow>
   'r \<times> ('a, 'i) transport_worker \<times> 'i dgram_out" where
  "tw_call f w o1 =
     (let (r, a, o2) = f (make_packet_writer_decorator (tw_id w)) (tw_application w) o1
      in (r, w\<lparr>tw_application := a\<rparr>, o2))"

definition tw_handle_error ::
  "('a, 'f, 'o, 'm, 'l) transport_app \<Rightarrow> sec \<Rightarrow> ('a, 'i) transport_worker \<Rightarrow> ('a, 'i) transport_worker" where
  "tw_handle_error T code w = w\<lparr>tw_application := ap_handle_error T code (tw_application w)\<rparr>"

section \<open>The dispatcher (transport\_worker\_dispatcher.hpp)\<close>

record ('a, 'i, 'n, 'f) dispatcher =
  workers :: "('a, 'i) transport_worker list"
  workers_by_id :: "('i \<times> nat) list"
  workers_by_node :: "('n \<times> nat) list"
  workers_by_timeout_id :: "(u64 \<times> nat) list"
  factory :: 'f

definition dispatcher_new :: "'f \<Rightarrow> ('a, 'i, 'n, 'f) dispatcher" where
  "dispatcher_new f =
     \<lparr>workers = [], workers_by_id = [], workers_by_node = [], workers_by_timeout_id = [], factory = f\<rparr>"

definition emplace :: "'k \<Rightarrow> 'v \<Rightarrow> ('k \<times> 'v) list \<Rightarrow> ('k \<times> 'v) list" where
  "emplace k v m = (case map_of m k of None \<Rightarrow> m @ [(k, v)] | Some _ \<Rightarrow> m)"

definition find_worker :: "('k \<times> nat) list \<Rightarrow> 'k \<Rightarrow> nat option" where
  "find_worker m k = map_of m k"

text \<open>A call through a worker pointer.\<close>

definition worker_call ::
  "('a, 'i dgram_out, 'r) app_op \<Rightarrow> nat \<Rightarrow> ('a, 'i, 'n, 'f) dispatcher \<Rightarrow> 'i dgram_out \<Rightarrow>
   'r \<times> ('a, 'i, 'n, 'f) dispatcher \<times> 'i dgram_out" where
  "worker_call f w d o1 =
     (let (r, w', o2) = tw_call f (workers d ! w) o1 in (r, d\<lparr>workers := (workers d)[w := w']\<rparr>, o2))"

text \<open>A worker whose \<open>init\<close> fails is destroyed.\<close>

definition add_new_worker ::
  "('a, 'f, 'i dgram_out, 'm, 'l) transport_app \<Rightarrow> 'n \<Rightarrow> 'i \<Rightarrow> ('a, 'i, 'n, 'f) dispatcher \<Rightarrow> 'i dgram_out \<Rightarrow>
   (caf_error + nat) \<times> ('a, 'i, 'n, 'f) dispatcher \<times> 'i dgram_out" where
  "add_new_worker T node i d o1 =
     (let (a, f) = factory_make T (factory d);
          d1 = d\<lparr>factory := f\<rparr>;
          (err, w, o2) = tw_call (ap_init T) \<lparr>tw_application = a, tw_id = i\<rparr> o1
      in case err of
           Some e \<Rightarrow> (Inl e, d1, o2)
         | None \<Rightarrow>
             (Inr (length (workers d1)),
              d1\<lparr>workers := workers d1 @ [w],
                 workers_by_id := emplace i (length (workers d1)) (workers_by_id d1),
                 workers_by_node := emplace node (length (workers d1)) (workers_by_node d1)\<rparr>, o2))"

text \<open>\<open>node_id{}\<close> is the parameter \<open>nonode\<close>, \<open>id_type{}\<close> is \<open>noid\<close>.\<close>

definition disp_handle_data ::
  "('a, 'f, 'i dgram_out, 'm, 'l) transport_app \<Rightarrow> 'n \<Rightarrow> byte list \<Rightarrow> 'i \<Rightarrow> ('a, 'i, 'n, 'f) dispatcher \<Rightarrow>
   'i dgram_out \<Rightarrow> caf_error option \<times> ('a, 'i, 'n, 'f) dispatcher \<times> 'i dgram_out" where
  "disp_handle_data T nonode data i d o1 =
     (case find_worker (workers_by_id d) i of
        Some w \<Rightarrow> worker_call (ap_handle_data T data) w d o1
      | None \<Rightarrow>
          (case add_new_worker T nonode i d o1 of
             (Inr w, d', o2) \<Rightarrow> worker_call (ap_handle_data T data) w d' o2
           | (Inl e, d', o2) \<Rightarrow> (Some e, d', o2)))"

text \<open>A message with its receiver's node, \<open>None\<close> if it has no receiver. Errors are only logged.\<close>

definition disp_write_message ::
  "('a, 'f, 'i dgram_out, 'm, 'l) transport_app \<Rightarrow> 'i \<Rightarrow> 'm \<Rightarrow> 'n option \<Rightarrow> ('a, 'i, 'n, 'f) dispatcher \<Rightarrow>
   'i dgram_out \<Rightarrow> ('a, 'i, 'n, 'f) dispatcher \<times> 'i dgram_out" where
  "disp_write_message T noid msg receiver d o1 =
     (case receiver of
        None \<Rightarrow> (d, o1)
      | Some nid \<Rightarrow>
          (case find_worker (workers_by_node d) nid of
             Some w \<Rightarrow> snd (worker_call (ap_write_message T msg) w d o1)
           | None \<Rightarrow>
               (case add_new_worker T nid noid d o1 of
                  (Inr w, d', o2) \<Rightarrow> snd (worker_call (ap_write_message T msg) w d' o2)
                | (Inl e, d', o2) \<Rightarrow> (d', o2))))"

text \<open>The last component tells whether the listener receives an error.\<close>

definition disp_resolve ::
  "('a, 'f, 'i dgram_out, 'm, 'l) transport_app \<Rightarrow> 'n \<Rightarrow> string \<Rightarrow> 'l \<Rightarrow> ('a, 'i, 'n, 'f) dispatcher \<Rightarrow>
   'i dgram_out \<Rightarrow> ('a, 'i, 'n, 'f) dispatcher \<times> 'i dgram_out \<times> ('l \<times> caf_error) list" where
  "disp_resolve T nid path listener d o1 =
     (case find_worker (workers_by_node d) nid of
        Some w \<Rightarrow> (let (_, d', o2) = worker_call (ap_resolve T path listener) w d o1 in (d', o2, []))
      | None \<Rightarrow> (d, o1, [(listener, Sec_error sec_runtime_error ''could not resolve node'')]))"

definition disp_new_proxy ::
  "('a, 'f, 'i dgram_out, 'm, 'l) transport_app \<Rightarrow> 'n \<Rightarrow> u64 \<Rightarrow> ('a, 'i, 'n, 'f) dispatcher \<Rightarrow>
   'i dgram_out \<Rightarrow> ('a, 'i, 'n, 'f) dispatcher \<times> 'i dgram_out" where
  "disp_new_proxy T nid i d o1 =
     (case find_worker (workers_by_node d) nid of
        Some w \<Rightarrow> snd (worker_call (ap_new_proxy T i) w d o1)
      | None \<Rightarrow> (d, o1))"

definition disp_local_actor_down ::
  "('a, 'f, 'i dgram_out, 'm, 'l) transport_app \<Rightarrow> 'n \<Rightarrow> u64 \<Rightarrow> caf_error \<Rightarrow> ('a, 'i, 'n, 'f) dispatcher \<Rightarrow>
   'i dgram_out \<Rightarrow> ('a, 'i, 'n, 'f) dispatcher \<times> 'i dgram_out" where
  "disp_local_actor_down T nid i reason d o1 =
     (case find_worker (workers_by_node d) nid of
        Some w \<Rightarrow> snd (worker_call (ap_local_actor_down T i reason) w d o1)
      | None \<Rightarrow> (d, o1))"

text \<open>\<open>at\<close> throws for an unknown key: \<open>None\<close>.\<close>

definition disp_set_timeout ::
  "u64 \<Rightarrow> 'i \<Rightarrow> ('a, 'i, 'n, 'f) dispatcher \<Rightarrow> ('a, 'i, 'n, 'f) dispatcher option" where
  "disp_set_timeout timeout_id i d =
     (case map_of (workers_by_id d) i of
        None \<Rightarrow> None
      | Some w \<Rightarrow> Some (d\<lparr>workers_by_timeout_id := emplace timeout_id w (workers_by_timeout_id d)\<rparr>))"

definition disp_timeout ::
  "('a, 'f, 'i dgram_out, 'm, 'l) transport_app \<Rightarrow> string \<Rightarrow> u64 \<Rightarrow> ('a, 'i, 'n, 'f) dispatcher \<Rightarrow>
   'i dgram_out \<Rightarrow> (('a, 'i, 'n, 'f) dispatcher \<times> 'i dgram_out) option" where
  "disp_timeout T tag i d o1 =
     (case map_of (workers_by_timeout_id d) i of
        None \<Rightarrow> None
      | Some w \<Rightarrow>
          let (_, d', o2) = worker_call (ap_timeout T tag i) w d o1
          in Some (d'\<lparr>workers_by_timeout_id := filter (\<lambda>p. fst p \<noteq> i) (workers_by_timeout_id d')\<rparr>, o2))"

text \<open>Each dictionary entry has a worker of its own, so the order of the calls does not matter.\<close>

definition disp_handle_error ::
  "('a, 'f, 'o, 'm, 'l) transport_app \<Rightarrow> sec \<Rightarrow> ('a, 'i, 'n, 'f) dispatcher \<Rightarrow> ('a, 'i, 'n, 'f) dispatcher" where
  "disp_handle_error T code d =
     d\<lparr>workers := foldl (\<lambda>ws p. ws[snd p := tw_handle_error T code (ws ! snd p)]) (workers d) (workers_by_id d)\<rparr>"

section \<open>The transport (datagram\_transport.hpp)\<close>

abbreviation (input) max_datagram_size :: nat where "max_datagram_size \<equiv> 65535"

text \<open>The kernel state \<open>'k\<close> stands for the socket.\<close>

record ('a, 'x, 'n, 'f, 'k) datagram_transport =
  dt_next_layer :: "('a, 'x ip_endpoint, 'n, 'f) dispatcher"
  dt_out :: "'x ip_endpoint dgram_out"
  dt_handle :: socket_id
  dt_read_buf :: "byte list"
  dt_max_consecutive_reads :: nat
  dt_kernel :: 'k

text \<open>\<open>std::vector::resize\<close>\<close>

definition resize_buf :: "nat \<Rightarrow> byte list \<Rightarrow> byte list" where
  "resize_buf n buf = take n buf @ replicate (n - length buf) 0"

lemma length_resize_buf [simp]: "length (resize_buf n buf) = n"
  by (simp add: resize_buf_def)

definition dt_prepare_next_read ::
  "('a, 'x, 'n, 'f, 'k) datagram_transport \<Rightarrow> ('a, 'x, 'n, 'f, 'k) datagram_transport" where
  "dt_prepare_next_read t = t\<lparr>dt_read_buf := resize_buf max_datagram_size (dt_read_buf t)\<rparr>"

text \<open>
  \<open>transport_base::init\<close> with the settings, then \<open>datagram_transport::init\<close>. The dispatcher's
  \<open>init\<close> never fails.
\<close>

definition dt_base_init ::
  "nat \<Rightarrow> nat \<Rightarrow> nat \<Rightarrow> ('a, 'x, 'n, 'f, 'k) datagram_transport \<Rightarrow> ('a, 'x, 'n, 'f, 'k) datagram_transport" where
  "dt_base_init max_reads max_header_bufs max_payload_bufs t =
     t\<lparr>dt_max_consecutive_reads := max_reads,
       dt_out := (dt_out t)\<lparr>header_cap := max_header_bufs, payload_cap := max_payload_bufs\<rparr>\<rparr>"

definition dt_init ::
  "nat \<Rightarrow> nat \<Rightarrow> nat \<Rightarrow> ('a, 'x, 'n, 'f, 'k) datagram_transport \<Rightarrow> ('a, 'x, 'n, 'f, 'k) datagram_transport" where
  "dt_init max_reads max_header_bufs max_payload_bufs t =
     dt_prepare_next_read (dt_base_init max_reads max_header_bufs max_payload_bufs t)"

definition dt_next_handle_error ::
  "('a, 'f, 'x ip_endpoint dgram_out, 'm, 'l) transport_app \<Rightarrow> sec \<Rightarrow>
   ('a, 'x, 'n, 'f, 'k) datagram_transport \<Rightarrow> ('a, 'x, 'n, 'f, 'k) datagram_transport" where
  "dt_next_handle_error T code t = t\<lparr>dt_next_layer := disp_handle_error T code (dt_next_layer t)\<rparr>"

definition dt_next_handle_data ::
  "('a, 'f, 'x ip_endpoint dgram_out, 'm, 'l) transport_app \<Rightarrow> 'n \<Rightarrow> byte list \<Rightarrow> 'x ip_endpoint \<Rightarrow>
   ('a, 'x, 'n, 'f, 'k) datagram_transport \<Rightarrow> caf_error option \<times> ('a, 'x, 'n, 'f, 'k) datagram_transport" where
  "dt_next_handle_data T nonode data ep t =
     (let (err, d, o1) = disp_handle_data T nonode data ep (dt_next_layer t) (dt_out t)
      in (err, t\<lparr>dt_next_layer := d, dt_out := o1\<rparr>))"

text \<open>\<open>recvfrom\<close> overwrites the front of the buffer.\<close>

fun dt_read_loop ::
  "'k posix \<Rightarrow> 'x ip_ops \<Rightarrow> ('a, 'f, 'x ip_endpoint dgram_out, 'm, 'l) transport_app \<Rightarrow> 'n \<Rightarrow> nat \<Rightarrow>
   ('a, 'x, 'n, 'f, 'k) datagram_transport \<Rightarrow> bool \<times> ('a, 'x, 'n, 'f, 'k) datagram_transport" where
  "dt_read_loop P A T nonode 0 t = (True, t)"
| "dt_read_loop P A T nonode (Suc n) t =
     (case udp_read P A (dt_handle t) (length (dt_read_buf t)) (dt_kernel t) of
        (Inr (num_bytes, bytes, ep), k) \<Rightarrow>
          let buf = resize_buf num_bytes (bytes @ drop (length bytes) (dt_read_buf t));
              (err, t1) = dt_next_handle_data T nonode buf ep (t\<lparr>dt_kernel := k, dt_read_buf := buf\<rparr>)
          in (case err of
                Some e \<Rightarrow> (False, t1)
              | None \<Rightarrow> dt_read_loop P A T nonode n (dt_prepare_next_read t1))
      | (Inl err, k) \<Rightarrow>
          if err = sec_unavailable_or_would_block then (True, t\<lparr>dt_kernel := k\<rparr>)
          else (False, dt_next_handle_error T err (t\<lparr>dt_kernel := k\<rparr>)))"

definition dt_handle_read_event ::
  "'k posix \<Rightarrow> 'x ip_ops \<Rightarrow> ('a, 'f, 'x ip_endpoint dgram_out, 'm, 'l) transport_app \<Rightarrow> 'n \<Rightarrow>
   ('a, 'x, 'n, 'f, 'k) datagram_transport \<Rightarrow> bool \<times> ('a, 'x, 'n, 'f, 'k) datagram_transport" where
  "dt_handle_read_event P A T nonode t = dt_read_loop P A T nonode (dt_max_consecutive_reads t) t"

text \<open>The first argument is the packet queue, which only the loop itself changes.\<close>

fun dt_write_loop ::
  "'k posix \<Rightarrow> 'x ip_ops \<Rightarrow> ('a, 'f, 'x ip_endpoint dgram_out, 'm, 'l) transport_app \<Rightarrow>
   'x ip_endpoint dgram_packet list \<Rightarrow> ('a, 'x, 'n, 'f, 'k) datagram_transport \<Rightarrow>
   sec option \<times> ('a, 'x, 'n, 'f, 'k) datagram_transport" where
  "dt_write_loop P A T [] t = (None, t)"
| "dt_write_loop P A T (p # ps) t =
     (case udp_write P A (dt_handle t) (pk_bytes p) (pk_id p) (dt_kernel t) of
        (Inr num_bytes, k) \<Rightarrow> dt_write_loop P A T ps (t\<lparr>dt_kernel := k, dt_out := recycle (dt_out t)\<rparr>)
      | (Inl err, k) \<Rightarrow>
          (Some err,
           if err \<noteq> sec_unavailable_or_would_block then dt_next_handle_error T err (t\<lparr>dt_kernel := k\<rparr>)
           else t\<lparr>dt_kernel := k\<rparr>))"

definition dt_write_some ::
  "'k posix \<Rightarrow> 'x ip_ops \<Rightarrow> ('a, 'f, 'x ip_endpoint dgram_out, 'm, 'l) transport_app \<Rightarrow>
   ('a, 'x, 'n, 'f, 'k) datagram_transport \<Rightarrow> sec option \<times> ('a, 'x, 'n, 'f, 'k) datagram_transport" where
  "dt_write_some P A T t = dt_write_loop P A T (packet_queue (dt_out t)) t"

definition dt_next_write_message ::
  "('a, 'f, 'x ip_endpoint dgram_out, 'm, 'l) transport_app \<Rightarrow> 'x ip_endpoint \<Rightarrow> 'm \<times> 'n option \<Rightarrow>
   ('a, 'x, 'n, 'f, 'k) datagram_transport \<Rightarrow> ('a, 'x, 'n, 'f, 'k) datagram_transport" where
  "dt_next_write_message T noid msg t =
     (let (d, o1) = disp_write_message T noid (fst msg) (snd msg) (dt_next_layer t) (dt_out t)
      in t\<lparr>dt_next_layer := d, dt_out := o1\<rparr>)"

text \<open>
  \<open>next_message\<close> is the operation of the endpoint manager, on its state \<open>'q\<close>. The loop ends when it
  has no more messages; \<open>None\<close> if it never does.
\<close>

partial_function (option) dt_handle_write_event ::
  "'k posix \<Rightarrow> 'x ip_ops \<Rightarrow> ('a, 'f, 'x ip_endpoint dgram_out, 'm, 'l) transport_app \<Rightarrow> 'x ip_endpoint \<Rightarrow>
   ('q \<Rightarrow> ('m \<times> 'n option) option \<times> 'q) \<Rightarrow> ('a, 'x, 'n, 'f, 'k) datagram_transport \<Rightarrow> 'q \<Rightarrow>
   (bool \<times> ('a, 'x, 'n, 'f, 'k) datagram_transport \<times> 'q) option" where
  "dt_handle_write_event P A T noid next_message t q =
     (case dt_write_some P A T t of
        (Some err, t1) \<Rightarrow> Some (err = sec_unavailable_or_would_block, t1, q)
      | (None, t1) \<Rightarrow>
          (case next_message q of
             (Some msg, q1) \<Rightarrow> dt_handle_write_event P A T noid next_message (dt_next_write_message T noid msg t1) q1
           | (None, q1) \<Rightarrow> Some (packet_queue (dt_out t1) \<noteq> [], t1, q1)))"

section \<open>Invariant of the output side\<close>

text \<open>
  The caches hold cleared buffers only and never outgrow their capacity; a transport with queued
  packets has registered for writing.
\<close>

definition out_ok :: "'i dgram_out \<Rightarrow> bool" where
  "out_ok o1 \<longleftrightarrow>
     length (header_bufs o1) \<le> header_cap o1 \<and> length (payload_bufs o1) \<le> payload_cap o1 \<and>
     set (header_bufs o1) \<subseteq> {[]} \<and> set (payload_bufs o1) \<subseteq> {[]} \<and>
     (packet_queue o1 \<noteq> [] \<longrightarrow> writing_registered o1)"

lemma next_buffer_ok:
  "set cache \<subseteq> {[]} \<Longrightarrow> next_buffer_impl cache = (b, c) \<Longrightarrow> b = [] \<and> set c \<subseteq> {[]} \<and> length c \<le> length cache"
  by (auto simp: next_buffer_impl_def dest!: in_set_butlastD last_in_set split: if_splits)

lemma next_header_buffer_ok: "out_ok o1 \<Longrightarrow> out_ok (snd (next_header_buffer o1)) \<and> fst (next_header_buffer o1) = []"
  using next_buffer_ok [of "header_bufs o1"]
  by (cases "next_buffer_impl (header_bufs o1)") (auto simp: next_header_buffer_def out_ok_def)

lemma next_payload_buffer_ok: "out_ok o1 \<Longrightarrow> out_ok (snd (next_payload_buffer o1)) \<and> fst (next_payload_buffer o1) = []"
  using next_buffer_ok [of "payload_bufs o1"]
  by (cases "next_buffer_impl (payload_bufs o1)") (auto simp: next_payload_buffer_def out_ok_def)

lemma dg_write_packet_ok: "out_ok o1 \<Longrightarrow> out_ok (dg_write_packet i bufs o1)"
  by (auto simp: dg_write_packet_def out_ok_def Let_def)

lemma dg_write_packet_queue [simp]:
  "packet_queue (dg_write_packet i bufs o1) = packet_queue o1 @ [packet_new i bufs]"
  by (simp add: dg_write_packet_def Let_def)

lemma buffer_queue [simp]:
  "packet_queue (snd (next_header_buffer o1)) = packet_queue o1"
  "packet_queue (snd (next_payload_buffer o1)) = packet_queue o1"
  by (simp_all add: next_header_buffer_def next_payload_buffer_def split: prod.split)

lemma recycle_payload_ok:
  "length (header_bufs o1) \<le> header_cap o1 \<Longrightarrow> length (payload_bufs o1) \<le> payload_cap o1 \<Longrightarrow>
   set (header_bufs o1) \<subseteq> {[]} \<Longrightarrow> set (payload_bufs o1) \<subseteq> {[]} \<Longrightarrow>
   packet_queue (recycle_payload bs o1) = packet_queue o1 \<and>
   (writing_registered (recycle_payload bs o1) \<longleftrightarrow> writing_registered o1) \<and>
   length (header_bufs (recycle_payload bs o1)) \<le> header_cap (recycle_payload bs o1) \<and>
   length (payload_bufs (recycle_payload bs o1)) \<le> payload_cap (recycle_payload bs o1) \<and>
   set (header_bufs (recycle_payload bs o1)) \<subseteq> {[]} \<and> set (payload_bufs (recycle_payload bs o1)) \<subseteq> {[]}"
  by (induction bs o1 rule: recycle_payload.induct) auto

lemma recycle_ok: "out_ok o1 \<Longrightarrow> packet_queue o1 \<noteq> [] \<Longrightarrow> out_ok (recycle o1)"
  using recycle_payload_ok [of "o1\<lparr>header_bufs := header_bufs o1 @ [[]]\<rparr>" "tl (pk_bytes (hd (packet_queue o1)))"]
    recycle_payload_ok [of o1 "pk_bytes (hd (packet_queue o1))"]
  by (auto simp: recycle_def out_ok_def Let_def)

lemma recycle_payload_queue [simp]: "packet_queue (recycle_payload bs o1) = packet_queue o1"
  by (induction bs o1 rule: recycle_payload.induct) auto

lemma recycle_queue [simp]: "packet_queue (recycle o1) = tl (packet_queue o1)"
  by (simp add: recycle_def Let_def)

section \<open>Applications that use their writer only\<close>

text \<open>
  An application receives the transport as a \<open>packet_writer\<close> and can do nothing to it but call the
  operations of the writer: whatever these keep, the application keeps.
\<close>

definition writer_closed :: "('i dgram_out \<Rightarrow> bool) \<Rightarrow> 'i \<Rightarrow> bool" where
  "writer_closed I i \<longleftrightarrow>
     (\<forall>o1. I o1 \<longrightarrow> I (snd (next_header_buffer o1)) \<and> I (snd (next_payload_buffer o1)) \<and>
        (\<forall>bufs. I (dg_write_packet i bufs o1)))"

definition uses_writer :: "('a, 'i dgram_out, 'r) app_op \<Rightarrow> bool" where
  "uses_writer f \<longleftrightarrow>
     (\<forall>I i a o1. writer_closed I i \<longrightarrow> I o1 \<longrightarrow> I (snd (snd (f (make_packet_writer_decorator i) a o1))))"

definition app_uses_writer :: "('a, 'f, 'i dgram_out, 'm, 'l) transport_app \<Rightarrow> bool" where
  "app_uses_writer T \<longleftrightarrow>
     uses_writer (ap_init T) \<and> (\<forall>data. uses_writer (ap_handle_data T data)) \<and>
     (\<forall>msg. uses_writer (ap_write_message T msg))"

lemma out_ok_closed: "writer_closed out_ok i"
  by (simp add: writer_closed_def next_header_buffer_ok next_payload_buffer_ok dg_write_packet_ok)

lemma appends_closed:
  fixes i :: 'a
  shows "writer_closed (\<lambda>o1. \<exists>ps. packet_queue o1 = q @ ps \<and> (\<forall>p \<in> set ps. pk_id p = i)) i"
  unfolding writer_closed_def
proof (intro allI impI conjI)
  fix o1 :: "'a dgram_out" and bufs
  assume "\<exists>ps. packet_queue o1 = q @ ps \<and> (\<forall>p \<in> set ps. pk_id p = i)"
  then obtain ps where "packet_queue o1 = q @ ps" "\<forall>p \<in> set ps. pk_id p = i" by blast
  then show "\<exists>ps. packet_queue (dg_write_packet i bufs o1) = q @ ps \<and> (\<forall>p \<in> set ps. pk_id p = i)"
    by (intro exI [of _ "ps @ [packet_new i bufs]"]) (auto simp: packet_new_def)
qed simp_all

lemma tw_call_keeps:
  assumes "uses_writer f" and "writer_closed I (tw_id w)" and "I o1" and "tw_call f w o1 = (r, w', o2)"
  shows "I o2 \<and> tw_id w' = tw_id w"
proof -
  have "I (snd (snd (f (make_packet_writer_decorator (tw_id w)) (tw_application w) o1)))"
    using assms(1-3) unfolding uses_writer_def by blast
  then show ?thesis using assms(4) by (auto simp: tw_call_def split: prod.splits)
qed

section \<open>Invariant of the dispatcher\<close>

text \<open>Every entry points to a worker, and a worker found by its endpoint writes to this endpoint.\<close>

definition disp_inv :: "('a, 'i, 'n, 'f) dispatcher \<Rightarrow> bool" where
  "disp_inv d \<longleftrightarrow>
     (\<forall>(i, w) \<in> set (workers_by_id d). w < length (workers d) \<and> tw_id (workers d ! w) = i) \<and>
     (\<forall>(n, w) \<in> set (workers_by_node d). w < length (workers d)) \<and>
     (\<forall>(t, w) \<in> set (workers_by_timeout_id d). w < length (workers d)) \<and>
     distinct (map fst (workers_by_id d)) \<and> distinct (map snd (workers_by_id d))"

lemma set_emplace: "x \<in> set (emplace k v m) \<Longrightarrow> x = (k, v) \<or> x \<in> set m"
  by (auto simp: emplace_def split: option.splits)

lemma find_worker_in: "find_worker m k = Some w \<Longrightarrow> (k, w) \<in> set m"
  by (simp add: find_worker_def map_of_SomeD)

lemma disp_inv_by_id:
  "disp_inv d \<Longrightarrow> find_worker (workers_by_id d) i = Some w \<Longrightarrow> w < length (workers d) \<and> tw_id (workers d ! w) = i"
  using find_worker_in by (fastforce simp: disp_inv_def)

lemma disp_inv_by_node:
  "disp_inv d \<Longrightarrow> find_worker (workers_by_node d) n = Some w \<Longrightarrow> w < length (workers d)"
  using find_worker_in by (fastforce simp: disp_inv_def)

lemma disp_inv_update:
  assumes "disp_inv d" and "w < length (workers d)" and "tw_id w' = tw_id (workers d ! w)"
  shows "disp_inv (d\<lparr>workers := (workers d)[w := w']\<rparr>)"
  using assms by (auto simp: disp_inv_def nth_list_update)

lemma worker_call_keeps:
  assumes inv: "disp_inv d" and w: "w < length (workers d)" and f: "uses_writer f"
    and I: "writer_closed I (tw_id (workers d ! w))" "I o1" and c: "worker_call f w d o1 = (r, d', o2)"
  shows "disp_inv d' \<and> I o2"
proof -
  obtain r' w' o' where t: "tw_call f (workers d ! w) o1 = (r', w', o')" by (metis surj_pair)
  then show ?thesis
    using tw_call_keeps [OF f I t] disp_inv_update [OF inv w] c by (auto simp: worker_call_def)
qed

lemma emplace_keys:
  "distinct (map fst m) \<Longrightarrow> distinct (map fst (emplace k v m))"
  by (auto simp: emplace_def map_of_eq_None_iff split: option.splits)

lemma emplace_values:
  "distinct (map snd m) \<Longrightarrow> v \<notin> snd ` set m \<Longrightarrow> distinct (map snd (emplace k v m))"
  by (auto simp: emplace_def split: option.splits)

lemma add_new_worker_keeps:
  assumes inv: "disp_inv d" and T: "uses_writer (ap_init T)" and I: "writer_closed I i" "I o1"
    and c: "add_new_worker T node i d o1 = (r, d', o2)"
  shows "disp_inv d' \<and> I o2 \<and> (\<forall>w. r = Inr w \<longrightarrow> w < length (workers d') \<and> tw_id (workers d' ! w) = i)"
proof -
  obtain a f where mk: "factory_make T (factory d) = (a, f)" by fastforce
  obtain err w o' where t: "tw_call (ap_init T) \<lparr>tw_application = a, tw_id = i\<rparr> o1 = (err, w, o')" by (metis surj_pair)
  have k: "I o'" "tw_id w = i" using tw_call_keeps [where I = I, OF T _ I(2) t] I(1) by simp_all
  show ?thesis
  proof (cases err)
    case (Some e)
    then show ?thesis using c mk t k inv by (auto simp: add_new_worker_def disp_inv_def)
  next
    case None
    let ?n = "length (workers d)"
    let ?d = "d\<lparr>factory := f, workers := workers d @ [w], workers_by_id := emplace i ?n (workers_by_id d),
        workers_by_node := emplace node ?n (workers_by_node d)\<rparr>"
    have r: "r = Inr ?n" "d' = ?d" "o2 = o'"
      using c mk t None by (auto simp: add_new_worker_def Let_def)
    have "?n \<notin> snd ` set (workers_by_id d)" using inv by (auto simp: disp_inv_def)
    then have "disp_inv ?d"
      using inv k(2) emplace_keys emplace_values
      by (fastforce simp: disp_inv_def nth_append dest!: set_emplace)
    then show ?thesis using r k by simp
  qed
qed

lemma disp_handle_data_keeps:
  assumes inv: "disp_inv d" and T: "app_uses_writer T" and I: "writer_closed I i" "I o1"
    and c: "disp_handle_data T nonode data i d o1 = (err, d', o2)"
  shows "disp_inv d' \<and> I o2"
proof (cases "find_worker (workers_by_id d) i")
  case (Some w)
  then show ?thesis
    using worker_call_keeps [OF inv, of w "ap_handle_data T data" I o1 err d' o2] disp_inv_by_id [OF inv Some] T I c
    by (simp add: disp_handle_data_def app_uses_writer_def)
next
  case None
  obtain r d1 o' where a: "add_new_worker T nonode i d o1 = (r, d1, o')" by (metis surj_pair)
  have k: "disp_inv d1" "I o'" "\<forall>w. r = Inr w \<longrightarrow> w < length (workers d1) \<and> tw_id (workers d1 ! w) = i"
    using add_new_worker_keeps [OF inv _ I a] T by (simp_all add: app_uses_writer_def)
  then show ?thesis
    using worker_call_keeps [OF k(1), of _ "ap_handle_data T data" I o' err d' o2] T I(1) c None a
    by (auto simp: disp_handle_data_def app_uses_writer_def split: sum.splits)
qed

section \<open>Sending\<close>

text \<open>The kernel after an attempt to send a packet.\<close>

definition send_packet ::
  "'k posix \<Rightarrow> 'x ip_ops \<Rightarrow> socket_id \<Rightarrow> 'x ip_endpoint dgram_packet \<Rightarrow> 'k \<Rightarrow> 'k" where
  "send_packet P A h p k = snd (udp_write P A h (pk_bytes p) (pk_id p) k)"

lemma dt_next_handle_error_sel [simp]:
  "dt_out (dt_next_handle_error T e t) = dt_out t" "dt_kernel (dt_next_handle_error T e t) = dt_kernel t"
  "dt_read_buf (dt_next_handle_error T e t) = dt_read_buf t" "dt_handle (dt_next_handle_error T e t) = dt_handle t"
  by (simp_all add: dt_next_handle_error_def)

lemma dt_write_loop_spec:
  assumes "dt_write_loop P A T ps t = (e, t')" and "packet_queue (dt_out t) = ps"
  shows "\<exists>sent rest. ps = sent @ rest \<and> packet_queue (dt_out t') = rest \<and> (e = None \<longleftrightarrow> rest = []) \<and>
    dt_kernel t' = fold (send_packet P A (dt_handle t)) (sent @ take 1 rest) (dt_kernel t)"
  using assms
proof (induction P A T ps t arbitrary: e t' rule: dt_write_loop.induct)
  case (1 P A T t)
  then show ?case by simp
next
  case (2 P A T p ps t)
  obtain r k where w: "udp_write P A (dt_handle t) (pk_bytes p) (pk_id p) (dt_kernel t) = (r, k)" by fastforce
  show ?case
  proof (cases r)
    case (Inl err)
    then show ?thesis
      using 2(2,3) w by (intro exI [of _ "[]"] exI [of _ "p # ps"]) (auto simp: send_packet_def split: if_splits)
  next
    case (Inr n)
    let ?t = "t\<lparr>dt_kernel := k, dt_out := recycle (dt_out t)\<rparr>"
    have "dt_write_loop P A T ps ?t = (e, t')" using 2(2) w Inr by simp
    then obtain sent rest where "ps = sent @ rest" "packet_queue (dt_out t') = rest" "e = None \<longleftrightarrow> rest = []"
      "dt_kernel t' = fold (send_packet P A (dt_handle t)) (sent @ take 1 rest) k"
      using 2(1) [OF w [symmetric] Inr, of e t'] 2(3) by auto
    moreover have "send_packet P A (dt_handle t) p (dt_kernel t) = k" using w by (simp add: send_packet_def)
    ultimately show ?thesis by (rule_tac x = "p # sent" in exI, rule_tac x = rest in exI) simp
  qed
qed

lemma dt_write_loop_out_ok:
  assumes "dt_write_loop P A T ps t = (e, t')" and "packet_queue (dt_out t) = ps" and "out_ok (dt_out t)"
  shows "out_ok (dt_out t')"
  using assms
proof (induction P A T ps t arbitrary: e t' rule: dt_write_loop.induct)
  case (2 P A T p ps t)
  obtain r k where w: "udp_write P A (dt_handle t) (pk_bytes p) (pk_id p) (dt_kernel t) = (r, k)" by fastforce
  show ?case
  proof (cases r)
    case (Inr n)
    then show ?thesis
      using 2(1) [OF w [symmetric] Inr, of e t'] 2(2-) w recycle_ok [of "dt_out t"] by simp
  qed (use 2(2-) w in \<open>auto split: if_splits\<close>)
qed simp

text \<open>If the message queue drains, the event handler returns.\<close>

lemma dt_handle_write_event_returns:
  assumes drain: "\<And>q msg q'. next_message q = (Some msg, q') \<Longrightarrow> left q' < (left q :: nat)"
  shows "\<exists>b t' q'. dt_handle_write_event P A T noid next_message t q = Some (b, t', q') \<and>
    (b \<longrightarrow> packet_queue (dt_out t') \<noteq> [])"
proof (induction "left q" arbitrary: q t rule: less_induct)
  case less
  obtain e t1 where w: "dt_write_some P A T t = (e, t1)" by fastforce
  obtain m q1 where n: "next_message q = (m, q1)" by fastforce
  obtain sent rest where rest: "packet_queue (dt_out t1) = rest" "e = None \<longleftrightarrow> rest = []"
    using dt_write_loop_spec [OF w [unfolded dt_write_some_def] refl] by blast
  show ?case
  proof (cases e)
    case (Some err)
    then show ?thesis using w rest by (subst dt_handle_write_event.simps) simp
  next
    case None
    show ?thesis
    proof (cases m)
      case (Some msg)
      have "left q1 < left q" using drain n Some by simp
      from less [OF this, of "dt_next_write_message T noid msg t1"] show ?thesis
        using w n None Some by (subst dt_handle_write_event.simps) simp
    next
      case None
      then show ?thesis using w n \<open>e = None\<close> rest by (subst dt_handle_write_event.simps) auto
    qed
  qed
qed

section \<open>Receiving\<close>

definition dt_inv :: "('a, 'x, 'n, 'f, 'k) datagram_transport \<Rightarrow> bool" where
  "dt_inv t \<longleftrightarrow> disp_inv (dt_next_layer t) \<and> out_ok (dt_out t)"

lemma disp_handle_error_workers:
  "length (foldl (\<lambda>ws p. ws[snd p := tw_handle_error T c (ws ! snd p)]) ws ps) = length ws \<and>
   (\<forall>w < length ws. tw_id (foldl (\<lambda>ws p. ws[snd p := tw_handle_error T c (ws ! snd p)]) ws ps ! w) = tw_id (ws ! w))"
proof (induction ps arbitrary: ws)
  case Nil
  then show ?case by simp
next
  case (Cons p ps)
  let ?ws = "ws[snd p := tw_handle_error T c (ws ! snd p)]"
  have "tw_id (?ws ! w) = tw_id (ws ! w)" if "w < length ws" for w
    using that by (cases "w = snd p") (simp_all add: tw_handle_error_def)
  then show ?case using Cons [of ?ws] by simp
qed

lemma disp_handle_error_inv: "disp_inv d \<Longrightarrow> disp_inv (disp_handle_error T c d)"
  using disp_handle_error_workers [of T c "workers d" "workers_by_id d"]
  by (fastforce simp: disp_inv_def disp_handle_error_def)

lemma dt_read_loop_inv:
  assumes "app_uses_writer T" and "dt_inv t" and "dt_read_loop P A T nonode n t = (r, t')"
  shows "dt_inv t' \<and> (r \<longrightarrow> length (dt_read_buf t) = max_datagram_size \<longrightarrow> length (dt_read_buf t') = max_datagram_size)"
  using assms(2-)
proof (induction n arbitrary: t)
  case 0
  then show ?case by simp
next
  case (Suc n)
  obtain res k where rd: "udp_read P A (dt_handle t) (length (dt_read_buf t)) (dt_kernel t) = (res, k)" by fastforce
  show ?case
  proof (cases res)
    case (Inl err)
    then show ?thesis
      using Suc.prems rd disp_handle_error_inv by (auto simp: dt_inv_def dt_next_handle_error_def split: if_splits)
  next
    case (Inr x)
    obtain m bytes ep where x: "x = (m, bytes, ep)" by (cases x)
    let ?buf = "resize_buf m (bytes @ drop (length bytes) (dt_read_buf t))"
    let ?t = "t\<lparr>dt_kernel := k, dt_read_buf := ?buf\<rparr>"
    obtain err d o1 where h: "disp_handle_data T nonode ?buf ep (dt_next_layer t) (dt_out t) = (err, d, o1)"
      by (metis surj_pair)
    have hd: "dt_next_handle_data T nonode ?buf ep ?t = (err, ?t\<lparr>dt_next_layer := d, dt_out := o1\<rparr>)"
      using h by (simp add: dt_next_handle_data_def)
    have inv: "disp_inv d" "out_ok o1"
      using disp_handle_data_keeps [where I = out_ok, OF _ assms(1) out_ok_closed _ h] Suc.prems(1) by (simp_all add: dt_inv_def)
    show ?thesis
    proof (cases err)
      case (Some e)
      then show ?thesis using Suc.prems(2) rd Inr x hd inv by (auto simp: dt_inv_def)
    next
      case None
      let ?t1 = "dt_prepare_next_read (?t\<lparr>dt_next_layer := d, dt_out := o1\<rparr>)"
      have "dt_read_loop P A T nonode n ?t1 = (r, t')" using Suc.prems(2) rd Inr x hd None by simp
      moreover have "dt_inv ?t1" "length (dt_read_buf ?t1) = max_datagram_size"
        using inv by (simp_all add: dt_inv_def dt_prepare_next_read_def)
      ultimately show ?thesis using Suc.IH [of ?t1] by blast
    qed
  qed
qed

section \<open>Properties\<close>

text \<open>An application for witnesses: it answers with what it receives, after a header of one byte.\<close>

definition echo_op :: "byte list \<Rightarrow> (unit, 'o, caf_error option) app_op" where
  "echo_op data W a o1 =
     (let (h, o2) = pw_header W o1; (p, o3) = pw_payload W o2 in (None, a, pw_write W [h @ [1], p @ data] o3))"

definition echo_app :: "(unit, unit, 'o, byte list, unit) transport_app" where
  "echo_app =
     \<lparr>factory_make = (\<lambda>f. ((), f)), ap_init = (\<lambda>W a o1. (None, a, o1)), ap_handle_data = echo_op,
      ap_write_message = echo_op, ap_resolve = (\<lambda>path l W a o1. ((), a, o1)),
      ap_new_proxy = (\<lambda>i W a o1. ((), a, o1)), ap_local_actor_down = (\<lambda>i e W a o1. ((), a, o1)),
      ap_timeout = (\<lambda>tag i W a o1. ((), a, o1)), ap_handle_error = (\<lambda>c a. a)\<rparr>"

lemma echo_op_uses_writer: "uses_writer (echo_op data)"
  unfolding uses_writer_def
proof (intro allI impI)
  fix I :: "'i dgram_out \<Rightarrow> bool" and i :: 'i and a :: unit and o1
  assume c: "writer_closed I i" and "I o1"
  obtain h o2 where h: "next_header_buffer o1 = (h, o2)" by fastforce
  obtain p o3 where p: "next_payload_buffer o2 = (p, o3)" by fastforce
  have "I o2" using c \<open>I o1\<close> h unfolding writer_closed_def by (metis snd_conv)
  then have "I o3" using c p unfolding writer_closed_def by (metis snd_conv)
  then have "I (dg_write_packet i [h @ [1], p @ data] o3)" using c unfolding writer_closed_def by blast
  then show "I (snd (snd (echo_op data (make_packet_writer_decorator i) a o1)))"
    using h p by (simp add: echo_op_def make_packet_writer_decorator_def)
qed

lemma echo_app_uses_writer: "app_uses_writer echo_app"
  by (simp add: app_uses_writer_def echo_app_def echo_op_uses_writer) (simp add: uses_writer_def)

definition out_new :: "'i dgram_out" where
  "out_new = \<lparr>header_bufs = [], header_cap = 10, payload_bufs = [], payload_cap = 100, packet_queue = [],
              writing_registered = False\<rparr>"

lemma out_new_ok: "out_ok out_new"
  by (simp add: out_ok_def out_new_def)

lemma dispatcher_new_inv: "disp_inv (dispatcher_new f)"
  by (simp add: disp_inv_def dispatcher_new_def)

definition sample_dgram :: "(unit, bool, nat, unit, socket_id set) datagram_transport" where
  "sample_dgram =
     \<lparr>dt_next_layer = dispatcher_new (), dt_out = dg_write_packet \<lparr>ep_address = True, ep_port = 1\<rparr> [[1], [2]] out_new,
      dt_handle = 3, dt_read_buf = replicate max_datagram_size 0, dt_max_consecutive_reads = 50, dt_kernel = {3}\<rparr>"





text \<open>
  A read event keeps the transport's invariant: consistent dictionaries, caches within their
  bounds and, unless it fails, a read buffer with room for the largest datagram.
\<close>

lemma read_event_keeps_transport:
  assumes "app_uses_writer T" and "dt_inv t" and "length (dt_read_buf t) = max_datagram_size"
    and "dt_handle_read_event P A T nonode t = (r, t')"
  shows "dt_inv t' \<and> (r \<longrightarrow> length (dt_read_buf t') = max_datagram_size)"
  using dt_read_loop_inv [OF assms(1,2) assms(4) [unfolded dt_handle_read_event_def]] assms(3) by blast

lemma read_event_keeps_transport_sample:
  "dt_inv (snd (dt_handle_read_event (sample_posix True) two_addresses echo_app 0 sample_dgram))"
proof -
  obtain r t' where e: "dt_handle_read_event (sample_posix True) two_addresses echo_app 0 sample_dgram = (r, t')"
    by fastforce
  have "dt_inv sample_dgram" "length (dt_read_buf sample_dgram) = max_datagram_size"
    by (simp_all add: dt_inv_def sample_dgram_def dg_write_packet_ok out_new_ok dispatcher_new_inv)
  from read_event_keeps_transport [OF echo_app_uses_writer this e] e show ?thesis by simp
qed

end
