(* ===== verification/Endpoint_Manager.thy ===== *)
theory Endpoint_Manager
  imports Datagram_Transport
begin

text \<open>
  Endpoint managers (\<open>endpoint_manager_queue.hpp\<close>, \<open>endpoint_manager_queue.cpp\<close>,
  \<open>endpoint_manager.hpp\<close>, \<open>endpoint_manager.cpp\<close>, \<open>endpoint_manager_impl.hpp\<close>): actors put events and
  outbound messages into an inbox, the manager's write event drains it. The inbox is a class of the
  CAF core library: its operations are a parameter on the state \<open>'q\<close>. The transport is a template
  parameter: operations on the state \<open>'t\<close>.
\<close>

section \<open>Queue elements (endpoint\_manager\_queue.hpp)\<close>

datatype ('u, 'l, 'n) em_event =
    Resolve_request 'u 'l
  | New_proxy 'n u64
  | Local_actor_down 'n u64 caf_error
  | Timeout string u64

datatype ('u, 'l, 'n, 'm) em_element =
    Event "('u, 'l, 'n) em_event"
  | Message 'm

datatype element_type = Event_tag | Message_tag

fun element_tag :: "('u, 'l, 'n, 'm) em_element \<Rightarrow> element_type" where
  "element_tag (Event _) = Event_tag"
| "element_tag (Message _) = Message_tag"

text \<open>\<open>serialized_size\<close> of CAF is a parameter.\<close>

fun task_size :: "('m \<Rightarrow> nat) \<Rightarrow> ('u, 'l, 'n, 'm) em_element \<Rightarrow> nat" where
  "task_size serialized_size (Event _) = 1"
| "task_size serialized_size (Message msg) = serialized_size msg"

text \<open>The index of the queue for an element.\<close>

definition id_of :: "('u, 'l, 'n, 'm) em_element \<Rightarrow> nat" where
  "id_of x = (case element_tag x of Event_tag \<Rightarrow> 0 | Message_tag \<Rightarrow> 1)"

section \<open>The inbox\<close>

datatype inbox_result = Inbox_success | Inbox_unblocked_reader | Inbox_queue_closed

text \<open>\<open>ev_\<close> and \<open>msg_\<close> are the operations of the two nested queues.\<close>

record ('u, 'l, 'n, 'm, 'q) inbox =
  ib_push_back :: "('u, 'l, 'n, 'm) em_element \<Rightarrow> 'q \<Rightarrow> inbox_result \<times> 'q"
  ib_blocked :: "'q \<Rightarrow> bool"
  ib_try_block :: "'q \<Rightarrow> bool \<times> 'q"
  ib_fetch_more :: "'q \<Rightarrow> 'q"
  ib_empty :: "'q \<Rightarrow> bool"
  ev_total_task_size :: "'q \<Rightarrow> nat"
  ev_inc_deficit :: "nat \<Rightarrow> 'q \<Rightarrow> 'q"
  ev_next :: "'q \<Rightarrow> ('u, 'l, 'n) em_event option \<times> 'q"
  ev_empty :: "'q \<Rightarrow> bool"
  msg_next_task_size :: "'q \<Rightarrow> nat"
  msg_inc_deficit :: "nat \<Rightarrow> 'q \<Rightarrow> 'q"
  msg_next :: "'q \<Rightarrow> 'm option \<times> 'q"

section \<open>The manager (endpoint\_manager.cpp)\<close>

text \<open>The constructor blocks the inbox.\<close>

definition endpoint_manager_new :: "('u, 'l, 'n, 'm, 'q) inbox \<Rightarrow> 'q \<Rightarrow> 'q" where
  "endpoint_manager_new B q = snd (ib_try_block B q)"

definition at_end_of_message_queue :: "('u, 'l, 'n, 'm, 'q) inbox \<Rightarrow> 'q \<Rightarrow> bool \<times> 'q" where
  "at_end_of_message_queue B q = (if ib_empty B q then ib_try_block B q else (False, q))"

definition next_message :: "('u, 'l, 'n, 'm, 'q) inbox \<Rightarrow> 'q \<Rightarrow> 'm option \<times> 'q" where
  "next_message B q =
     (if ib_blocked B q then (None, q)
      else
        let q1 = ib_fetch_more B q; ts = msg_next_task_size B q1 in
        if ts = 0 then (None, q1)
        else
          let (result, q2) = msg_next B (msg_inc_deficit B ts q1)
          in (result, if ib_empty B q2 then snd (ib_try_block B q2) else q2))"

text \<open>
  \<open>enqueue(element*)\<close>: \<open>mpx\<close> tells whether the multiplexer still exists; the last component whether
  \<open>register_writing\<close> was called.
\<close>

definition em_enqueue ::
  "('u, 'l, 'n, 'm, 'q) inbox \<Rightarrow> bool \<Rightarrow> ('u, 'l, 'n, 'm) em_element \<Rightarrow> 'q \<Rightarrow> bool \<times> 'q \<times> bool" where
  "em_enqueue B mpx x q =
     (case ib_push_back B x q of
        (Inbox_success, q') \<Rightarrow> (True, q', False)
      | (Inbox_unblocked_reader, q') \<Rightarrow> if mpx then (True, q', True) else (False, q', False)
      | (Inbox_queue_closed, q') \<Rightarrow> (False, q', False))"

text \<open>The listener receives an error if the request cannot be enqueued.\<close>

definition em_resolve ::
  "('u, 'l, 'n, 'm, 'q) inbox \<Rightarrow> bool \<Rightarrow> 'u \<Rightarrow> 'l \<Rightarrow> 'q \<Rightarrow> 'q \<times> bool \<times> ('l \<times> caf_error) list" where
  "em_resolve B mpx locator listener q =
     (let (ok, q', reg) = em_enqueue B mpx (Event (Resolve_request locator listener)) q
      in (q', reg, if ok then [] else [(listener, Sec_error sec_request_receiver_down [])]))"

definition em_enqueue_message ::
  "('u, 'l, 'n, 'm, 'q) inbox \<Rightarrow> bool \<Rightarrow> 'm \<Rightarrow> 'q \<Rightarrow> 'q \<times> bool" where
  "em_enqueue_message B mpx msg q = (let (_, q', reg) = em_enqueue B mpx (Message msg) q in (q', reg))"

definition enqueue_event ::
  "('u, 'l, 'n, 'm, 'q) inbox \<Rightarrow> bool \<Rightarrow> ('u, 'l, 'n) em_event \<Rightarrow> 'q \<Rightarrow> 'q \<times> bool" where
  "enqueue_event B mpx e q = (let (_, q', reg) = em_enqueue B mpx (Event e) q in (q', reg))"

section \<open>Event handlers (endpoint\_manager\_impl.hpp)\<close>

text \<open>The transport fetches messages itself: its write event handler also changes the inbox.\<close>

record ('u, 'l, 'n, 'q, 't) em_transport =
  tr_init :: "'t \<Rightarrow> caf_error option \<times> 't"
  tr_handle_read_event :: "'t \<Rightarrow> bool \<times> 't"
  tr_handle_write_event :: "'t \<Rightarrow> 'q \<Rightarrow> bool \<times> 't \<times> 'q"
  tr_resolve :: "'u \<Rightarrow> 'l \<Rightarrow> 't \<Rightarrow> 't"
  tr_new_proxy :: "'n \<Rightarrow> u64 \<Rightarrow> 't \<Rightarrow> 't"
  tr_local_actor_down :: "'n \<Rightarrow> u64 \<Rightarrow> caf_error \<Rightarrow> 't \<Rightarrow> 't"
  tr_timeout :: "string \<Rightarrow> u64 \<Rightarrow> 't \<Rightarrow> 't"
  tr_handle_error :: "sec \<Rightarrow> 't \<Rightarrow> 't"

text \<open>The visitor for the events.\<close>

fun dispatch_event :: "('u, 'l, 'n, 'q, 't) em_transport \<Rightarrow> ('u, 'l, 'n) em_event \<Rightarrow> 't \<Rightarrow> 't" where
  "dispatch_event R (Resolve_request locator listener) t = tr_resolve R locator listener t"
| "dispatch_event R (New_proxy peer i) t = tr_new_proxy R peer i t"
| "dispatch_event R (Local_actor_down peer i reason) t = tr_local_actor_down R peer i reason t"
| "dispatch_event R (Timeout ty i) t = tr_timeout R ty i t"

text \<open>The inner loop over \<open>q.next()\<close> and the outer loop until the queue is empty.\<close>

partial_function (option) event_for ::
  "('u, 'l, 'n, 'm, 'q) inbox \<Rightarrow> ('u, 'l, 'n, 'q, 't) em_transport \<Rightarrow> 't \<Rightarrow> 'q \<Rightarrow> ('t \<times> 'q) option" where
  "event_for B R t q =
     (case ev_next B q of
        (None, q1) \<Rightarrow> Some (t, q1)
      | (Some e, q1) \<Rightarrow> event_for B R (dispatch_event R e t) q1)"

partial_function (option) event_do ::
  "('u, 'l, 'n, 'm, 'q) inbox \<Rightarrow> ('u, 'l, 'n, 'q, 't) em_transport \<Rightarrow> 't \<Rightarrow> 'q \<Rightarrow> ('t \<times> 'q) option" where
  "event_do B R t q =
     (case event_for B R t (ev_inc_deficit B (ev_total_task_size B q) q) of
        None \<Rightarrow> None
      | Some (t1, q1) \<Rightarrow> if ev_empty B q1 then Some (t1, q1) else event_do B R t1 q1)"

definition em_handle_write_event ::
  "('u, 'l, 'n, 'm, 'q) inbox \<Rightarrow> ('u, 'l, 'n, 'q, 't) em_transport \<Rightarrow> 't \<Rightarrow> 'q \<Rightarrow> (bool \<times> 't \<times> 'q) option" where
  "em_handle_write_event B R t q =
     (case (if \<not> ib_blocked B q then event_do B R t (ib_fetch_more B q) else Some (t, q)) of
        None \<Rightarrow> None
      | Some (t1, q1) \<Rightarrow>
          (case tr_handle_write_event R t1 q1 of
             (True, t2, q2) \<Rightarrow> Some (True, t2, q2)
           | (False, t2, q2) \<Rightarrow>
               if ib_blocked B q2 then Some (False, t2, q2)
               else let (at_end, q3) = at_end_of_message_queue B q2 in Some (\<not> at_end, t2, q3)))"

definition em_handle_read_event :: "('u, 'l, 'n, 'q, 't) em_transport \<Rightarrow> 't \<Rightarrow> bool \<times> 't" where
  "em_handle_read_event R t = tr_handle_read_event R t"

definition em_handle_error :: "('u, 'l, 'n, 'q, 't) em_transport \<Rightarrow> sec \<Rightarrow> 't \<Rightarrow> 't" where
  "em_handle_error R code t = tr_handle_error R code t"

text \<open>The first component of the result tells that \<open>register_reading\<close> was called.\<close>

definition em_init :: "('u, 'l, 'n, 'q, 't) em_transport \<Rightarrow> 't \<Rightarrow> bool \<times> caf_error option \<times> 't" where
  "em_init R t = (True, tr_init R t)"

section \<open>What the inbox promises\<close>

text \<open>
  \<open>evs\<close> and \<open>msgs\<close> are the contents of the nested queues after \<open>fetch_more\<close>, \<open>todo\<close> what was pushed
  and not fetched yet. A nested queue hands out an element if its deficit covers the element's size;
  a deficit of at least the total size covers all elements. \<open>push_back\<close> unblocks the inbox.
\<close>

record ('u, 'l, 'n, 'm, 'q) inbox_view =
  evs :: "'q \<Rightarrow> ('u, 'l, 'n) em_event list"
  msgs :: "'q \<Rightarrow> 'm list"
  todo :: "'q \<Rightarrow> ('u, 'l, 'n, 'm) em_element list"
  ev_deficit :: "'q \<Rightarrow> nat"

definition events_of :: "('u, 'l, 'n, 'm) em_element list \<Rightarrow> ('u, 'l, 'n) em_event list" where
  "events_of xs = concat (map (\<lambda>x. case x of Event e \<Rightarrow> [e] | Message _ \<Rightarrow> []) xs)"

definition messages_of :: "('u, 'l, 'n, 'm) em_element list \<Rightarrow> 'm list" where
  "messages_of xs = concat (map (\<lambda>x. case x of Event _ \<Rightarrow> [] | Message m \<Rightarrow> [m]) xs)"

definition inbox_ok :: "('u, 'l, 'n, 'm, 'q) inbox \<Rightarrow> ('u, 'l, 'n, 'm, 'q) inbox_view \<Rightarrow> bool" where
  "inbox_ok B V \<longleftrightarrow>
     (\<forall>q. evs V (ib_fetch_more B q) = evs V q @ events_of (todo V q) \<and>
          msgs V (ib_fetch_more B q) = msgs V q @ messages_of (todo V q) \<and> todo V (ib_fetch_more B q) = []) \<and>
     (\<forall>q. ev_total_task_size B q = length (evs V q)) \<and>
     (\<forall>n q. evs V (ev_inc_deficit B n q) = evs V q \<and> msgs V (ev_inc_deficit B n q) = msgs V q \<and>
            n \<le> ev_deficit V (ev_inc_deficit B n q)) \<and>
     (\<forall>q r q'. ev_next B q = (r, q') \<longrightarrow> length (evs V q) \<le> ev_deficit V q \<longrightarrow>
        msgs V q' = msgs V q \<and>
        (case evs V q of
           [] \<Rightarrow> r = None \<and> evs V q' = []
         | e # es \<Rightarrow> r = Some e \<and> evs V q' = es \<and> length es \<le> ev_deficit V q')) \<and>
     (\<forall>q. ev_empty B q \<longleftrightarrow> evs V q = []) \<and>
     (\<forall>q. msg_next_task_size B q = 0 \<longleftrightarrow> msgs V q = []) \<and>
     (\<forall>q r q'. msg_next B (msg_inc_deficit B (msg_next_task_size B q) q) = (r, q') \<longrightarrow>
        evs V q' = evs V q \<and> todo V q' = todo V q \<and>
        (case msgs V q of [] \<Rightarrow> r = None \<and> msgs V q' = [] | m # ms \<Rightarrow> r = Some m \<and> msgs V q' = ms)) \<and>
     (\<forall>q b q'. ib_try_block B q = (b, q') \<longrightarrow> evs V q' = evs V q \<and> msgs V q' = msgs V q \<and> todo V q' = todo V q)"

lemma inbox_fetch:
  assumes "inbox_ok B V"
  shows "evs V (ib_fetch_more B q) = evs V q @ events_of (todo V q)"
    "msgs V (ib_fetch_more B q) = msgs V q @ messages_of (todo V q)" "todo V (ib_fetch_more B q) = []"
  using assms unfolding inbox_ok_def by blast+

lemma inbox_inc:
  assumes "inbox_ok B V"
  shows "evs V (ev_inc_deficit B n q) = evs V q" "msgs V (ev_inc_deficit B n q) = msgs V q"
    "n \<le> ev_deficit V (ev_inc_deficit B n q)"
  using assms unfolding inbox_ok_def by blast+

lemma inbox_sizes:
  assumes "inbox_ok B V"
  shows "ev_total_task_size B q = length (evs V q)" "msg_next_task_size B q = 0 \<longleftrightarrow> msgs V q = []"
  using assms unfolding inbox_ok_def by blast+

lemma event_for_drains:
  assumes ok: "inbox_ok B V" and "length (evs V q) \<le> ev_deficit V q"
  shows "\<exists>q'. event_for B R t q = Some (fold (dispatch_event R) (evs V q) t, q') \<and> evs V q' = [] \<and> msgs V q' = msgs V q"
  using assms(2)
proof (induction "evs V q" arbitrary: q t)
  case Nil
  obtain r q1 where n: "ev_next B q = (r, q1)" by fastforce
  have "msgs V q1 = msgs V q \<and> (case evs V q of [] \<Rightarrow> r = None \<and> evs V q1 = []
         | e # es \<Rightarrow> r = Some e \<and> evs V q1 = es \<and> length es \<le> ev_deficit V q1)"
    using ok n Nil.prems unfolding inbox_ok_def by blast
  then show ?case using n Nil.hyps [symmetric] by (subst event_for.simps) simp
next
  case (Cons e es)
  obtain r q1 where n: "ev_next B q = (r, q1)" by fastforce
  have "msgs V q1 = msgs V q \<and> (case evs V q of [] \<Rightarrow> r = None \<and> evs V q1 = []
         | e # es \<Rightarrow> r = Some e \<and> evs V q1 = es \<and> length es \<le> ev_deficit V q1)"
    using ok n Cons.prems unfolding inbox_ok_def by blast
  then have q1: "r = Some e" "es = evs V q1" "length (evs V q1) \<le> ev_deficit V q1" "msgs V q1 = msgs V q"
    using Cons.hyps(2) [symmetric] by simp_all
  from Cons.hyps(1) [OF q1(2,3), of "dispatch_event R e t"] show ?case
    using n q1 Cons.hyps(2) [symmetric] by (subst event_for.simps) simp
qed

lemma event_do_drains:
  assumes ok: "inbox_ok B V"
  shows "\<exists>q'. event_do B R t q = Some (fold (dispatch_event R) (evs V q) t, q') \<and> evs V q' = [] \<and> msgs V q' = msgs V q"
proof -
  let ?q = "ev_inc_deficit B (ev_total_task_size B q) q"
  have q: "evs V ?q = evs V q" "msgs V ?q = msgs V q" "length (evs V ?q) \<le> ev_deficit V ?q"
    using inbox_inc [OF ok, of "ev_total_task_size B q" q] inbox_sizes(1) [OF ok, of q] by simp_all
  obtain q' where f: "event_for B R t ?q = Some (fold (dispatch_event R) (evs V ?q) t, q')" "evs V q' = []"
      "msgs V q' = msgs V ?q"
    using event_for_drains [OF ok q(3), of R t] by blast
  have "ev_empty B q'" using ok f(2) unfolding inbox_ok_def by blast
  then show ?thesis using f q by (subst event_do.simps) simp
qed

text \<open>The messages that wait in the inbox; \<open>next_message\<close> takes the first of them.\<close>

definition waiting :: "('u, 'l, 'n, 'm, 'q) inbox_view \<Rightarrow> 'q \<Rightarrow> 'm list" where
  "waiting V q = msgs V q @ messages_of (todo V q)"

lemma next_message_takes_first:
  assumes ok: "inbox_ok B V" and n: "next_message B q = (r, q')"
  shows "if ib_blocked B q then r = None \<and> q' = q
    else waiting V q = (case r of None \<Rightarrow> [] | Some m \<Rightarrow> [m]) @ waiting V q'"
proof (cases "ib_blocked B q")
  case True
  then show ?thesis using n by (simp add: next_message_def)
next
  case False
  let ?q = "ib_fetch_more B q"
  have q: "msgs V ?q = waiting V q" "todo V ?q = []" using inbox_fetch [OF ok] by (simp_all add: waiting_def)
  have z: "msg_next_task_size B ?q = 0 \<longleftrightarrow> msgs V ?q = []" using inbox_sizes(2) [OF ok] .
  show ?thesis
  proof (cases "msgs V ?q")
    case Nil
    then show ?thesis using n False z q by (simp add: next_message_def waiting_def messages_of_def)
  next
    case (Cons m ms)
    obtain r2 q2 where m: "msg_next B (msg_inc_deficit B (msg_next_task_size B ?q) ?q) = (r2, q2)" by fastforce
    have "todo V q2 = todo V ?q \<and>
        (case msgs V ?q of [] \<Rightarrow> r2 = None \<and> msgs V q2 = [] | m # ms \<Rightarrow> r2 = Some m \<and> msgs V q2 = ms)"
      using ok m unfolding inbox_ok_def by blast
    then have q2: "r2 = Some m" "msgs V q2 = ms" "todo V q2 = []" using Cons q by simp_all
    have "msgs V q' = ms" "todo V q' = []"
    proof -
      obtain b q3 where t: "ib_try_block B q2 = (b, q3)" by fastforce
      have "msgs V q3 = msgs V q2 \<and> todo V q3 = todo V q2" using ok t unfolding inbox_ok_def by blast
      then show "msgs V q' = ms" "todo V q' = []"
        using n False z Cons m t q2 by (auto simp: next_message_def split: if_splits)
    qed
    moreover have "r = Some m" using n False z Cons m q2 by (auto simp: next_message_def)
    ultimately show ?thesis using False q Cons by (simp add: waiting_def messages_of_def)
  qed
qed

section \<open>Properties\<close>

text \<open>
  An inbox for witnesses: the contents of both queues, what was pushed, the deficit of the events
  and whether it is blocked. Message sizes are positive.
\<close>

type_synonym ('u, 'l, 'n, 'm) list_inbox =
  "('u, 'l, 'n) em_event list \<times> 'm list \<times> ('u, 'l, 'n, 'm) em_element list \<times> nat \<times> bool"

definition list_inbox :: "('u, 'l, 'n, 'm, ('u, 'l, 'n, 'm) list_inbox) inbox" where
  "list_inbox =
     \<lparr>ib_push_back = (\<lambda>x (e, m, w, d, b). (if b then Inbox_unblocked_reader else Inbox_success, (e, m, w @ [x], d, False))),
      ib_blocked = (\<lambda>(e, m, w, d, b). b),
      ib_try_block = (\<lambda>(e, m, w, d, b). if w = [] then (True, (e, m, w, d, True)) else (False, (e, m, w, d, b))),
      ib_fetch_more = (\<lambda>(e, m, w, d, b). (e @ events_of w, m @ messages_of w, [], d, b)),
      ib_empty = (\<lambda>(e, m, w, d, b). e = [] \<and> m = [] \<and> w = []),
      ev_total_task_size = (\<lambda>(e, m, w, d, b). length e),
      ev_inc_deficit = (\<lambda>n (e, m, w, d, b). (e, m, w, d + n, b)),
      ev_next = (\<lambda>(e, m, w, d, b). case e of
           [] \<Rightarrow> (None, (e, m, w, 0, b))
         | x # xs \<Rightarrow> if d = 0 then (None, (e, m, w, d, b)) else (Some x, (xs, m, w, d - 1, b))),
      ev_empty = (\<lambda>(e, m, w, d, b). e = []),
      msg_next_task_size = (\<lambda>(e, m, w, d, b). if m = [] then 0 else 1),
      msg_inc_deficit = (\<lambda>n q. q),
      msg_next = (\<lambda>(e, m, w, d, b). case m of [] \<Rightarrow> (None, (e, m, w, d, b)) | x # xs \<Rightarrow> (Some x, (e, xs, w, d, b)))\<rparr>"

definition list_inbox_view :: "('u, 'l, 'n, 'm, ('u, 'l, 'n, 'm) list_inbox) inbox_view" where
  "list_inbox_view =
     \<lparr>evs = (\<lambda>(e, m, w, d, b). e), msgs = (\<lambda>(e, m, w, d, b). m), todo = (\<lambda>(e, m, w, d, b). w),
      ev_deficit = (\<lambda>(e, m, w, d, b). d)\<rparr>"

lemma list_inbox_ok: "inbox_ok list_inbox list_inbox_view"
  unfolding inbox_ok_def list_inbox_def list_inbox_view_def
  by (auto split: list.splits if_splits)

text \<open>
  C26: The write event of an endpoint manager hands all events that wait to the transport, exactly once
  and in order, before the transport may fetch messages; it loses no message.
\<close>

theorem write_event_handles_events_first:
  assumes "inbox_ok B V" and "\<not> ib_blocked B q"
  shows "\<exists>q1. evs V q1 = [] \<and> msgs V q1 = waiting V q \<and>
    em_handle_write_event B R t q =
      (case tr_handle_write_event R (fold (dispatch_event R) (evs V q @ events_of (todo V q)) t) q1 of
         (True, t2, q2) \<Rightarrow> Some (True, t2, q2)
       | (False, t2, q2) \<Rightarrow>
           if ib_blocked B q2 then Some (False, t2, q2)
           else let (at_end, q3) = at_end_of_message_queue B q2 in Some (\<not> at_end, t2, q3))"
proof -
  let ?q = "ib_fetch_more B q"
  have q: "evs V ?q = evs V q @ events_of (todo V q)" "msgs V ?q = waiting V q"
    using inbox_fetch [OF assms(1)] by (simp_all add: waiting_def)
  obtain q1 where "event_do B R t ?q = Some (fold (dispatch_event R) (evs V ?q) t, q1)" "evs V q1 = []"
      "msgs V q1 = msgs V ?q"
    using event_do_drains [OF assms(1), of R t ?q] by blast
  then show ?thesis using assms(2) q by (intro exI [of _ q1]) (simp add: em_handle_write_event_def)
qed

definition log_transport :: "(nat, nat, nat, 'q, u64 list) em_transport" where
  "log_transport =
     \<lparr>tr_init = (\<lambda>t. (None, t)), tr_handle_read_event = (\<lambda>t. (True, t)),
      tr_handle_write_event = (\<lambda>t q. (False, t @ [0], q)), tr_resolve = (\<lambda>u l t. t @ [of_nat u]),
      tr_new_proxy = (\<lambda>n i t. t @ [i]), tr_local_actor_down = (\<lambda>n i e t. t @ [i]),
      tr_timeout = (\<lambda>s i t. t @ [i]), tr_handle_error = (\<lambda>c t. t)\<rparr>"

theorem write_event_handles_events_first_witness:
  "\<exists>b q'. em_handle_write_event list_inbox log_transport []
     ([New_proxy 1 7], [], [Event (Timeout ''x'' 8), Message (1 :: nat)], 0, False) = Some (b, [7, 8, 0], q')"
proof -
  let ?q = "([New_proxy 1 7], [], [Event (Timeout ''x'' 8), Message (1 :: nat)], 0, False)"
  have "\<not> ib_blocked list_inbox ?q" by (simp add: list_inbox_def)
  from write_event_handles_events_first [OF list_inbox_ok this, of log_transport "[]"] show ?thesis
    by (auto simp: list_inbox_view_def log_transport_def events_of_def split: prod.splits)
qed

text \<open>
  C27: An endpoint manager with a datagram transport: the write event handler of the transport, fed by
  the manager's inbox, always returns, and packets wait to be sent if it asks for another event.
\<close>

theorem datagram_write_event_returns:
  assumes "inbox_ok B V"
  shows "\<exists>b t' q'. dt_handle_write_event P A T noid (next_message B) t q = Some (b, t', q') \<and>
    (b \<longrightarrow> packet_queue (dt_out t') \<noteq> [])"
proof (rule dt_handle_write_event_returns)
  fix q msg q'
  assume n: "next_message B q = (Some msg, q')"
  show "length (waiting V q') < length (waiting V q)"
    using next_message_takes_first [OF assms n] by (auto split: if_splits)
qed

theorem datagram_write_event_returns_witness:
  "\<exists>b t' q'. dt_handle_write_event (sample_posix True) two_addresses echo_app \<lparr>ep_address = False, ep_port = 0\<rparr>
     (next_message list_inbox) sample_dgram
     ([] :: (nat, nat, nat) em_event list, [([5], Some 1)], [Message ([6], None)], 0, False) = Some (b, t', q') \<and>
     (b \<longrightarrow> packet_queue (dt_out t') \<noteq> [])"
  by (rule datagram_write_event_returns [OF list_inbox_ok])

end
