(* ===== verification/Datagram_Endpoint.thy ===== *)
theory Datagram_Endpoint
  imports Endpoint_Manager
begin

text \<open>
  The callbacks of \<open>transport_base.hpp\<close> that the endpoint manager calls, and an endpoint manager on top of
  a datagram transport: what the manager relies on is an interface, and the datagram transport offers it.
\<close>

section \<open>Callbacks (transport\_base.hpp)\<close>

type_synonym ('a, 'f, 'x, 'm, 'l) dgram_app = "('a, 'f, 'x ip_endpoint dgram_out, 'm, 'l) transport_app"

text \<open>
  The dispatcher has the overload of \<open>resolve\<close> for a locator: \<open>node_of\<close> is \<open>make_node_id\<close>, \<open>path_of\<close> the
  path. The second result are errors for listeners.
\<close>

definition dt_resolve ::
  "('a, 'f, 'x, 'm, 'l) dgram_app \<Rightarrow> ('u \<Rightarrow> 'n) \<Rightarrow> ('u \<Rightarrow> string) \<Rightarrow> 'u \<Rightarrow> 'l \<Rightarrow> ('a, 'x, 'n, 'f, 'k) datagram_transport \<Rightarrow>
   ('a, 'x, 'n, 'f, 'k) datagram_transport \<times> ('l \<times> caf_error) list" where
  "dt_resolve T node_of path_of locator listener t =
     (let (d, o1, errs) = disp_resolve T (node_of locator) (path_of locator) listener (dt_next_layer t) (dt_out t)
      in (t\<lparr>dt_next_layer := d, dt_out := o1\<rparr>, errs))"

definition dt_new_proxy ::
  "('a, 'f, 'x, 'm, 'l) dgram_app \<Rightarrow> 'n \<Rightarrow> u64 \<Rightarrow> ('a, 'x, 'n, 'f, 'k) datagram_transport \<Rightarrow> ('a, 'x, 'n, 'f, 'k) datagram_transport" where
  "dt_new_proxy T peer i t =
     (let (d, o1) = disp_new_proxy T peer i (dt_next_layer t) (dt_out t) in t\<lparr>dt_next_layer := d, dt_out := o1\<rparr>)"

definition dt_local_actor_down ::
  "('a, 'f, 'x, 'm, 'l) dgram_app \<Rightarrow> 'n \<Rightarrow> u64 \<Rightarrow> caf_error \<Rightarrow> ('a, 'x, 'n, 'f, 'k) datagram_transport \<Rightarrow>
   ('a, 'x, 'n, 'f, 'k) datagram_transport" where
  "dt_local_actor_down T peer i err t =
     (let (d, o1) = disp_local_actor_down T peer i err (dt_next_layer t) (dt_out t) in t\<lparr>dt_next_layer := d, dt_out := o1\<rparr>)"

text \<open>\<open>None\<close> is the exception for an unknown ID.\<close>

definition dt_timeout ::
  "('a, 'f, 'x, 'm, 'l) dgram_app \<Rightarrow> string \<Rightarrow> u64 \<Rightarrow> ('a, 'x, 'n, 'f, 'k) datagram_transport \<Rightarrow>
   ('a, 'x, 'n, 'f, 'k) datagram_transport option" where
  "dt_timeout T tag i t =
     map_option (\<lambda>(d, o1). t\<lparr>dt_next_layer := d, dt_out := o1\<rparr>) (disp_timeout T tag i (dt_next_layer t) (dt_out t))"

definition dt_set_timeout ::
  "u64 \<Rightarrow> 'x ip_endpoint \<Rightarrow> ('a, 'x, 'n, 'f, 'k) datagram_transport \<Rightarrow> ('a, 'x, 'n, 'f, 'k) datagram_transport option" where
  "dt_set_timeout timeout_id i t =
     map_option (\<lambda>d. t\<lparr>dt_next_layer := d\<rparr>) (disp_set_timeout timeout_id i (dt_next_layer t))"

section \<open>The manager on the transport\<close>

text \<open>
  The state of the transport with the errors it has sent to listeners; \<open>None\<close> once an exception has been
  thrown or a handler does not return.
\<close>

type_synonym ('a, 'x, 'n, 'f, 'k, 'l) dgram_state = "(('a, 'x, 'n, 'f, 'k) datagram_transport \<times> ('l \<times> caf_error) list) option"

definition on_transport ::
  "(('a, 'x, 'n, 'f, 'k) datagram_transport \<Rightarrow> ('a, 'x, 'n, 'f, 'k) datagram_transport option) \<Rightarrow>
   ('a, 'x, 'n, 'f, 'k, 'l) dgram_state \<Rightarrow> ('a, 'x, 'n, 'f, 'k, 'l) dgram_state" where
  "on_transport f s = (case s of None \<Rightarrow> None | Some (t, sent) \<Rightarrow> map_option (\<lambda>t. (t, sent)) (f t))"

definition dgram_transport_ops ::
  "'k posix \<Rightarrow> 'x ip_ops \<Rightarrow> ('a, 'f, 'x, 'm, 'l) dgram_app \<Rightarrow> 'x ip_endpoint \<Rightarrow> 'n \<Rightarrow> ('u \<Rightarrow> 'n) \<Rightarrow> ('u \<Rightarrow> string) \<Rightarrow>
   nat \<times> nat \<times> nat \<Rightarrow> ('u, 'l, 'n, 'm \<times> 'n option, 'q) inbox \<Rightarrow>
   ('u, 'l, 'n, 'q, ('a, 'x, 'n, 'f, 'k, 'l) dgram_state) em_transport" where
  "dgram_transport_ops P A T noid nonode node_of path_of settings B =
     \<lparr>tr_init = (\<lambda>s. (None, on_transport (\<lambda>t. Some (dt_init (fst settings) (fst (snd settings)) (snd (snd settings)) t)) s)),
      tr_handle_read_event = (\<lambda>s. case s of
          None \<Rightarrow> (False, None)
        | Some (t, sent) \<Rightarrow> (let (r, t') = dt_handle_read_event P A T nonode t in (r, Some (t', sent)))),
      tr_handle_write_event = (\<lambda>s q. case s of
          None \<Rightarrow> (False, None, q)
        | Some (t, sent) \<Rightarrow>
            (case dt_handle_write_event P A T noid (next_message B) t q of
               None \<Rightarrow> (False, None, q)
             | Some (r, t', q') \<Rightarrow> (r, Some (t', sent), q'))),
      tr_resolve = (\<lambda>locator listener s. map_option (\<lambda>(t, sent).
          let (t', errs) = dt_resolve T node_of path_of locator listener t in (t', sent @ errs)) s),
      tr_new_proxy = (\<lambda>peer i. on_transport (\<lambda>t. Some (dt_new_proxy T peer i t))),
      tr_local_actor_down = (\<lambda>peer i err. on_transport (\<lambda>t. Some (dt_local_actor_down T peer i err t))),
      tr_timeout = (\<lambda>tag i. on_transport (dt_timeout T tag i)),
      tr_handle_error = (\<lambda>code. on_transport (\<lambda>t. Some (dt_next_handle_error T code t)))\<rparr>"

section \<open>What the callbacks keep\<close>

text \<open>All operations of the application use its writer only.\<close>

definition app_ops_use_writer :: "('a, 'f, 'i dgram_out, 'm, 'l) transport_app \<Rightarrow> bool" where
  "app_ops_use_writer T \<longleftrightarrow>
     app_uses_writer T \<and> (\<forall>path l. uses_writer (ap_resolve T path l)) \<and> (\<forall>i. uses_writer (ap_new_proxy T i)) \<and>
     (\<forall>i err. uses_writer (ap_local_actor_down T i err)) \<and> (\<forall>tag i. uses_writer (ap_timeout T tag i))"

lemma worker_call_out_ok:
  assumes "disp_inv d" and "w < length (workers d)" and "uses_writer f" and "out_ok o1"
  shows "disp_inv (fst (snd (worker_call f w d o1)))" and "out_ok (snd (snd (worker_call f w d o1)))"
proof -
  obtain r d' o2 where c: "worker_call f w d o1 = (r, d', o2)" by (metis surj_pair)
  show "disp_inv (fst (snd (worker_call f w d o1)))" "out_ok (snd (snd (worker_call f w d o1)))"
    using worker_call_keeps [where I = out_ok, OF assms(1-3) out_ok_closed assms(4) c] c by simp_all
qed

lemma disp_inv_by_timeout:
  "disp_inv d \<Longrightarrow> map_of (workers_by_timeout_id d) i = Some w \<Longrightarrow> w < length (workers d)"
  by (auto simp: disp_inv_def dest!: map_of_SomeD)

lemma disp_inv_filter_timeouts:
  "disp_inv d \<Longrightarrow> disp_inv (d\<lparr>workers_by_timeout_id := filter p (workers_by_timeout_id d)\<rparr>)"
  by (auto simp: disp_inv_def)

lemma disp_callbacks_keep:
  assumes "disp_inv d" and "out_ok o1" and "app_ops_use_writer T"
  shows "case disp_resolve T nid path l d o1 of (d', o2, _) \<Rightarrow> disp_inv d' \<and> out_ok o2"
    and "case disp_new_proxy T nid i d o1 of (d', o2) \<Rightarrow> disp_inv d' \<and> out_ok o2"
    and "case disp_local_actor_down T nid i err d o1 of (d', o2) \<Rightarrow> disp_inv d' \<and> out_ok o2"
    and "case disp_timeout T tag i d o1 of None \<Rightarrow> True | Some (d', o2) \<Rightarrow> disp_inv d' \<and> out_ok o2"
  using assms
  by (auto simp: disp_resolve_def disp_new_proxy_def disp_local_actor_down_def disp_timeout_def app_ops_use_writer_def
      case_prod_unfold Let_def split: option.split
      intro!: worker_call_out_ok disp_inv_filter_timeouts intro: disp_inv_by_node disp_inv_by_timeout)

lemma disp_write_message_keeps:
  assumes "disp_inv d" and "out_ok o1" and "app_uses_writer T"
  shows "case disp_write_message T noid msg receiver d o1 of (d', o2) \<Rightarrow> disp_inv d' \<and> out_ok o2"
proof (cases receiver)
  case (Some nid)
  show ?thesis
  proof (cases "find_worker (workers_by_node d) nid")
    case None
    obtain r d1 o' where a: "add_new_worker T nid noid d o1 = (r, d1, o')" by (metis surj_pair)
    have k: "disp_inv d1" "out_ok o'" "\<forall>w. r = Inr w \<longrightarrow> w < length (workers d1)"
      using add_new_worker_keeps [where I = out_ok, OF assms(1) _ out_ok_closed assms(2) a] assms(3)
      by (simp_all add: app_uses_writer_def)
    then show ?thesis
      using Some None a assms(3)
      by (auto simp: disp_write_message_def app_uses_writer_def case_prod_unfold split: sum.split intro!: worker_call_out_ok)
  next
    case (Some w)
    then show ?thesis
      using \<open>receiver = Some nid\<close> assms disp_inv_by_node [OF assms(1) Some]
      by (auto simp: disp_write_message_def app_uses_writer_def case_prod_unfold intro!: worker_call_out_ok)
  qed
qed (use assms in \<open>simp add: disp_write_message_def\<close>)

lemma dt_callbacks_inv:
  assumes "dt_inv t" and "app_ops_use_writer T"
  shows "dt_inv (fst (dt_resolve T node_of path_of locator l t))" and "dt_inv (dt_new_proxy T peer i t)"
    and "dt_inv (dt_local_actor_down T peer i err t)"
    and "case dt_timeout T tag i t of None \<Rightarrow> True | Some t' \<Rightarrow> dt_inv t'"
proof -
  have t: "disp_inv (dt_next_layer t)" "out_ok (dt_out t)" using assms(1) by (simp_all add: dt_inv_def)
  note keep = disp_callbacks_keep [OF t assms(2)]
  show "dt_inv (fst (dt_resolve T node_of path_of locator l t))"
    using keep(1) [of "node_of locator" "path_of locator" l] by (simp add: dt_inv_def dt_resolve_def case_prod_unfold Let_def)
  show "dt_inv (dt_new_proxy T peer i t)"
    using keep(2) [of peer i] by (simp add: dt_inv_def dt_new_proxy_def case_prod_unfold Let_def)
  show "dt_inv (dt_local_actor_down T peer i err t)"
    using keep(3) [of peer i err] by (simp add: dt_inv_def dt_local_actor_down_def case_prod_unfold Let_def)
  show "case dt_timeout T tag i t of None \<Rightarrow> True | Some t' \<Rightarrow> dt_inv t'"
    using keep(4) [of tag i] by (auto simp: dt_inv_def dt_timeout_def split: option.splits prod.splits)
qed

lemma dt_next_handle_error_inv: "dt_inv t \<Longrightarrow> dt_inv (dt_next_handle_error T code t)"
  by (simp add: dt_inv_def dt_next_handle_error_def disp_handle_error_inv)

lemma dt_write_loop_inv:
  assumes "dt_write_loop P A T ps t = (e, t')" and "packet_queue (dt_out t) = ps" and "dt_inv t"
  shows "dt_inv t'"
proof -
  have "disp_inv (dt_next_layer t')" using assms
  proof (induction P A T ps t arbitrary: e t' rule: dt_write_loop.induct)
    case (2 P A T p ps t)
    obtain r k where w: "udp_write P A (dt_handle t) (pk_bytes p) (pk_id p) (dt_kernel t) = (r, k)" by fastforce
    show ?case
    proof (cases r)
      case (Inr n)
      then show ?thesis
        using 2(1) [OF w [symmetric] Inr, of e t'] 2(2-) w recycle_ok [of "dt_out t"] by (simp add: dt_inv_def)
    qed (use 2(2-) w disp_handle_error_inv in \<open>auto simp: dt_inv_def dt_next_handle_error_def split: if_splits\<close>)
  qed (simp add: dt_inv_def)
  then show ?thesis using dt_write_loop_out_ok [OF assms(1,2)] assms(3) by (simp add: dt_inv_def)
qed

lemma dt_next_write_message_inv:
  "dt_inv t \<Longrightarrow> app_uses_writer T \<Longrightarrow> dt_inv (dt_next_write_message T noid msg t)"
  using disp_write_message_keeps [of "dt_next_layer t" "dt_out t" T noid "fst msg" "snd msg"]
  by (simp add: dt_inv_def dt_next_write_message_def case_prod_unfold Let_def)

lemma dt_handle_write_event_inv:
  assumes "app_uses_writer T" and "dt_inv t" and "dt_handle_write_event P A T noid nm t q = Some r"
  shows "dt_inv (fst (snd r))"
proof -
  let ?P = "\<lambda>((((((P, A), T), noid), nm), t), q) r. app_uses_writer T \<longrightarrow> dt_inv t \<longrightarrow> dt_inv (fst (snd r))"
  have "?P ((((((P, A), T), noid), nm), t), q) r"
  proof (rule dt_handle_write_event.raw_induct [where Pa = ?P, OF _ assms(3)], goal_cases)
    case (1 rec P A T noid nm t q r)
    obtain e t1 where w: "dt_write_some P A T t = (e, t1)" by fastforce
    obtain m q1 where m: "nm q = (m, q1)" by fastforce
    have "dt_inv t1" if "dt_inv t" using dt_write_loop_inv [OF w [unfolded dt_write_some_def] refl that] .
    then show ?case
      using 1(2) 1(1) [of P A T noid nm _ q1 r] w m dt_next_write_message_inv [of t1 T noid]
      by (cases e; cases m) auto
  qed
  then show ?thesis using assms(1,2) by simp
qed

section \<open>What the endpoint manager relies on\<close>

locale em_transport_inv =
  fixes R :: "('u, 'l, 'n, 'q, 't) em_transport" and inv :: "'t \<Rightarrow> bool"
  assumes resolve_inv: "inv t \<Longrightarrow> inv (tr_resolve R locator listener t)"
    and new_proxy_inv: "inv t \<Longrightarrow> inv (tr_new_proxy R peer i t)"
    and local_actor_down_inv: "inv t \<Longrightarrow> inv (tr_local_actor_down R peer i err t)"
    and timeout_inv: "inv t \<Longrightarrow> inv (tr_timeout R tag i t)"
    and handle_error_inv: "inv t \<Longrightarrow> inv (tr_handle_error R code t)"
    and read_event_inv: "inv t \<Longrightarrow> inv (snd (tr_handle_read_event R t))"
    and write_event_inv: "inv t \<Longrightarrow> inv (fst (snd (tr_handle_write_event R t q)))"
begin

lemma dispatch_event_inv: "inv t \<Longrightarrow> inv (dispatch_event R e t)"
  by (cases e) (simp_all add: resolve_inv new_proxy_inv local_actor_down_inv timeout_inv)

lemma event_for_inv:
  assumes "event_for B R t q = Some r" and "inv t"
  shows "inv (fst r)"
proof -
  have "R = R \<longrightarrow> inv t \<longrightarrow> inv (fst r)"
  proof (rule event_for.raw_induct [where P = "\<lambda>B R' t q r. R' = R \<longrightarrow> inv t \<longrightarrow> inv (fst r)", OF _ assms(1)], goal_cases)
    case (1 rec B R' t q r)
    obtain e q1 where e: "ev_next B q = (e, q1)" by fastforce
    show ?case
    proof (cases e)
      case (Some ev)
      then have "rec B R' (dispatch_event R' ev t) q1 = Some r" using 1(2) e by simp
      from 1(1) [OF this] show ?thesis using dispatch_event_inv by blast
    qed (use 1(2) e in auto)
  qed
  then show ?thesis using assms(2) by blast
qed

lemma event_do_inv:
  assumes "event_do B R t q = Some r" and "inv t"
  shows "inv (fst r)"
proof -
  have "R = R \<longrightarrow> inv t \<longrightarrow> inv (fst r)"
  proof (rule event_do.raw_induct [where P = "\<lambda>B R' t q r. R' = R \<longrightarrow> inv t \<longrightarrow> inv (fst r)", OF _ assms(1)], goal_cases)
    case (1 rec B R' t q r)
    let ?q = "ev_inc_deficit B (ev_total_task_size B q) q"
    obtain t1 q1 where f: "event_for B R' t ?q = Some (t1, q1)" using 1(2) by (auto split: option.splits)
    have i: "inv t1" if "R' = R" "inv t" using event_for_inv [of B t ?q "(t1, q1)"] f that by simp
    show ?case
    proof (cases "ev_empty B q1")
      case True
      then show ?thesis using 1(2) f i by auto
    next
      case False
      then have "rec B R' t1 q1 = Some r" using 1(2) f by simp
      from 1(1) [OF this] show ?thesis using i by blast
    qed
  qed
  then show ?thesis using assms(2) by blast
qed

lemma em_write_event_inv:
  assumes "em_handle_write_event B R t q = Some r" and "inv t"
  shows "inv (fst (snd r))"
proof -
  obtain t1 q1 where 1: "(if \<not> ib_blocked B q then event_do B R t (ib_fetch_more B q) else Some (t, q)) = Some (t1, q1)"
    using assms(1) by (cases "if \<not> ib_blocked B q then event_do B R t (ib_fetch_more B q) else Some (t, q)")
      (auto simp: em_handle_write_event_def)
  then have "inv t1" using event_do_inv [of B t "ib_fetch_more B q" "(t1, q1)"] assms(2) by (auto split: if_splits)
  moreover obtain b t2 q2 where 2: "tr_handle_write_event R t1 q1 = (b, t2, q2)" by (metis surj_pair)
  ultimately have "inv t2" using write_event_inv [of t1 q1] by simp
  moreover have "fst (snd r) = t2"
    using assms(1) unfolding em_handle_write_event_def 1 option.case prod.case 2
    by (cases b) (auto simp: Let_def split: if_splits prod.splits)
  ultimately show ?thesis by simp
qed

end

text \<open>The datagram transport offers the interface.\<close>

definition dgram_inv :: "('a, 'x, 'n, 'f, 'k, 'l) dgram_state \<Rightarrow> bool" where
  "dgram_inv s \<longleftrightarrow> (case s of None \<Rightarrow> True | Some (t, sent) \<Rightarrow> dt_inv t)"

lemma on_transport_inv:
  "dgram_inv s \<Longrightarrow> (\<And>t. dt_inv t \<Longrightarrow> case f t of None \<Rightarrow> True | Some t' \<Rightarrow> dt_inv t') \<Longrightarrow> dgram_inv (on_transport f s)"
  by (fastforce simp: dgram_inv_def on_transport_def split: option.splits)

lemma dgram_inv_simps [simp]: "dgram_inv None" "dgram_inv (Some (t, sent)) = dt_inv t"
  by (simp_all add: dgram_inv_def)

lemma dgram_events_inv:
  assumes "app_ops_use_writer T" and "dt_inv t"
  shows "dt_inv (snd (dt_handle_read_event P A T nonode t))"
    and "dt_handle_write_event P A T noid nm t q = Some r \<Longrightarrow> dt_inv (fst (snd r))"
proof -
  have T: "app_uses_writer T" using assms(1) by (simp add: app_ops_use_writer_def)
  show "dt_inv (snd (dt_handle_read_event P A T nonode t))"
    using dt_read_loop_inv [OF T assms(2), of P A nonode "dt_max_consecutive_reads t"]
    by (cases "dt_handle_read_event P A T nonode t") (simp add: dt_handle_read_event_def)
  show "dt_handle_write_event P A T noid nm t q = Some r \<Longrightarrow> dt_inv (fst (snd r))"
    by (rule dt_handle_write_event_inv [OF T assms(2)])
qed

interpretation dgram: em_transport_inv "dgram_transport_ops P A T noid nonode node_of path_of settings B"
  "\<lambda>s. app_ops_use_writer T \<longrightarrow> dgram_inv s" for P A T noid nonode node_of path_of settings B
proof (unfold_locales, goal_cases)
  case (1 s u l)
  then show ?case
    using dt_callbacks_inv(1) by (cases s) (auto simp: dgram_transport_ops_def case_prod_unfold Let_def)
next
  case (2 s peer i)
  then show ?case using dt_callbacks_inv(2) by (auto simp: dgram_transport_ops_def intro!: on_transport_inv)
next
  case (3 s peer i err)
  then show ?case using dt_callbacks_inv(3) by (auto simp: dgram_transport_ops_def intro!: on_transport_inv)
next
  case (4 s tag i)
  then show ?case using dt_callbacks_inv(4) by (auto simp: dgram_transport_ops_def intro!: on_transport_inv)
next
  case (5 s code)
  then show ?case using dt_next_handle_error_inv by (auto simp: dgram_transport_ops_def intro!: on_transport_inv)
next
  case (6 s)
  then show ?case
    using dgram_events_inv(1) by (cases s) (auto simp: dgram_transport_ops_def case_prod_unfold Let_def)
next
  case (7 s q)
  then show ?case
    using dgram_events_inv(2) by (cases s) (fastforce simp: dgram_transport_ops_def split: option.split)+
qed

section \<open>Properties\<close>

text \<open>The handlers of the manager in the order in which the multiplexer calls them.\<close>

datatype em_call = Read_event | Write_event | Error_event sec

fun em_run ::
  "('u, 'l, 'n, 'm, 'q) inbox \<Rightarrow> ('u, 'l, 'n, 'q, 't) em_transport \<Rightarrow> em_call list \<Rightarrow> 't \<Rightarrow> 'q \<Rightarrow> ('t \<times> 'q) option" where
  "em_run B R [] t q = Some (t, q)"
| "em_run B R (Read_event # cs) t q = em_run B R cs (snd (em_handle_read_event R t)) q"
| "em_run B R (Error_event code # cs) t q = em_run B R cs (em_handle_error R code t) q"
| "em_run B R (Write_event # cs) t q =
     (case em_handle_write_event B R t q of None \<Rightarrow> None | Some (_, t', q') \<Rightarrow> em_run B R cs t' q')"

context em_transport_inv
begin

lemma em_run_inv: "em_run B R cs t q = Some (t', q') \<Longrightarrow> inv t \<Longrightarrow> inv t'"
proof (induction cs arbitrary: t q)
  case (Cons c cs)
  show ?case
  proof (cases c)
    case Write_event
    then obtain b t1 q1 where w: "em_handle_write_event B R t q = Some (b, t1, q1)" "em_run B R cs t1 q1 = Some (t', q')"
      using Cons.prems(1) by (auto split: option.splits)
    then show ?thesis using Cons.IH em_write_event_inv [OF w(1) Cons.prems(2)] by simp
  qed (use Cons read_event_inv handle_error_inv in \<open>simp_all add: em_handle_read_event_def em_handle_error_def\<close>)
qed simp

end

text \<open>A write event returns without an exception if no timeout waits in the queue.\<close>

lemma dispatch_keeps_running:
  assumes "\<not> (\<exists>tag i. e = Timeout tag i)"
  shows "\<exists>t' sent'. dispatch_event (dgram_transport_ops P A T noid nonode node_of path_of settings B) e (Some (t, sent)) = Some (t', sent')"
  using assms by (cases e) (simp_all add: dgram_transport_ops_def on_transport_def case_prod_unfold Let_def)

lemma dispatch_all_keeps_running:
  assumes "list_all (\<lambda>e. \<not> (\<exists>tag i. e = Timeout tag i)) es"
  shows "\<exists>t' sent'. fold (dispatch_event (dgram_transport_ops P A T noid nonode node_of path_of settings B)) es (Some (t, sent)) = Some (t', sent')"
  using assms
proof (induction es arbitrary: t sent)
  case (Cons e es)
  then show ?case using dispatch_keeps_running [of e P A T noid nonode node_of path_of settings B t sent] by auto
qed simp

lemma dgram_write_returns:
  assumes "inbox_ok B V" and "list_all (\<lambda>e. \<not> (\<exists>tag i. e = Timeout tag i)) (evs V q @ events_of (todo V q))"
  shows "\<exists>b t' sent' q'. em_handle_write_event B (dgram_transport_ops P A T noid nonode node_of path_of settings B) (Some (t, sent)) q =
    Some (b, Some (t', sent'), q')"
proof -
  let ?R = "dgram_transport_ops P A T noid nonode node_of path_of settings B"
  have wr: "\<exists>b t' sent' q'. tr_handle_write_event ?R (Some (t, sent)) q = (b, Some (t', sent'), q')" for t sent q
  proof -
    have "\<exists>b t' q'. dt_handle_write_event P A T noid (next_message B) t q = Some (b, t', q') \<and> (b \<longrightarrow> packet_queue (dt_out t') \<noteq> [])"
    proof (rule dt_handle_write_event_returns)
      fix q msg q'
      assume "next_message B q = (Some msg, q')"
      then show "length (waiting V q') < length (waiting V q)"
        using next_message_takes_first [OF assms(1)] by (fastforce split: if_splits)
    qed
    then show ?thesis by (auto simp: dgram_transport_ops_def)
  qed
  have "\<exists>t1 sent1 q1. (if \<not> ib_blocked B q then event_do B ?R (Some (t, sent)) (ib_fetch_more B q) else Some (Some (t, sent), q)) = Some (Some (t1, sent1), q1)"
    using event_do_drains [OF assms(1), of ?R "Some (t, sent)" "ib_fetch_more B q"] inbox_fetch [OF assms(1), of q]
      dispatch_all_keeps_running [OF assms(2), of P A T noid nonode node_of path_of settings B t sent] by (auto simp del: fold_append)
  then obtain t1 sent1 q1 where
    e: "(if \<not> ib_blocked B q then event_do B ?R (Some (t, sent)) (ib_fetch_more B q) else Some (Some (t, sent), q)) = Some (Some (t1, sent1), q1)" by blast
  obtain b t2 sent2 q2 where w: "tr_handle_write_event ?R (Some (t1, sent1)) q1 = (b, Some (t2, sent2), q2)" using wr by blast
  show ?thesis
    unfolding em_handle_write_event_def e option.case prod.case w by (cases b) (auto simp: Let_def split: prod.split)
qed

text \<open>
  C25: An endpoint manager with a datagram transport: whatever sequence of read, write and error events the
  multiplexer reports, with whatever requests and messages in the queue of the manager, the dictionaries of
  the transport stay consistent, its buffer caches hold cleared buffers only and stay within their bounds,
  and a transport with waiting packets is registered for writing.
\<close>

theorem datagram_endpoint_keeps_transport:
  assumes "app_ops_use_writer T" and "dt_inv t"
    and "em_run B (dgram_transport_ops P A T noid nonode node_of path_of settings B) cs (Some (t, sent)) q = Some (Some (t', sent'), q')"
  shows "disp_inv (dt_next_layer t') \<and> out_ok (dt_out t')"
proof -
  have "dgram_inv (Some (t', sent'))"
    using dgram.em_run_inv [OF assms(3)] assms(1,2) by simp
  then show ?thesis by (simp add: dt_inv_def)
qed

theorem datagram_endpoint_keeps_transport_witness:
  "\<exists>t' sent' q'. em_run list_inbox
      (dgram_transport_ops (sample_posix True) two_addresses echo_app \<lparr>ep_address = False, ep_port = 0\<rparr> 0 (\<lambda>u. u) (\<lambda>u. []) (50, 10, 100) list_inbox)
      [Write_event, Error_event sec_socket_operation_failed] (Some (sample_dgram, []))
      ([New_proxy 1 7, Resolve_request (3 :: nat) ()], [], [Message ([6], Some 1)], 0, False) = Some (Some (t', sent'), q') \<and>
    disp_inv (dt_next_layer t') \<and> out_ok (dt_out t')"
proof -
  let ?R = "dgram_transport_ops (sample_posix True) two_addresses echo_app \<lparr>ep_address = False, ep_port = 0\<rparr> 0 (\<lambda>u. u) (\<lambda>u. []) (50, 10, 100) list_inbox"
  let ?q = "([New_proxy 1 7, Resolve_request (3 :: nat) ()], [], [Message ([6], Some 1)], 0, False)"
  have "list_all (\<lambda>e. \<not> (\<exists>tag i. e = Timeout tag i)) (evs list_inbox_view ?q @ events_of (todo list_inbox_view ?q))"
    by (simp add: list_inbox_view_def events_of_def)
  from dgram_write_returns [OF list_inbox_ok this] obtain b t1 sent1 q1 where
    "em_handle_write_event list_inbox ?R (Some (sample_dgram, [])) ?q = Some (b, Some (t1, sent1), q1)" by blast
  moreover have "em_handle_error ?R sec_socket_operation_failed (Some (t1, sent1)) =
      Some (dt_next_handle_error echo_app sec_socket_operation_failed t1, sent1)"
    by (simp add: em_handle_error_def dgram_transport_ops_def on_transport_def)
  ultimately have r: "em_run list_inbox ?R [Write_event, Error_event sec_socket_operation_failed] (Some (sample_dgram, [])) ?q =
      Some (Some (dt_next_handle_error echo_app sec_socket_operation_failed t1, sent1), q1)"
    by simp
  have "app_ops_use_writer echo_app"
    using echo_app_uses_writer by (simp add: app_ops_use_writer_def) (simp add: uses_writer_def echo_app_def)
  moreover have "dt_inv sample_dgram"
    by (simp add: dt_inv_def sample_dgram_def dg_write_packet_ok out_new_ok dispatcher_new_inv)
  ultimately show ?thesis using datagram_endpoint_keeps_transport [OF _ _ r] r by blast
qed

end
