(* ===== verification/Middleman.thy ===== *)
theory Middleman
  imports Sockets
begin

text \<open>
  The middleman (\<open>src/net/middleman.cpp\<close>), its TCP backend (\<open>backend/tcp.hpp\<close>,
  \<open>src/net/backend/tcp.cpp\<close>) and test backend (\<open>src/net/backend/test.cpp\<close>), the connection acceptor
  (\<open>connection_acceptor.hpp\<close>) and \<open>socket_manager_impl\<close> (\<open>socket_manager.hpp\<close>). Managers are values
  of a type \<open>'m\<close> made and initialized by operations of an environment; destroying a manager closes
  its socket. \<open>'k\<close> is the state of the kernel. Locators, node IDs and listeners are opaque.
\<close>

section \<open>Socket managers (socket\_manager.hpp)\<close>

text \<open>
  The protocol is a template parameter with state \<open>'p\<close>: \<open>pr_init\<close>, the event callbacks and \<open>abort\<close>,
  each with the manager's abort reason where the code passes it.
\<close>

record ('p, 'k) protocol =
  pr_init :: "'p \<Rightarrow> 'k \<Rightarrow> caf_error option \<times> 'p \<times> 'k"
  pr_handle_read_event :: "'p \<Rightarrow> 'k \<Rightarrow> bool \<times> 'p \<times> 'k"
  pr_handle_write_event :: "'p \<Rightarrow> 'k \<Rightarrow> bool \<times> 'p \<times> 'k"
  pr_abort :: "caf_error \<Rightarrow> 'p \<Rightarrow> 'p"

record 'p manager_impl =
  mi_handle :: socket_id
  mi_abort_reason :: "caf_error option"
  mi_protocol :: 'p

definition mi_init ::
  "'k posix \<Rightarrow> ('p, 'k) protocol \<Rightarrow> 'p manager_impl \<Rightarrow> 'k \<Rightarrow> caf_error option \<times> 'p manager_impl \<times> 'k" where
  "mi_init P Q m k =
     (case nonblocking P (mi_handle m) True k of
        (Inl err, k) \<Rightarrow> (Some err, m, k)
      | (Inr _, k) \<Rightarrow> let (err, p, k) = pr_init Q (mi_protocol m) k in (err, m\<lparr>mi_protocol := p\<rparr>, k))"

definition mi_handle_read_event ::
  "('p, 'k) protocol \<Rightarrow> 'p manager_impl \<Rightarrow> 'k \<Rightarrow> bool \<times> 'p manager_impl \<times> 'k" where
  "mi_handle_read_event Q m k =
     (let (r, p, k) = pr_handle_read_event Q (mi_protocol m) k in (r, m\<lparr>mi_protocol := p\<rparr>, k))"

definition mi_handle_write_event ::
  "('p, 'k) protocol \<Rightarrow> 'p manager_impl \<Rightarrow> 'k \<Rightarrow> bool \<times> 'p manager_impl \<times> 'k" where
  "mi_handle_write_event Q m k =
     (let (r, p, k) = pr_handle_write_event Q (mi_protocol m) k in (r, m\<lparr>mi_protocol := p\<rparr>, k))"

definition mi_handle_error :: "('p, 'k) protocol \<Rightarrow> sec \<Rightarrow> 'p manager_impl \<Rightarrow> 'p manager_impl" where
  "mi_handle_error Q code m =
     (let err = Sec_error code [] in m\<lparr>mi_abort_reason := Some err, mi_protocol := pr_abort Q err (mi_protocol m)\<rparr>)"

section \<open>Connection acceptor (connection\_acceptor.hpp)\<close>

text \<open>The factory makes a child manager of type \<open>'c\<close> from a connected socket.\<close>

record ('f, 'c, 'k) acceptor_factory =
  af_init :: "'f \<Rightarrow> caf_error option \<times> 'f"
  af_make :: "socket_id \<Rightarrow> 'f \<Rightarrow> 'c \<times> 'f"
  af_child_init :: "'c \<Rightarrow> 'k \<Rightarrow> caf_error option \<times> 'c \<times> 'k"
  af_abort :: "caf_error \<Rightarrow> 'f \<Rightarrow> 'f"

text \<open>Whether \<open>register_reading\<close> is called is the second component.\<close>

definition acceptor_init :: "('f, 'c, 'k) acceptor_factory \<Rightarrow> 'f \<Rightarrow> caf_error option \<times> bool \<times> 'f" where
  "acceptor_init F f = (case af_init F f of (Some err, f') \<Rightarrow> (Some err, False, f') | (None, f') \<Rightarrow> (None, True, f'))"

text \<open>
  The result: what the handler returns, the abort reason it sets, the initialized child if there is
  one, the factory and the kernel. A child whose \<open>init\<close> fails is destroyed, which closes its socket.
\<close>

definition acceptor_handle_read_event ::
  "'k posix \<Rightarrow> ('f, 'c, 'k) acceptor_factory \<Rightarrow> socket_id \<Rightarrow> 'f \<Rightarrow> 'k \<Rightarrow>
   bool \<times> caf_error option \<times> 'c option \<times> 'f \<times> 'k" where
  "acceptor_handle_read_event P F handle f k =
     (case tcp_accept P handle k of
        (Inr x, k) \<Rightarrow>
          let (child, f) = af_make F x f; (err, child, k) = af_child_init F child k in
          (case err of
             Some e \<Rightarrow> (False, Some e, None, f, socket_close P x k)
           | None \<Rightarrow> (True, None, Some child, f, k))
      | (Inl err, k) \<Rightarrow> (False, None, None, f, k))"

definition acceptor_handle_write_event :: "'f \<Rightarrow> bool \<times> 'f" where
  "acceptor_handle_write_event f = (False, f)"

definition acceptor_abort :: "('f, 'c, 'k) acceptor_factory \<Rightarrow> caf_error \<Rightarrow> 'f \<Rightarrow> 'f" where
  "acceptor_abort F reason f = af_abort F reason f"

section \<open>The TCP backend (backend/tcp.hpp, tcp.cpp)\<close>

text \<open>
  What the backend uses of other parts: managers, locators (\<open>authority_only\<close> with \<open>make_node_id\<close>,
  and the authority), proxies and the parser for the local address.
\<close>

record ('m, 'n, 'u, 'l, 'k, 'a, 'w) tcp_env =
  te_make_manager :: "socket_id \<Rightarrow> 'm"
  te_make_doorman :: "socket_id \<Rightarrow> 'm"
  te_manager_init :: "'m \<Rightarrow> 'k \<Rightarrow> caf_error option \<times> 'm \<times> 'k"
  te_manager_resolve :: "'u \<Rightarrow> 'l \<Rightarrow> 'm \<Rightarrow> 'm"
  te_node_of :: "'u \<Rightarrow> 'n option"
  te_authority :: "'u \<Rightarrow> 'a authority"
  te_proxies_erase :: "'n \<Rightarrow> 'w \<Rightarrow> 'w"
  te_parse_endpoint :: "u16 \<Rightarrow> caf_error + 'a ip_endpoint"
  te_doorman_uri :: "caf_error option"

record ('m, 'n, 'w) tcp_backend =
  tb_peers :: "('n \<times> 'm) list"
  tb_listening_port :: u16
  tb_proxies :: 'w
  tb_registered :: "'m list"

definition tb_get_peer :: "'n \<Rightarrow> ('m, 'n, 'w) tcp_backend \<Rightarrow> 'm option" where
  "tb_get_peer i b = map_of (tb_peers b) i"

text \<open>\<open>tb_registered\<close> are the managers that \<open>emplace\<close> has registered for reading.\<close>

definition tb_emplace ::
  "'k posix \<Rightarrow> ('m, 'n, 'u, 'l, 'k, 'a, 'w) tcp_env \<Rightarrow> 'n \<Rightarrow> socket_id \<Rightarrow> ('m, 'n, 'w) tcp_backend \<Rightarrow> 'k \<Rightarrow>
   (caf_error + 'm) \<times> ('m, 'n, 'w) tcp_backend \<times> 'k" where
  "tb_emplace P E peer_id handle b k =
     (case nonblocking P handle True k of
        (Inl err, k) \<Rightarrow> (Inl err, b, k)
      | (Inr _, k) \<Rightarrow>
          let (err, mgr, k) = te_manager_init E (te_make_manager E handle) k in
          (case err of
             Some e \<Rightarrow> (Inl e, b, socket_close P handle k)
           | None \<Rightarrow>
               let b1 = b\<lparr>tb_registered := tb_registered b @ [mgr]\<rparr> in
               (case map_of (tb_peers b1) peer_id of
                  None \<Rightarrow> (Inr mgr, b1\<lparr>tb_peers := tb_peers b1 @ [(peer_id, mgr)]\<rparr>, k)
                | Some _ \<Rightarrow> (Inl (Sec_error sec_runtime_error ''peer_id already exists''), b1, k))))"

text \<open>The loop over the resolved addresses.\<close>

fun tb_connect_loop ::
  "'k posix \<Rightarrow> 'a ip_ops \<Rightarrow> ('m, 'n, 'u, 'l, 'k, 'a, 'w) tcp_env \<Rightarrow> 'n \<Rightarrow> u16 \<Rightarrow> 'a list \<Rightarrow>
   ('m, 'n, 'w) tcp_backend \<Rightarrow> 'k \<Rightarrow> (caf_error + 'm) \<times> ('m, 'n, 'w) tcp_backend \<times> 'k" where
  "tb_connect_loop P A E i port [] b k = (Inl (Sec_error sec_cannot_connect_to_node []), b, k)"
| "tb_connect_loop P A E i port (addr # addrs) b k =
     (case make_connected_tcp_stream_socket P A \<lparr>ep_address = addr, ep_port = port\<rparr> k of
        (Inl _, k) \<Rightarrow> tb_connect_loop P A E i port addrs b k
      | (Inr sock, k) \<Rightarrow> tb_emplace P E i sock b k)"

definition tb_get_or_connect ::
  "'k posix \<Rightarrow> 'a ip_ops \<Rightarrow> ip_sys \<Rightarrow> ('m, 'n, 'u, 'l, 'k, 'a, 'w) tcp_env \<Rightarrow> 'u \<Rightarrow>
   ('m, 'n, 'w) tcp_backend \<Rightarrow> 'k \<Rightarrow> (caf_error + 'm) \<times> ('m, 'n, 'w) tcp_backend \<times> 'k" where
  "tb_get_or_connect P A S E locator b k =
     (case te_node_of E locator of
        None \<Rightarrow> (Inl (Sec_error sec_cannot_connect_to_node []), b, k)
      | Some i \<Rightarrow>
          (case tb_get_peer i b of
             Some m \<Rightarrow> (Inr m, b, k)
           | None \<Rightarrow>
               (case auth_host (te_authority E locator) of
                  Inl hostname \<Rightarrow>
                    tb_connect_loop P A E i (auth_port (te_authority E locator)) (resolve_host A S hostname) b k
                | Inr _ \<Rightarrow> (Inl (Sec_error sec_cannot_connect_to_node []), b, k))))"

text \<open>The manager that handles the request is the peer's entry; the listener may receive an error.\<close>

definition tb_resolve ::
  "'k posix \<Rightarrow> 'a ip_ops \<Rightarrow> ip_sys \<Rightarrow> ('m, 'n, 'u, 'l, 'k, 'a, 'w) tcp_env \<Rightarrow> 'u \<Rightarrow> 'l \<Rightarrow>
   ('m, 'n, 'w) tcp_backend \<Rightarrow> 'k \<Rightarrow> ('m, 'n, 'w) tcp_backend \<times> 'k \<times> ('l \<times> caf_error) list" where
  "tb_resolve P A S E locator listener b k =
     (case tb_get_or_connect P A S E locator b k of
        (Inr m, b, k) \<Rightarrow>
          (b\<lparr>tb_peers := map (\<lambda>(i, x). if te_node_of E locator = Some i
                                   then (i, te_manager_resolve E locator listener x) else (i, x)) (tb_peers b)\<rparr>, k, [])
      | (Inl err, b, k) \<Rightarrow> (b, k, [(listener, err)]))"

definition tb_stop :: "('m, 'n, 'u, 'l, 'k, 'a, 'w) tcp_env \<Rightarrow> ('m, 'n, 'w) tcp_backend \<Rightarrow> ('m, 'n, 'w) tcp_backend" where
  "tb_stop E b =
     b\<lparr>tb_proxies := foldl (\<lambda>w p. te_proxies_erase E (fst p) w) (tb_proxies b) (tb_peers b), tb_peers := []\<rparr>"

text \<open>The part of \<open>init\<close> that configures the accept socket.\<close>

definition tb_prepare_acceptor :: "'k posix \<Rightarrow> socket_id \<Rightarrow> 'k \<Rightarrow> ('k, u16 option) sys" where
  "tb_prepare_acceptor P acceptor k =
     (case nonblocking P acceptor True k of
        (Inl err, k) \<Rightarrow> (Inl err, k)
      | (Inr _, k) \<Rightarrow> local_port P acceptor k)"

text \<open>
  \<open>init\<close> returns the doorman's manager for the multiplexer. A port of \<open>None\<close> is the critical error of
  \<open>port_of\<close>, which does not occur for an IP socket. The guard of the accept socket is alive until the
  manager takes over.
\<close>

definition tb_init ::
  "'k posix \<Rightarrow> 'a ip_ops \<Rightarrow> ('m, 'n, 'u, 'l, 'k, 'a, 'w) tcp_env \<Rightarrow> u16 \<Rightarrow> ('m, 'n, 'w) tcp_backend \<Rightarrow> 'k \<Rightarrow>
   (caf_error + 'm) \<times> ('m, 'n, 'w) tcp_backend \<times> 'k" where
  "tb_init P A E conf_port b k =
     (case te_parse_endpoint E conf_port of
        Inl err \<Rightarrow> (Inl err, b, k)
      | Inr ep \<Rightarrow>
          (case make_tcp_accept_socket P A ep True k of
             (Inl err, k) \<Rightarrow> (Inl err, b, k)
           | (Inr acceptor, k) \<Rightarrow>
               (case socket_guarded P acceptor (tb_prepare_acceptor P acceptor k) of
                  (Inl err, k) \<Rightarrow> (Inl err, b, k)
                | (Inr port, k) \<Rightarrow>
                    let b1 = b\<lparr>tb_listening_port := (case port of Some p \<Rightarrow> p | None \<Rightarrow> 0)\<rparr> in
                    (case socket_guarded P acceptor (case te_doorman_uri E of Some err \<Rightarrow> (Inl err, k) | None \<Rightarrow> (Inr (), k)) of
                       (Inl err, k) \<Rightarrow> (Inl err, b1, k)
                     | (Inr _, k) \<Rightarrow>
                         let (err, mgr, k) = te_manager_init E (te_make_doorman E acceptor) k in
                         (case err of
                            Some e \<Rightarrow> (Inl e, b1, socket_close P acceptor k)
                          | None \<Rightarrow> (Inr mgr, b1, k))))))"

section \<open>The test backend (backend/test.cpp)\<close>

text \<open>\<open>None\<close> is a raised exception. An entry is a pair of the local socket and the manager.\<close>

record ('m, 'n, 'w) test_backend =
  tst_peers :: "('n \<times> (socket_id \<times> 'm)) list"
  tst_proxies :: 'w
  tst_registered :: "'m list"

definition tst_stop :: "('m, 'n, 'u, 'l, 'k, 'a, 'w) tcp_env \<Rightarrow> ('m, 'n, 'w) test_backend \<Rightarrow> ('m, 'n, 'w) test_backend" where
  "tst_stop E b =
     b\<lparr>tst_proxies := foldl (\<lambda>w p. te_proxies_erase E (fst p) w) (tst_proxies b) (tst_peers b), tst_peers := []\<rparr>"

definition tst_emplace ::
  "'k posix \<Rightarrow> ('m, 'n, 'u, 'l, 'k, 'a, 'w) tcp_env \<Rightarrow> 'n \<Rightarrow> socket_id \<Rightarrow> socket_id \<Rightarrow>
   ('m, 'n, 'w) test_backend \<Rightarrow> 'k \<Rightarrow> ((socket_id \<times> 'm) \<times> ('m, 'n, 'w) test_backend) option \<times> 'k" where
  "tst_emplace P E peer_id first second b k =
     (let (_, k) = nonblocking P second True k;
          (err, mgr, k) = te_manager_init E (te_make_manager E second) k in
      case err of
        Some e \<Rightarrow> (None, socket_close P second k)
      | None \<Rightarrow> (Some ((first, mgr), b\<lparr>tst_peers := (peer_id, (first, mgr)) # filter (\<lambda>p. fst p \<noteq> peer_id) (tst_peers b),
                                  tst_registered := tst_registered b @ [mgr]\<rparr>), k))"

definition tst_get_peer ::
  "'k posix \<Rightarrow> ('m, 'n, 'u, 'l, 'k, 'a, 'w) tcp_env \<Rightarrow> 'n \<Rightarrow> ('m, 'n, 'w) test_backend \<Rightarrow> 'k \<Rightarrow>
   ((socket_id \<times> 'm) \<times> ('m, 'n, 'w) test_backend) option \<times> 'k" where
  "tst_get_peer P E i b k =
     (case map_of (tst_peers b) i of
        Some e \<Rightarrow> (Some (e, b), k)
      | None \<Rightarrow>
          (case make_stream_socket_pair P k of
             (Inl _, k) \<Rightarrow> (None, k)
           | (Inr (s1, s2), k) \<Rightarrow> tst_emplace P E i s1 s2 b k))"

definition tst_get_or_connect ::
  "'k posix \<Rightarrow> ('m, 'n, 'u, 'l, 'k, 'a, 'w) tcp_env \<Rightarrow> 'n \<Rightarrow> ('m, 'n, 'w) test_backend \<Rightarrow> 'k \<Rightarrow>
   ('m \<times> ('m, 'n, 'w) test_backend) option \<times> 'k" where
  "tst_get_or_connect P E i b k =
     (case tst_get_peer P E i b k of (Some (e, b), k) \<Rightarrow> (Some (snd e, b), k) | (None, k) \<Rightarrow> (None, k))"

definition tst_resolve ::
  "'k posix \<Rightarrow> ('m, 'n, 'u, 'l, 'k, 'a, 'w) tcp_env \<Rightarrow> 'u \<Rightarrow> 'l \<Rightarrow> ('m, 'n, 'w) test_backend \<Rightarrow> 'k \<Rightarrow>
   (('l \<times> caf_error) list \<times> ('m, 'n, 'w) test_backend) option \<times> 'k" where
  "tst_resolve P E locator listener b k =
     (case te_node_of E locator of
        None \<Rightarrow> (Some ([(listener, Ec_error ec_invalid_locator)], b), k)
      | Some i \<Rightarrow>
          (case tst_get_peer P E i b k of
             (None, k) \<Rightarrow> (None, k)
           | (Some ((s, m), b), k) \<Rightarrow>
               (Some ([], b\<lparr>tst_peers := map (\<lambda>(j, x). if j = i then (j, (fst x, te_manager_resolve E locator listener (snd x)))
                                                 else (j, x)) (tst_peers b)\<rparr>), k)))"

section \<open>The middleman (middleman.cpp)\<close>

text \<open>The backends seen from the middleman: their IDs and states; requests change a state.\<close>

record ('b, 'm, 'u, 'l) backend_ops =
  bo_init :: "'b \<Rightarrow> caf_error option \<times> 'b"
  bo_stop :: "'b \<Rightarrow> 'b"
  bo_get_or_connect :: "'u \<Rightarrow> 'b \<Rightarrow> (caf_error + 'm) \<times> 'b"
  bo_resolve :: "'u \<Rightarrow> 'l \<Rightarrow> 'b \<Rightarrow> ('l \<times> caf_error) list \<times> 'b"
  bo_port :: "'b \<Rightarrow> u16"

type_synonym 'b backends = "(string \<times> 'b) list"

text \<open>\<open>std::find_if\<close> for the first backend with this ID, and a call through the pointer.\<close>

definition mm_backend :: "string \<Rightarrow> 'b backends \<Rightarrow> 'b option" where
  "mm_backend scheme bs = map_of bs scheme"

fun update_backend :: "string \<Rightarrow> 'b \<Rightarrow> 'b backends \<Rightarrow> 'b backends" where
  "update_backend scheme b [] = []"
| "update_backend scheme b ((i, x) # bs) = (if i = scheme then (i, b) # bs else (i, x) # update_backend scheme b bs)"

definition mm_connect ::
  "('b, 'm, 'u, 'l) backend_ops \<Rightarrow> ('u \<Rightarrow> string) \<Rightarrow> 'u \<Rightarrow> 'b backends \<Rightarrow> (caf_error + 'm) \<times> 'b backends" where
  "mm_connect B scheme locator bs =
     (case mm_backend (scheme locator) bs of
        Some b \<Rightarrow> let (r, b') = bo_get_or_connect B locator b in (r, update_backend (scheme locator) b' bs)
      | None \<Rightarrow> (Inl (Ec_error ec_invalid_scheme), bs))"

definition mm_resolve ::
  "('b, 'm, 'u, 'l) backend_ops \<Rightarrow> ('u \<Rightarrow> string) \<Rightarrow> 'u \<Rightarrow> 'l \<Rightarrow> 'b backends \<Rightarrow> ('l \<times> caf_error) list \<times> 'b backends" where
  "mm_resolve B scheme locator listener bs =
     (case mm_backend (scheme locator) bs of
        Some b \<Rightarrow> let (r, b') = bo_resolve B locator listener b in (r, update_backend (scheme locator) b' bs)
      | None \<Rightarrow> ([(listener, Ec_error ec_invalid_scheme)], bs))"

definition mm_port :: "('b, 'm, 'u, 'l) backend_ops \<Rightarrow> string \<Rightarrow> 'b backends \<Rightarrow> caf_error + u16" where
  "mm_port B scheme bs =
     (case mm_backend scheme bs of Some b \<Rightarrow> Inr (bo_port B b) | None \<Rightarrow> Inl (Ec_error ec_invalid_scheme))"

text \<open>The loop of \<open>init\<close> over the backends: the first failure raises an exception.\<close>

fun mm_init_backends :: "('b, 'm, 'u, 'l) backend_ops \<Rightarrow> 'b backends \<Rightarrow> bool \<times> 'b backends" where
  "mm_init_backends B [] = (True, [])"
| "mm_init_backends B ((i, b) # bs) =
     (case bo_init B b of
        (Some err, b') \<Rightarrow> (False, (i, b') # bs)
      | (None, b') \<Rightarrow> let (ok, bs') = mm_init_backends B bs in (ok, (i, b') # bs'))"

text \<open>
  \<open>init\<close>: \<open>mpx_ok\<close> is the result of the multiplexer's \<open>init\<close>, the node ID is replaced if the
  configuration has one. \<open>None\<close> is a raised exception.
\<close>

definition mm_init ::
  "('b, 'm, 'u, 'l) backend_ops \<Rightarrow> bool \<Rightarrow> 'n option \<Rightarrow> 'n \<Rightarrow> 'b backends \<Rightarrow> ('n \<times> 'b backends) option" where
  "mm_init B mpx_ok this_node node bs =
     (if \<not> mpx_ok then None
      else
        let node' = (case this_node of Some n \<Rightarrow> n | None \<Rightarrow> node);
            (ok, bs') = mm_init_backends B bs
        in if ok then Some (node', bs') else None)"

text \<open>\<open>stop\<close> without the multiplexer: all backends stop before it shuts down.\<close>

definition mm_stop_backends :: "('b, 'm, 'u, 'l) backend_ops \<Rightarrow> 'b backends \<Rightarrow> 'b backends" where
  "mm_stop_backends B bs = map (\<lambda>(i, b). (i, bo_stop B b)) bs"

text \<open>
  \<open>start\<close> and \<open>stop\<close> over the multiplexer's \<open>set_thread_id\<close>, \<open>shutdown\<close> and \<open>run\<close>, which may not return.
  Without a thread of its own (manual multiplexing) the multiplexer is run by \<open>stop\<close>; with one, the
  thread executes \<open>run\<close> and \<open>stop\<close> only waits for it. The second component of \<open>mm_start\<close> tells whether
  there is a thread.
\<close>

definition mm_start :: "('x \<Rightarrow> 'x) \<Rightarrow> bool \<Rightarrow> 'x \<Rightarrow> 'x \<times> bool" where
  "mm_start set_thread_id manual mpx = (if \<not> manual then (mpx, True) else (set_thread_id mpx, False))"

definition mm_thread :: "('x \<Rightarrow> 'x) \<Rightarrow> ('x \<Rightarrow> 'x option) \<Rightarrow> 'x \<Rightarrow> 'x option" where
  "mm_thread set_thread_id run mpx = run (set_thread_id mpx)"

definition mm_stop ::
  "('b, 'm, 'u, 'l) backend_ops \<Rightarrow> ('x \<Rightarrow> 'x) \<Rightarrow> ('x \<Rightarrow> 'x option) \<Rightarrow> bool \<Rightarrow> 'b backends \<Rightarrow> 'x \<Rightarrow> ('b backends \<times> 'x) option" where
  "mm_stop B shutdown run joinable bs mpx =
     (let bs' = mm_stop_backends B bs; mpx1 = shutdown mpx in
      if joinable then Some (bs', mpx1) else map_option (\<lambda>mpx2. (bs', mpx2)) (run mpx1))"

section \<open>Descriptors\<close>

lemma nonblocking_fds:
  assumes "posix_ok P fds" and "nonblocking P x b k = (r, k')"
  shows "fds k' = fds k"
  using assms(2) fcntl_fds [OF assms(1)]
  by (auto simp: nonblocking_def net_syscall_def Let_def split: prod.splits if_splits)

lemma prepare_acceptor_fds:
  assumes "posix_ok P fds" and "tb_prepare_acceptor P x k = (r, k')"
  shows "fds k' = fds k"
proof -
  obtain r1 k1 where n: "nonblocking P x True k = (r1, k1)" by fastforce
  obtain r2 sa k2 where g: "px_getsockname P x k1 = ((r2, sa), k2)" by (metis surj_pair)
  have "fds k1 = fds k" "fds k2 = fds k1"
    using nonblocking_fds [OF assms(1) n] getsockname_fds [OF assms(1) g] by simp_all
  then show ?thesis
    using assms(2) n g
    by (cases r1) (auto simp: tb_prepare_acceptor_def local_port_def net_syscall_def split: if_splits)
qed

lemma guarded_fds:
  assumes "posix_ok P fds" and "socket_guarded P x (r0, k0) = (r, k')" and "x \<noteq> - 1" and "fds k0 = fds k"
  shows "fds k' = (case r of Inl _ \<Rightarrow> fds k - {x} | Inr _ \<Rightarrow> fds k)"
  using assms unfolding posix_ok_def by (cases r0) (auto simp: socket_guarded_def)

lemma accept_socket_valid:
  assumes "posix_ok P fds" and "make_tcp_accept_socket P A ep reuse k = (Inr x, k')"
  shows "x \<noteq> - 1"
  using assms(2) new_tcp_acceptor_valid [OF _ assms(1)]
  by (auto simp: make_tcp_accept_socket_def net_syscall_def socket_guarded_def Let_def
      split: prod.splits sum.splits if_splits)

section \<open>Properties\<close>

text \<open>An environment for witnesses: a manager is its socket, the initialization of one may fail.\<close>

definition sample_tcp_env :: "bool \<Rightarrow> (socket_id, nat, nat, nat, socket_id set, bool, unit) tcp_env" where
  "sample_tcp_env init_ok =
     \<lparr>te_make_manager = (\<lambda>x. x), te_make_doorman = (\<lambda>x. x),
      te_manager_init = (\<lambda>m k. (if init_ok then None else Some (Sec_error sec_runtime_error []), m, k)),
      te_manager_resolve = (\<lambda>u l m. m), te_node_of = Some,
      te_authority = (\<lambda>u. \<lparr>auth_host = Inr True, auth_port = 80\<rparr>), te_proxies_erase = (\<lambda>n w. w),
      te_parse_endpoint = (\<lambda>p. Inr \<lparr>ep_address = True, ep_port = p\<rparr>), te_doorman_uri = None\<rparr>"

definition sample_tcp_backend :: "(socket_id, nat, unit) tcp_backend" where
  "sample_tcp_backend = \<lparr>tb_peers = [], tb_listening_port = 0, tb_proxies = (), tb_registered = []\<rparr>"

text \<open>
  C32: The initialization of the TCP backend leaks no descriptor: if it fails, at whichever step, the
  open descriptors are those before the call; if it succeeds, there is exactly one new descriptor.
\<close>

theorem tcp_init_does_not_leak:
  assumes ok: "posix_ok P fds"
    and mgr: "\<And>m k. fds (snd (snd (te_manager_init E m k))) = fds k"
    and i: "tb_init P A E conf_port b k = (r, b', k')"
  shows "case r of Inl _ \<Rightarrow> fds k' = fds k | Inr _ \<Rightarrow> \<exists>x. x \<notin> fds k \<and> fds k' = insert x (fds k)"
proof (cases "te_parse_endpoint E conf_port")
  case (Inl e)
  then show ?thesis using i by (auto simp: tb_init_def)
next
  case ep: (Inr ep)
  obtain r1 k1 where a: "make_tcp_accept_socket P A ep True k = (r1, k1)" by fastforce
  have o: "opens fds k (\<lambda>x. {x}) (r1, k1)" using make_tcp_accept_socket_opens [OF ok] a by metis
  show ?thesis
  proof (cases r1)
    case (Inl e)
    then show ?thesis using i ep a o by (auto simp: tb_init_def opens_def)
  next
    case (Inr x)
    have x: "x \<noteq> - 1" "x \<notin> fds k" "fds k1 = insert x (fds k)"
      using accept_socket_valid [OF ok a [unfolded Inr]] o Inr by (simp_all add: opens_def)
    obtain r2 k2 where p: "tb_prepare_acceptor P x k1 = (r2, k2)" by fastforce
    obtain r3 k3 where g: "socket_guarded P x (r2, k2) = (r3, k3)" by fastforce
    note f3 = guarded_fds [OF ok g x(1) prepare_acceptor_fds [OF ok p]]
    obtain r4 k4 where d:
        "socket_guarded P x (case te_doorman_uri E of Some err \<Rightarrow> (Inl err, k3) | None \<Rightarrow> (Inr (), k3)) = (r4, k4)"
      by fastforce
    have f4: "fds k4 = (case r4 of Inl _ \<Rightarrow> fds k3 - {x} | Inr _ \<Rightarrow> fds k3)"
      using guarded_fds [OF ok _ x(1) refl, of _ k3] d by (cases "te_doorman_uri E") auto
    obtain e m k5 where t: "te_manager_init E (te_make_doorman E x) k4 = (e, m, k5)" by (metis surj_pair)
    have f5: "fds k5 = fds k4" using mgr [of "te_make_doorman E x" k4] t by simp
    have cl: "fds (px_close P x k5) = fds k5 - {x}" using ok by (simp add: posix_ok_def)
    have res: "r = (case r3 of Inl e \<Rightarrow> Inl e | Inr _ \<Rightarrow> (case r4 of Inl e \<Rightarrow> Inl e | Inr _ \<Rightarrow>
          (case e of Some e \<Rightarrow> Inl e | None \<Rightarrow> Inr m))) \<and>
        k' = (case r3 of Inl e \<Rightarrow> k3 | Inr _ \<Rightarrow> (case r4 of Inl e \<Rightarrow> k4 | Inr _ \<Rightarrow>
          (case e of Some e \<Rightarrow> px_close P x k5 | None \<Rightarrow> k5)))"
      using i ep a Inr p g d t by (cases r3; cases r4; cases e) (simp_all add: tb_init_def socket_close_def Let_def)
    show ?thesis
      using res f3 f4 f5 cl x prepare_acceptor_fds [OF ok p] by (cases r3; cases r4; cases e) auto
  qed
qed

theorem tcp_init_does_not_leak_witness:
  "snd (snd (tb_init (sample_posix True) two_addresses (sample_tcp_env False) 0 sample_tcp_backend {0, 1, 2})) = {0, 1, 2}"
proof -
  obtain r b' k' where i:
    "tb_init (sample_posix True) two_addresses (sample_tcp_env False) 0 sample_tcp_backend {0, 1, 2} = (r, b', k')"
    by (metis surj_pair)
  have "\<exists>e. r = Inl e" using i
    by (auto simp: tb_init_def sample_tcp_env_def Let_def split: prod.splits sum.splits option.splits)
  then show ?thesis
    using tcp_init_does_not_leak [OF sample_posix_ok _ i] i by (auto simp: sample_tcp_env_def)
qed

text \<open>
  A connection acceptor gives up on the first failure: if \<open>accept\<close> fails, even because no
  connection waits any more, or if a single child cannot be initialized, the read event handler
  returns \<open>false\<close>, which makes the multiplexer drop the acceptor's read interest.
\<close>

lemma acceptor_gives_up:
  assumes "acceptor_handle_read_event P F handle f k = (r, reason, child, f', k')"
  shows "(r \<longleftrightarrow> child \<noteq> None) \<and> (fst (px_accept P handle k) = - 1 \<longrightarrow> \<not> r \<and> reason = None \<and> f' = f)"
  using assms
  by (auto simp: acceptor_handle_read_event_def tcp_accept_def Let_def split: prod.splits sum.splits option.splits if_splits)

lemma acceptor_gives_up_sample:
  "\<not> fst (acceptor_handle_read_event (sample_posix True)
     \<lparr>af_init = (\<lambda>f. (None, f)), af_make = (\<lambda>x f. (x, f)), af_child_init = (\<lambda>c k. (None, c, k)), af_abort = (\<lambda>e f. f)\<rparr>
     3 () {3}) \<and> last_socket_error_is_temporary (sample_posix True) {3}"
proof -
  let ?F = "\<lparr>af_init = (\<lambda>f. (None, f)), af_make = (\<lambda>x f. (x, f)), af_child_init = (\<lambda>c k. (None, c, k)), af_abort = (\<lambda>e f. f)\<rparr>"
  obtain r reason child f' k' where a:
    "acceptor_handle_read_event (sample_posix True) ?F 3 () {3} = (r, reason, child, f', k')" by (metis surj_pair)
  have "fst (px_accept (sample_posix True) 3 {3}) = - 1" by (simp add: sample_posix_def)
  moreover have "last_socket_error_is_temporary (sample_posix True) {3}"
    by (simp add: last_socket_error_is_temporary_def sample_posix_def)
  moreover have "\<not> r" using acceptor_gives_up [OF a] calculation(1) by blast
  ultimately show ?thesis using a by simp
qed

lemma emplace_enters_peer:
  assumes "tb_emplace P E i x b k = (Inr m, b', k')"
  shows "tb_get_peer i b' = Some m"
  using assms
  by (auto simp: tb_emplace_def tb_get_peer_def Let_def map_add_def split: sum.splits prod.splits option.splits)

lemma connect_loop_enters_peer:
  "tb_connect_loop P A E i port addrs b k = (Inr m, b', k') \<Longrightarrow> tb_get_peer i b' = Some m"
  by (induction addrs arbitrary: k)
    (auto dest: emplace_enters_peer split: prod.splits sum.splits)

text \<open>
  C34: The TCP backend connects to a peer at most once: after a successful request, every further
  request for the same locator returns the same manager without touching the network. A peer that
  is not connected and whose locator names the host by an IP address is never connected: the backend
  reports that it cannot.
\<close>

theorem tcp_peer_lookup:
  assumes "te_node_of E locator = Some i"
  shows "(\<forall>m b' k' k2. tb_get_or_connect P A S E locator b k = (Inr m, b', k') \<longrightarrow>
        tb_get_or_connect P A S E locator b' k2 = (Inr m, b', k2)) \<and>
     (tb_get_peer i b = None \<longrightarrow> (\<exists>ip. auth_host (te_authority E locator) = Inr ip) \<longrightarrow>
        tb_get_or_connect P A S E locator b k = (Inl (Sec_error sec_cannot_connect_to_node []), b, k))"
proof -
  have "tb_get_peer i b' = Some m" if "tb_get_or_connect P A S E locator b k = (Inr m, b', k')" for m b' k'
    using that assms connect_loop_enters_peer
    by (fastforce simp: tb_get_or_connect_def split: option.splits sum.splits)
  then show ?thesis using assms by (auto simp: tb_get_or_connect_def)
qed

theorem tcp_peer_lookup_witness:
  "tb_get_or_connect (sample_posix True) two_addresses
     \<lparr>getaddrinfo = (\<lambda>h p f. None), getifaddrs = None, inet_ntop = (\<lambda>a. None)\<rparr> (sample_tcp_env True) 5
     sample_tcp_backend {0} = (Inl (Sec_error sec_cannot_connect_to_node []), sample_tcp_backend, {0})"
proof -
  have "te_node_of (sample_tcp_env True) 5 = Some 5" "tb_get_peer 5 sample_tcp_backend = None"
    "auth_host (te_authority (sample_tcp_env True) 5) = Inr True"
    by (simp_all add: sample_tcp_env_def sample_tcp_backend_def tb_get_peer_def)
  with tcp_peer_lookup [of "sample_tcp_env True" 5 5, where b = sample_tcp_backend and P = "sample_posix True" and
      A = two_addresses and k = "{0}" and
      S = "\<lparr>getaddrinfo = (\<lambda>h p f. None), getifaddrs = None, inet_ntop = (\<lambda>a. None)\<rparr>"]
  show ?thesis by blast
qed

end
