(* ===== verification/Remoting.thy ===== *)
theory Remoting
  imports Middleman Basp_Application Endpoint_Manager
begin

text \<open>
  The templates of the middleman (\<open>caf/net/middleman.hpp\<close>): creating it with its backends, publishing
  actors and \<open>remote_actor\<close>, which resolves a locator and waits for the answer. The registry, casts and the
  mailbox of the waiting actor belong to the CAF core library.
\<close>

section \<open>Creation and publishing\<close>

text \<open>The backends are created in the order of the type list; each constructor yields an ID and a state.\<close>

fun create_backends :: "('mm \<Rightarrow> string \<times> 'b) list \<Rightarrow> 'mm \<Rightarrow> 'b backends \<Rightarrow> 'b backends" where
  "create_backends [] mm backends = backends"
| "create_backends (t # ts) mm backends = create_backends ts mm (backends @ [t mm])"

definition mm_make :: "('mm \<Rightarrow> string \<times> 'b) list \<Rightarrow> 'mm \<Rightarrow> 'b backends" where
  "mm_make ts mm = (if length ts > 0 then create_backends ts mm [] else [])"

definition publish :: "'h \<Rightarrow> string \<Rightarrow> (string \<rightharpoonup> 'h) \<Rightarrow> (string \<rightharpoonup> 'h)" where
  "publish whom path registry = registry(path \<mapsto> whom)"

lemma create_backends_order: "create_backends ts mm bs = bs @ map (\<lambda>t. t mm) ts"
  by (induction ts arbitrary: bs) simp_all

lemma mm_make_backend: "mm_backend scheme (mm_make ts mm) = map_of (map (\<lambda>t. t mm) ts) scheme"
  by (simp add: mm_make_def mm_backend_def create_backends_order)

section \<open>Waiting for the answer\<close>

text \<open>
  The messages that the sources send to a listener of \<open>resolve\<close>: a proxy with its interface, an error, a
  value of the enumeration \<open>sec\<close>, or an atom and an error.
\<close>

datatype 'r listener_msg =
    Proxy_msg "'r option" "string set"
  | Error_msg caf_error
  | Sec_msg sec
  | Resolve_error_msg caf_error

text \<open>\<open>receive\<close> with its two handlers: other messages do not match; \<open>None\<close> if the timeout fires.\<close>

fun receive_reply :: "'r listener_msg list \<Rightarrow> ('r option + caf_error) option" where
  "receive_reply [] = None"
| "receive_reply (Proxy_msg ptr ifs # ms) = Some (Inl ptr)"
| "receive_reply (Error_msg e # ms) = Some (Inr e)"
| "receive_reply (_ # ms) = receive_reply ms"

abbreviation no_response :: caf_error where
  "no_response \<equiv> Sec_error sec_runtime_error ''manager did not respond with a proxy.''"

abbreviation cast_failed :: caf_error where
  "cast_failed \<equiv> Sec_error sec_runtime_error ''cast to handle-type failed''"

text \<open>The messages are those that arrive in time; \<open>actor_cast\<close> of a null pointer is an invalid handle.\<close>

definition remote_actor :: "('r \<Rightarrow> 'h option) \<Rightarrow> 'r listener_msg list \<Rightarrow> caf_error + 'h" where
  "remote_actor actor_cast replies =
     (case receive_reply replies of
        None \<Rightarrow> Inl no_response
      | Some (Inr e) \<Rightarrow> Inl e
      | Some (Inl ptr) \<Rightarrow> (case Option.bind ptr actor_cast of Some h \<Rightarrow> Inr h | None \<Rightarrow> Inl cast_failed))"

section \<open>Who answers\<close>

text \<open>The errors of the middleman and of its backends.\<close>

definition backend_msgs :: "'l \<Rightarrow> ('l \<times> caf_error) list \<Rightarrow> 'r listener_msg list" where
  "backend_msgs l sent = map (\<lambda>(l', e). Error_msg e) (filter (\<lambda>(l', e). l' = l) sent)"

text \<open>The answer of an endpoint manager whose queue is closed.\<close>

definition manager_msgs :: "'l \<Rightarrow> ('l \<times> caf_error) list \<Rightarrow> 'r listener_msg list" where
  "manager_msgs l sent = map (\<lambda>(l', e). Resolve_error_msg e) (filter (\<lambda>(l', e). l' = l) sent)"

text \<open>The answers of a BASP application.\<close>

definition basp_msgs :: "'l \<Rightarrow> ('n, 'r, 'l) effect list \<Rightarrow> 'r listener_msg list" where
  "basp_msgs l effs =
     concat (map (\<lambda>eff. case eff of
         Anon_send l' (Resolved p ifs) \<Rightarrow> if l' = l then [Proxy_msg p ifs] else []
       | Anon_send l' Remote_lookup_failed \<Rightarrow> if l' = l then [Sec_msg sec_remote_lookup_failed] else []
       | _ \<Rightarrow> []) effs)"

section \<open>Properties\<close>



end
