(* ===== verification/Building_Blocks.thy ===== *)
theory Building_Blocks
  imports Net_Enums
begin

text \<open>
  The building blocks for streams (\<open>libcaf_bb\<close>): \<open>tokenized_integer_reader.hpp\<close>,
  \<open>container_source.hpp\<close> and \<open>stream_reader.hpp\<close>. The stream sources are given by their callbacks:
  the generator, which receives a hint how many elements fit, and the test for the end. What a
  generator pushes downstream is part of its result. \<open>strtoll\<close>, \<open>isspace\<close> and \<open>getline\<close> are
  functions of the standard library and modelled here.
\<close>

section \<open>Parsing integers (C standard library)\<close>

definition is_space :: "char \<Rightarrow> bool" where
  "is_space c \<longleftrightarrow> c \<in> {CHR '' '', CHR 0x09, CHR 0x0A, CHR 0x0B, CHR 0x0C, CHR 0x0D}"

definition is_digit :: "char \<Rightarrow> bool" where
  "is_digit c \<longleftrightarrow> 48 \<le> (of_char c :: nat) \<and> (of_char c :: nat) \<le> 57"

definition digit_value :: "char \<Rightarrow> int" where
  "digit_value c = of_char c - 48"

definition digits_value :: "string \<Rightarrow> int" where
  "digits_value ds = foldl (\<lambda>v c. 10 * v + digit_value c) 0 ds"

definition strip_sign :: "string \<Rightarrow> bool \<times> string" where
  "strip_sign s =
     (case s of
        [] \<Rightarrow> (False, [])
      | c # cs \<Rightarrow> if c = CHR ''-'' then (True, cs) else if c = CHR ''+'' then (False, cs) else (False, s))"

abbreviation (input) ll_min :: int where "ll_min \<equiv> - (2 ^ 63)"
abbreviation (input) ll_max :: int where "ll_max \<equiv> 2 ^ 63 - 1"

text \<open>
  \<open>strtoll(s, &end, 10)\<close>: the value, the end of the parsed prefix, and whether \<open>errno\<close> is set to
  \<open>ERANGE\<close>. Without digits, \<open>end\<close> is the start.
\<close>

definition strtoll :: "string \<Rightarrow> int \<times> string \<times> bool" where
  "strtoll s =
     (let (neg, u) = strip_sign (dropWhile is_space s);
          ds = takeWhile is_digit u;
          v = (if neg then - digits_value ds else digits_value ds)
      in if ds = [] then (0, s, False)
         else (max ll_min (min ll_max v), dropWhile is_digit u, v < ll_min \<or> ll_max < v))"

section \<open>The tokenized integer reader (tokenized\_integer\_reader.hpp)\<close>

lemma length_dropWhile_less: "s \<noteq> [] \<Longrightarrow> P (hd s) \<Longrightarrow> length (dropWhile P s) < length s"
  by (cases s) (simp_all add: le_imp_less_Suc length_dropWhile_le)

lemma strip_sign_length: "strip_sign s = (b, u) \<Longrightarrow> length u \<le> length s"
  by (cases s) (auto simp: strip_sign_def split: if_splits)

lemma strtoll_progress:
  assumes "strtoll s = (v, e, r)" and "s \<noteq> []" and "v \<noteq> 0 \<or> e = [] \<or> hd e = CHR '' ''"
  shows "length (dropWhile is_space e) < length s"
proof -
  obtain neg u where u: "strip_sign (dropWhile is_space s) = (neg, u)" by fastforce
  have ul: "length u \<le> length s"
    using strip_sign_length [OF u] length_dropWhile_le [of is_space s] by simp
  show ?thesis
  proof (cases "takeWhile is_digit u = []")
    case True
    then have "v = 0" "e = s" using assms(1) u by (auto simp: strtoll_def)
    moreover from this assms(2,3) have "is_space (hd s)" by (auto simp: is_space_def)
    ultimately show ?thesis using length_dropWhile_less [OF assms(2)] by simp
  next
    case False
    then have "u \<noteq> []" "is_digit (hd u)" by (cases u; auto split: if_splits)+
    then have "length (dropWhile is_digit u) < length u" by (rule length_dropWhile_less)
    moreover have "e = dropWhile is_digit u" using assms(1) u False by (auto simp: strtoll_def Let_def)
    ultimately show ?thesis using ul length_dropWhile_le [of is_space e] by simp
  qed
qed

text \<open>
  The loop of \<open>operator()\<close>: \<open>lo\<close> and \<open>hi\<close> are the limits of the value type, \<open>erange\<close> tells whether
  \<open>errno\<close> is \<open>ERANGE\<close>, which the code never resets. The result is the number of integers or an error,
  what was pushed, and the state of \<open>errno\<close>.
\<close>

function read_loop :: "int \<Rightarrow> int \<Rightarrow> bool \<Rightarrow> string \<Rightarrow> nat \<Rightarrow> int list \<Rightarrow> (caf_error + nat) \<times> int list \<times> bool" where
  "read_loop lo hi erange s count out =
     (if s = [] then (Inr count, out, erange)
      else
        let (value, e, r) = strtoll s; erange' = (erange \<or> r) in
        if erange' then (Inl (Pec_error (if value < 0 then pec_exponent_underflow else pec_exponent_overflow) []), out, erange')
        else if lo > value then (Inl (Pec_error pec_exponent_underflow []), out, erange')
        else if value > hi then (Inl (Pec_error pec_exponent_overflow []), out, erange')
        else if value = 0 \<and> \<not> (e = [] \<or> hd e = CHR '' '') then (Inl (Pec_error pec_unexpected_character []), out, erange')
        else read_loop lo hi erange' (dropWhile is_space e) (count + 1) (out @ [value]))"
  by pat_completeness auto
termination
proof (relation "measure (\<lambda>(lo, hi, erange, s, count, out). length s)", goal_cases)
  case (2 lo hi erange s count out x v y e r erange')
  then have "strtoll s = (v, e, r)" by simp
  from strtoll_progress [OF this] 2 show ?case by auto
qed simp

declare read_loop.simps [simp del]

text \<open>The line is read as a C string: up to the first null character.\<close>

definition tokenized_integer_reader :: "int \<Rightarrow> int \<Rightarrow> bool \<Rightarrow> string \<Rightarrow> (caf_error + nat) \<times> int list \<times> bool" where
  "tokenized_integer_reader lo hi erange line = read_loop lo hi erange (takeWhile (\<lambda>c. c \<noteq> CHR 0x00) line) 0 []"

section \<open>Container sources (container\_source.hpp)\<close>

record 'x container_source =
  cs_xs :: "'x list"
  cs_pos :: nat

definition cs_new :: "'x container_source" where
  "cs_new = \<lparr>cs_xs = [], cs_pos = 0\<rparr>"

definition cs_init :: "'x list \<Rightarrow> 'x container_source \<Rightarrow> 'x container_source" where
  "cs_init elements st = st\<lparr>cs_xs := elements, cs_pos := 0\<rparr>"

definition cs_remaining :: "'x container_source \<Rightarrow> nat" where
  "cs_remaining st = length (cs_xs st) - cs_pos st"

definition cs_at_end :: "'x container_source \<Rightarrow> bool" where
  "cs_at_end st \<longleftrightarrow> cs_pos st = length (cs_xs st)"

fun cs_push_loop :: "nat \<Rightarrow> 'x container_source \<Rightarrow> 'x list \<times> 'x container_source" where
  "cs_push_loop 0 st = ([], st)"
| "cs_push_loop (Suc n) st =
     (let (out, st') = cs_push_loop n (st\<lparr>cs_pos := cs_pos st + 1\<rparr>) in (cs_xs st ! cs_pos st # out, st'))"

definition cs_generate :: "nat \<Rightarrow> 'x container_source \<Rightarrow> 'x list \<times> 'x container_source" where
  "cs_generate hint st = cs_push_loop (min hint (cs_remaining st)) st"

section \<open>Stream readers (stream\_reader.hpp)\<close>

text \<open>
  An input stream holds the lines that are left and the failure flag that a \<open>getline\<close> without a line
  sets. \<open>'p\<close> is the state of the policy; \<open>quit\<close> ends the actor but not the loop.
\<close>

record stream_reader =
  sr_lines :: "string list"
  sr_failed :: bool
  sr_quit :: "caf_error option"

definition sr_at_end :: "stream_reader \<Rightarrow> bool" where
  "sr_at_end st \<longleftrightarrow> sr_failed st"

definition getline :: "stream_reader \<Rightarrow> string option \<times> stream_reader" where
  "getline st =
     (if sr_failed st then (None, st)
      else case sr_lines st of
             [] \<Rightarrow> (None, st\<lparr>sr_failed := True\<rparr>)
           | l # ls \<Rightarrow> (Some l, st\<lparr>sr_lines := ls\<rparr>))"

function sr_generate ::
  "('p \<Rightarrow> string \<Rightarrow> (caf_error + nat) \<times> 'x list \<times> 'p) \<Rightarrow> nat \<Rightarrow> nat \<Rightarrow> 'p \<Rightarrow> stream_reader \<Rightarrow>
   'x list \<times> 'p \<times> stream_reader" where
  "sr_generate pol hint i p st =
     (if i < hint then
        case getline st of
          (None, st') \<Rightarrow> ([], p, st')
        | (Some line, st') \<Rightarrow>
            (case pol p line of
               (Inr count, out, p') \<Rightarrow>
                 (let (out', r) = sr_generate pol hint (i + count) p' st' in (out @ out', r))
             | (Inl err, out, p') \<Rightarrow>
                 (let (out', r) = sr_generate pol hint i p' (st'\<lparr>sr_quit := Some err\<rparr>) in (out @ out', r)))
      else ([], p, st))"
  by pat_completeness auto
termination
  by (relation "measure (\<lambda>(pol, hint, i, p, st). length (sr_lines st))")
    (auto simp: getline_def split: if_splits list.splits)

declare sr_generate.simps [simp del]

section \<open>Printing integers\<close>

fun show_nat :: "nat \<Rightarrow> string" where
  "show_nat n = (if n < 10 then [char_of (48 + n)] else show_nat (n div 10) @ [char_of (48 + n mod 10)])"

declare show_nat.simps [simp del]

definition show_int :: "int \<Rightarrow> string" where
  "show_int v = (if v < 0 then CHR ''-'' # show_nat (nat (- v)) else show_nat (nat v))"

text \<open>Integers separated by single spaces.\<close>

fun show_ints :: "int list \<Rightarrow> string" where
  "show_ints [] = []"
| "show_ints [v] = show_int v"
| "show_ints (v # w # vs) = show_int v @ CHR '' '' # show_ints (w # vs)"

lemma digit_char:
  assumes "d < 10"
  shows "is_digit (char_of (48 + d :: nat))" "digit_value (char_of (48 + d :: nat)) = int d"
proof -
  have "(of_char (char_of (48 + d) :: char) :: nat) = 48 + d" using assms by simp
  moreover have "(of_char (char_of (48 + d) :: char) :: int) = int (48 + d)"
    using calculation by (metis of_nat_of_char)
  ultimately show "is_digit (char_of (48 + d :: nat))" "digit_value (char_of (48 + d :: nat)) = int d"
    using assms by (simp_all add: is_digit_def digit_value_def)
qed

lemma show_nat_digits: "list_all is_digit (show_nat n) \<and> show_nat n \<noteq> [] \<and> digits_value (show_nat n) = int n"
proof (induction n rule: show_nat.induct)
  case (1 n)
  show ?case
  proof (cases "n < 10")
    case True
    then show ?thesis using digit_char [of n] by (subst (1 2 3) show_nat.simps) (simp add: digits_value_def)
  next
    case False
    have "10 * int (n div 10) + int (n mod 10) = int n" by (simp add: zdiv_int zmod_int)
    then show ?thesis
      using 1 [OF False] False digit_char [of "n mod 10"]
      by (subst (1 2 3) show_nat.simps) (simp add: digits_value_def)
  qed
qed

lemma takeWhile_digits:
  "list_all P ds \<Longrightarrow> rest = [] \<or> \<not> P (hd rest) \<Longrightarrow>
   takeWhile P (ds @ rest) = ds \<and> dropWhile P (ds @ rest) = rest"
  by (induction ds) (cases rest; auto)+

lemma not_digit: "\<not> is_digit CHR ''-''" "\<not> is_digit CHR ''+''" "\<not> is_digit CHR '' ''" "is_digit c \<Longrightarrow> \<not> is_space c"
  by (auto simp: is_digit_def is_space_def)

lemma strtoll_show_int:
  assumes "ll_min \<le> v" and "v \<le> ll_max" and "rest = [] \<or> hd rest = CHR '' ''"
  shows "strtoll (show_int v @ rest) = (v, rest, False)"
proof -
  let ?ds = "show_nat (nat \<bar>v\<bar>)"
  have ds: "list_all is_digit ?ds" "?ds \<noteq> []" "digits_value ?ds = \<bar>v\<bar>" using show_nat_digits [of "nat \<bar>v\<bar>"] by simp_all
  have r: "rest = [] \<or> \<not> is_digit (hd rest)" using assms(3) not_digit(3) by auto
  note t = takeWhile_digits [OF ds(1) r]
  obtain c cs where c: "?ds = c # cs" using ds(2) by (cases ?ds) auto
  have dc: "is_digit c" using ds(1) c by simp
  then have sc: "\<not> is_space c" "c \<noteq> CHR ''-''" "c \<noteq> CHR ''+''" using not_digit by auto
  have "strip_sign (dropWhile is_space (show_int v @ rest)) = (v < 0, ?ds @ rest)"
    using sc c not_digit by (auto simp: show_int_def strip_sign_def is_space_def)
  then show ?thesis using t ds assms(1,2) by (auto simp: strtoll_def Let_def)
qed

lemma show_int_head: "\<exists>c cs. show_int v = c # cs \<and> \<not> is_space c"
proof -
  obtain c cs where c: "show_nat (nat \<bar>v\<bar>) = c # cs" "is_digit c"
    using show_nat_digits [of "nat \<bar>v\<bar>"] by (cases "show_nat (nat \<bar>v\<bar>)") auto
  then show ?thesis using not_digit(4) by (auto simp: show_int_def is_space_def)
qed

lemma dropWhile_show_ints: "dropWhile is_space (show_ints (v # vs)) = show_ints (v # vs)"
  using show_int_head [of v] by (cases vs) auto

lemma read_loop_show_ints:
  assumes "\<forall>v \<in> set vs. lo \<le> v \<and> v \<le> hi" and "ll_min \<le> lo" and "hi \<le> ll_max"
  shows "read_loop lo hi False (show_ints vs) count out = (Inr (count + length vs), out @ vs, False)"
  using assms(1)
proof (induction vs arbitrary: count out rule: show_ints.induct)
  case 1
  then show ?case by (subst read_loop.simps) simp
next
  case (2 v)
  have "strtoll (show_int v) = (v, [], False)" using strtoll_show_int [of v "[]"] 2 assms by simp
  then show ?case
    using 2 show_int_head [of v] by (subst read_loop.simps) (auto simp: read_loop.simps [of lo hi False "[]"])
next
  case (3 v w vs)
  let ?r = "CHR '' '' # show_ints (w # vs)"
  have s: "strtoll (show_int v @ ?r) = (v, ?r, False)" using strtoll_show_int [of v ?r] 3(2) assms by simp
  have d: "dropWhile is_space ?r = show_ints (w # vs)" using dropWhile_show_ints by (simp add: is_space_def)
  show ?case
    using 3(1) [of "count + 1" "out @ [v]"] 3(2) s d by (subst read_loop.simps) simp
qed

lemma read_loop_bounds:
  assumes "read_loop lo hi erange s count out = (r, out', erange')"
  shows "\<exists>new. out' = out @ new \<and> (\<forall>v \<in> set new. lo \<le> v \<and> v \<le> hi) \<and> (\<forall>n. r = Inr n \<longrightarrow> n = count + length new)"
  using assms
proof (induction lo hi erange s count out rule: read_loop.induct)
  case (1 lo hi erange s count out)
  obtain v e x where t: "strtoll s = (v, e, x)" by (metis surj_pair)
  show ?case
  proof (cases "s = [] \<or> erange \<or> x \<or> lo > v \<or> v > hi \<or> (v = 0 \<and> \<not> (e = [] \<or> hd e = CHR '' ''))")
    case True
    then show ?thesis using 1(2) t by (subst (asm) read_loop.simps) (auto simp: Let_def split: if_splits)
  next
    case False
    then have "read_loop lo hi False (dropWhile is_space e) (count + 1) (out @ [v]) = (r, out', erange')"
      using 1(2) t by (subst (asm) read_loop.simps) (auto simp: Let_def)
    then obtain new where "out' = (out @ [v]) @ new" "\<forall>v \<in> set new. lo \<le> v \<and> v \<le> hi"
      "\<forall>n. r = Inr n \<longrightarrow> n = count + 1 + length new"
      using 1(1) [OF _ t [symmetric] refl refl] False by force
    then show ?thesis using False by (intro exI [of _ "v # new"]) auto
  qed
qed

section \<open>Sources deliver everything in order\<close>

lemma cs_push_loop_spec:
  "cs_pos st + n \<le> length (cs_xs st) \<Longrightarrow>
   cs_push_loop n st = (take n (drop (cs_pos st) (cs_xs st)), st\<lparr>cs_pos := cs_pos st + n\<rparr>)"
proof (induction n arbitrary: st)
  case (Suc n)
  then have "drop (cs_pos st) (cs_xs st) = cs_xs st ! cs_pos st # drop (cs_pos st + 1) (cs_xs st)"
    using Cons_nth_drop_Suc [of "cs_pos st" "cs_xs st"] by simp
  then show ?case using Suc by simp
qed simp

text \<open>Several calls of the generator.\<close>

fun cs_pull :: "nat list \<Rightarrow> 'x container_source \<Rightarrow> 'x list \<times> 'x container_source" where
  "cs_pull [] st = ([], st)"
| "cs_pull (h # hs) st = (let (out, st1) = cs_generate h st; (out', st2) = cs_pull hs st1 in (out @ out', st2))"

lemma cs_pull_spec:
  "cs_pos st \<le> length (cs_xs st) \<Longrightarrow>
   cs_pull hs st = (take (sum_list hs) (drop (cs_pos st) (cs_xs st)),
     st\<lparr>cs_pos := min (cs_pos st + sum_list hs) (length (cs_xs st))\<rparr>)"
proof (induction hs arbitrary: st)
  case Nil
  then show ?case by simp
next
  case (Cons h hs)
  let ?n = "min h (cs_remaining st)"
  have n: "cs_pos st + ?n \<le> length (cs_xs st)" using Cons.prems by (simp add: cs_remaining_def)
  have g: "cs_generate h st = (take ?n (drop (cs_pos st) (cs_xs st)), st\<lparr>cs_pos := cs_pos st + ?n\<rparr>)"
    using cs_push_loop_spec [OF n] by (simp add: cs_generate_def)
  let ?l = "drop (cs_pos st) (cs_xs st)"
  have t: "take ?n ?l @ take (sum_list hs) (drop (cs_pos st + ?n) (cs_xs st)) = take (h + sum_list hs) ?l"
    by (cases "h \<le> length ?l") (simp_all add: cs_remaining_def take_add add.commute)
  show ?case
    using Cons.IH [of "st\<lparr>cs_pos := cs_pos st + ?n\<rparr>"] n g t by (auto simp: cs_remaining_def)
qed

section \<open>Properties\<close>

lemma show_nat_no_null: "CHR 0x00 \<notin> set (show_nat n)"
  using show_nat_digits [of n] by (auto simp: list_all_iff is_digit_def)

lemma show_ints_c_str: "takeWhile (\<lambda>c. c \<noteq> CHR 0x00) (show_ints vs) = show_ints vs"
proof -
  have "CHR 0x00 \<notin> set (show_ints vs)"
    by (induction vs rule: show_ints.induct) (auto simp: show_int_def show_nat_no_null)
  then show ?thesis by (auto simp: takeWhile_eq_all_conv)
qed

text \<open>
  C28: The tokenized integer reader reads back what was printed: for a line of integers of the value type
  separated by spaces it pushes exactly these integers in order and returns their number.
\<close>

theorem reader_round_trip:
  assumes "\<forall>v \<in> set vs. lo \<le> v \<and> v \<le> hi" and "- (2 ^ 63) \<le> lo" and "hi \<le> 2 ^ 63 - 1"
  shows "tokenized_integer_reader lo hi False (show_ints vs) = (Inr (length vs), vs, False)"
  using read_loop_show_ints [OF assms, of 0 "[]"]
  by (simp add: tokenized_integer_reader_def show_ints_c_str)

theorem reader_round_trip_witness:
  "tokenized_integer_reader (- (2 ^ 31)) (2 ^ 31 - 1) False (show_ints [5, -17, 0]) = (Inr 3, [5, -17, 0], False)"
  using reader_round_trip [of "[5, -17, 0]" "- (2 ^ 31)" "2 ^ 31 - 1"] by simp

text \<open>
  Whatever the input, the reader terminates, pushes only values within the limits of the value type
  and returns the number of pushed values if it succeeds.
\<close>

lemma reader_bounds:
  "case tokenized_integer_reader lo hi erange line of (r, out, erange') \<Rightarrow>
     list_all (\<lambda>v. lo \<le> v \<and> v \<le> hi) out \<and> (case r of Inr n \<Rightarrow> n = length out | Inl _ \<Rightarrow> True)"
proof -
  obtain r out e where t: "tokenized_integer_reader lo hi erange line = (r, out, e)" by (metis surj_pair)
  then show ?thesis
    using read_loop_bounds [of lo hi erange _ 0 "[]" r out e]
    by (auto simp: tokenized_integer_reader_def list_all_iff split: sum.split)
qed

lemma digits_spaces: "dropWhile is_space (replicate n CHR '' '') = []"
  by (simp add: is_space_def)

lemma stale_erange_fails:
  assumes "s \<noteq> []"
  shows "\<exists>e. read_loop lo hi True s n out = (Inl e, out, True)"
proof -
  obtain v e r where "strtoll s = (v, e, r)" by (metis surj_pair)
  then show ?thesis using assms by (subst read_loop.simps) simp
qed

text \<open>
  A line that consists of spaces is not read as empty: the reader pushes a zero that is not in the
  input, because \<open>strtoll\<close> converts nothing and the character at the unmoved end is a space. And the
  state of \<open>errno\<close> before the call decides about the result: a stale \<open>ERANGE\<close> makes every line fail
  whose first character is not the null character.
\<close>

lemma blank_line_reads_zero:
  assumes "lo \<le> 0" and "0 \<le> hi"
  shows "tokenized_integer_reader lo hi False (replicate (Suc n) CHR '' '') = (Inr 1, [0], False) \<and>
    (c \<noteq> CHR 0x00 \<longrightarrow> (\<exists>e. tokenized_integer_reader lo hi True (c # line) = (Inl e, [], True)))"
proof
  have "strtoll (replicate (Suc n) CHR '' '') = (0, replicate (Suc n) CHR '' '', False)"
    using digits_spaces [of "Suc n"] by (simp add: strtoll_def strip_sign_def)
  then have "read_loop lo hi False (replicate (Suc n) CHR '' '') 0 [] = (Inr 1, [0], False)"
    using assms digits_spaces [of "Suc n"]
    by (subst read_loop.simps) (simp add: read_loop.simps [of lo hi False "[]"])
  moreover have "takeWhile (\<lambda>c. c \<noteq> CHR 0x00) (replicate (Suc n) CHR '' '') = replicate (Suc n) CHR '' ''"
    by (simp add: takeWhile_eq_all_conv del: replicate_Suc)
  ultimately show "tokenized_integer_reader lo hi False (replicate (Suc n) CHR '' '') = (Inr 1, [0], False)"
    by (simp add: tokenized_integer_reader_def del: replicate_Suc)
next
  show "c \<noteq> CHR 0x00 \<longrightarrow> (\<exists>e. tokenized_integer_reader lo hi True (c # line) = (Inl e, [], True))"
    using stale_erange_fails [of "c # takeWhile (\<lambda>c. c \<noteq> CHR 0x00) line" lo hi 0 "[]"]
    by (auto simp: tokenized_integer_reader_def)
qed

lemma blank_line_reads_zero_sample:
  "tokenized_integer_reader (- (2 ^ 31)) (2 ^ 31 - 1) False ''  '' = (Inr 1, [0], False) \<and>
   (\<exists>e. tokenized_integer_reader (- (2 ^ 31)) (2 ^ 31 - 1) True ''7'' = (Inl e, [], True))"
  using blank_line_reads_zero [of "- (2 ^ 31)" "2 ^ 31 - 1" 1 "CHR ''7''" "[]"] by simp

text \<open>
  A container source delivers its container: however the hints are chosen, the elements pushed so
  far are the prefix of the container of the requested length, and the source is at its end exactly
  if everything was pushed.
\<close>

lemma container_source_delivers:
  "case cs_pull hints (cs_init xs cs_new) of (out, st) \<Rightarrow>
     out = take (sum_list hints) xs \<and> (cs_at_end st \<longleftrightarrow> out = xs)"
  using cs_pull_spec [of "cs_init xs cs_new" hints]
  by (auto simp: cs_init_def cs_new_def cs_at_end_def)

end
