(* ===== verification/Enum_Strings.thy ===== *)
theory Enum_Strings
  imports Building_Blocks "HOL-Library.Sublist"
begin

text \<open>
  The generator for the string conversions of enumerations (\<open>cmake/caf-generate-enum-strings.cpp\<close>): it
  reads the header of an enumeration and writes the \<open>to_string\<close>, \<open>from_string\<close> and \<open>from_integer\<close>
  functions. The input file is the list of lines that successive calls of \<open>getline\<close> return, the output
  file is a string. Characters are ASCII.
\<close>

section \<open>Strings\<close>

text \<open>\<open>str.find(separator)\<close>.\<close>

fun find_pos :: "string \<Rightarrow> string \<Rightarrow> nat option" where
  "find_pos sep [] = (if sep = [] then Some 0 else None)"
| "find_pos sep (c # cs) = (if prefix sep (c # cs) then Some 0 else map_option Suc (find_pos sep cs))"

text \<open>\<open>split\<close> for the separator \<open>::\<close>, the only one it is called with.\<close>

function split_names :: "string \<Rightarrow> string list" where
  "split_names s =
     (case find_pos ''::'' s of
        None \<Rightarrow> [s]
      | Some i \<Rightarrow> take i s # split_names (drop (i + 2) s))"
  by pat_completeness auto

lemma find_pos_colons_less: "find_pos ''::'' s = Some i \<Longrightarrow> i < length s"
  by (induction s arbitrary: i) (auto split: if_splits)

termination split_names
  by (relation "measure length") (auto dest: find_pos_colons_less)

declare split_names.simps [simp del]

definition rstrip :: "string \<Rightarrow> string" where
  "rstrip s = rev (dropWhile is_space (rev s))"

definition trim :: "string \<Rightarrow> string" where
  "trim s = rstrip (dropWhile is_space s)"

definition starts_with :: "string \<Rightarrow> string \<Rightarrow> bool" where
  "starts_with s p \<longleftrightarrow> take (length p) s = p"

definition drop_prefix :: "string \<Rightarrow> string \<Rightarrow> string" where
  "drop_prefix s p = (if take (length p) s = p then drop (length p) s else s)"

definition is_name_char :: "char \<Rightarrow> bool" where
  "is_name_char c \<longleftrightarrow>
     is_digit c \<or> 65 \<le> (of_char c :: nat) \<and> (of_char c :: nat) \<le> 90 \<or>
     97 \<le> (of_char c :: nat) \<and> (of_char c :: nat) \<le> 122 \<or> c = CHR ''_''"

definition keep_alnum :: "string \<Rightarrow> string" where
  "keep_alnum s = takeWhile is_name_char s"

section \<open>Reading the header\<close>

datatype gen_error =
    Wrong_number_of_arguments
  | Unable_to_open_input
  | Unable_to_locate_enum
  | Outside_of_namespace
  | Empty_enum_name
  | Unable_to_read_values
  | Unable_to_open_output

text \<open>The namespaces that a line adds.\<close>

definition namespace_names :: "string \<Rightarrow> string list" where
  "namespace_names line =
     (let l = (if last line = CHR ''{'' then butlast line else line)
      in split_names (trim (dropWhile (\<lambda>c. c \<noteq> CHR '' '') l)))"

text \<open>The name in the line of an enumeration, and whether it is an \<open>enum class\<close>.\<close>

definition enum_line :: "string \<Rightarrow> string \<times> bool" where
  "enum_line line =
     (let l = drop_prefix line ''enum ''; cls = starts_with l ''class '';
          l = (if cls then drop_prefix l ''class '' else l)
      in (keep_alnum (trim l), cls))"

text \<open>The first loop: the namespaces, the name, the kind and the lines that are left.\<close>

fun locate_enum :: "string list \<Rightarrow> string list \<Rightarrow> (string list \<times> string \<times> bool \<times> string list) option" where
  "locate_enum namespaces [] = None"
| "locate_enum namespaces (l # ls) =
     (let line = trim l in
      if starts_with line ''enum '' then
        let (name, cls) = enum_line line in Some (namespaces, name, cls, ls)
      else if starts_with line ''namespace '' then locate_enum (namespaces @ namespace_names line) ls
      else locate_enum namespaces ls)"

text \<open>The second loop.\<close>

fun read_values :: "string list \<Rightarrow> string list \<Rightarrow> string list option" where
  "read_values vals [] = None"
| "read_values vals (l # ls) =
     (let line = trim l in
      if line = [] then read_values vals ls
      else if hd line = CHR ''}'' then Some vals
      else if hd line \<noteq> CHR ''/'' then read_values (vals @ [keep_alnum line]) ls
      else read_values vals ls)"

section \<open>Writing the conversions\<close>

abbreviation nl :: string where "nl \<equiv> [CHR 0x0A]"

definition quoted :: "string \<Rightarrow> string" where
  "quoted s = CHR 0x22 # s @ [CHR 0x22]"

definition file_header :: "string list \<Rightarrow> string \<Rightarrow> string" where
  "file_header namespaces name =
     ''// clang-format off'' @ nl @
     ''// DO NOT EDIT: this file is auto-generated by caf-generate-enum-strings.'' @ nl @
     ''// Run the target update-enum-strings if this file is out of sync.'' @ nl @
     ''#include '' @ quoted ''caf/config.hpp'' @ nl @
     ''#include '' @ quoted ''caf/string_view.hpp'' @ nl @ nl @
     ''CAF_PUSH_DEPRECATED_WARNING'' @ nl @ nl @
     ''#include '' @ quoted (hd namespaces @ concat (map (\<lambda>n. ''/'' @ n) (tl namespaces)) @ ''/'' @ name @ ''.hpp'') @ nl @ nl @
     ''#include <string>'' @ nl @ nl @
     concat (map (\<lambda>n. ''namespace '' @ n @ '' {'' @ nl) namespaces) @ nl"

definition to_string_text :: "string \<Rightarrow> string \<Rightarrow> string list \<Rightarrow> string" where
  "to_string_text label name vals =
     ''std::string to_string('' @ name @ '' x) {'' @ nl @ ''  switch(x) {'' @ nl @ ''    default:'' @ nl @
     ''      return '' @ quoted ''???'' @ '';'' @ nl @
     concat (map (\<lambda>v. ''    case '' @ label @ v @ '':'' @ nl @ ''      return '' @ quoted v @ '';'' @ nl) vals) @
     ''  };'' @ nl @ ''}'' @ nl @ nl"

definition from_string_text :: "string \<Rightarrow> string \<Rightarrow> string list \<Rightarrow> string" where
  "from_string_text label name vals =
     ''bool from_string(string_view in, '' @ name @ ''& out) {'' @ nl @ ''  '' @
     concat (map (\<lambda>v. ''if (in == '' @ quoted v @ '') {'' @ nl @ ''    out = '' @ label @ v @ '';'' @ nl @
       ''    return true;'' @ nl @ ''  } else '') vals) @
     ''{'' @ nl @ ''    return false;'' @ nl @ ''  }'' @ nl @ ''}'' @ nl @ nl"

definition from_integer_text :: "string \<Rightarrow> string \<Rightarrow> string list \<Rightarrow> string" where
  "from_integer_text label name vals =
     ''bool from_integer(std::underlying_type_t<'' @ name @ ''> in,'' @ nl @
     ''                  '' @ name @ ''& out) {'' @ nl @
     ''  auto result = static_cast<'' @ name @ ''>(in);'' @ nl @ ''  switch(result) {'' @ nl @ ''    default:'' @ nl @
     ''      return false;'' @ nl @
     concat (map (\<lambda>v. ''    case '' @ label @ v @ '':'' @ nl) vals) @
     ''      out = result;'' @ nl @ ''      return true;'' @ nl @ ''  };'' @ nl @ ''}'' @ nl @ nl"

definition file_footer :: "string list \<Rightarrow> string" where
  "file_footer namespaces =
     concat (map (\<lambda>n. ''} // namespace '' @ n @ nl) (rev namespaces)) @ nl @ ''CAF_POP_WARNINGS'' @ nl"

definition enum_strings_file :: "string list \<Rightarrow> string \<Rightarrow> bool \<Rightarrow> string list \<Rightarrow> string" where
  "enum_strings_file namespaces name cls vals =
     (let label = (if cls then name @ ''::'' else []) in
      file_header namespaces name @ to_string_text label name vals @ from_string_text label name vals @
      from_integer_text label name vals @ file_footer namespaces)"

text \<open>
  \<open>main\<close>: \<open>input\<close> are the lines of the input file if it can be opened, \<open>out_ok\<close> tells whether the output
  file can be opened.
\<close>

definition generate_enum_strings :: "nat \<Rightarrow> string list option \<Rightarrow> bool \<Rightarrow> gen_error + string" where
  "generate_enum_strings argc input out_ok =
     (if argc \<noteq> 3 then Inl Wrong_number_of_arguments
      else case input of
        None \<Rightarrow> Inl Unable_to_open_input
      | Some ls \<Rightarrow>
          (case locate_enum [] ls of
             None \<Rightarrow> Inl Unable_to_locate_enum
           | Some (namespaces, name, cls, rest) \<Rightarrow>
               if namespaces = [] then Inl Outside_of_namespace
               else if name = [] then Inl Empty_enum_name
               else
                 (case read_values [] rest of
                    None \<Rightarrow> Inl Unable_to_read_values
                  | Some vals \<Rightarrow>
                      if \<not> out_ok then Inl Unable_to_open_output
                      else Inr (enum_strings_file namespaces name cls vals))))"

section \<open>Headers of enumerations\<close>

text \<open>
  The layout of a header, independent of how the generator reads it: the namespace, the enumeration and
  the lines between its braces, which are blank, comments or enumerators with anything behind the name.
\<close>

datatype body_line =
    Blank string
  | Comment string string
  | Enumerator string string string

fun render_line :: "body_line \<Rightarrow> string" where
  "render_line (Blank sp) = sp"
| "render_line (Comment sp t) = sp @ CHR ''/'' # t"
| "render_line (Enumerator sp n r) = sp @ n @ r"

definition is_name :: "string \<Rightarrow> bool" where
  "is_name n \<longleftrightarrow> n \<noteq> [] \<and> list_all is_name_char n"

fun ends_name :: "string \<Rightarrow> bool" where
  "ends_name [] = True"
| "ends_name (c # _) = (\<not> is_name_char c)"

fun line_ok :: "body_line \<Rightarrow> bool" where
  "line_ok (Blank sp) = list_all is_space sp"
| "line_ok (Comment sp t) = list_all is_space sp"
| "line_ok (Enumerator sp n r) = (list_all is_space sp \<and> is_name n \<and> ends_name r)"

fun names_of :: "body_line list \<Rightarrow> string list" where
  "names_of [] = []"
| "names_of (Enumerator sp n r # bs) = n # names_of bs"
| "names_of (_ # bs) = names_of bs"

fun join_names :: "string list \<Rightarrow> string" where
  "join_names [] = []"
| "join_names [n] = n"
| "join_names (n # m # ns) = n @ ''::'' @ join_names (m # ns)"

definition namespace_line :: "string list \<Rightarrow> string" where
  "namespace_line ns = ''namespace '' @ join_names ns @ '' {''"

definition enum_head :: "bool \<Rightarrow> string \<Rightarrow> string \<Rightarrow> string" where
  "enum_head cls name behind = ''enum '' @ (if cls then ''class '' else []) @ name @ behind"

definition other_line :: "string \<Rightarrow> bool" where
  "other_line l \<longleftrightarrow> \<not> starts_with (trim l) ''enum '' \<and> \<not> starts_with (trim l) ''namespace ''"

section \<open>Trimming\<close>

lemma name_char_not_space: "is_name_char c \<Longrightarrow> \<not> is_space c"
  by (auto simp: is_name_char_def is_digit_def is_space_def)

lemma name_char_special: "\<not> is_name_char CHR '':''" "\<not> is_name_char CHR ''}''" "\<not> is_name_char CHR ''/''"
  by (simp_all add: is_name_char_def is_digit_def)

lemma rstrip_split: "\<exists>sp. s = rstrip s @ sp \<and> list_all is_space sp"
proof -
  have "rev s = takeWhile is_space (rev s) @ dropWhile is_space (rev s)" by simp
  then have "s = rstrip s @ rev (takeWhile is_space (rev s))"
    unfolding rstrip_def by (metis rev_append rev_rev_ident)
  moreover have "list_all is_space (rev (takeWhile is_space (rev s)))"
    by (auto simp: list_all_iff dest: set_takeWhileD)
  ultimately show ?thesis by blast
qed

lemma rstrip_append: "\<not> list_all is_space b \<Longrightarrow> rstrip (a @ b) = a @ rstrip b"
  by (auto simp: rstrip_def dropWhile_append list_all_iff)

lemma rstrip_Cons: "\<not> is_space c \<Longrightarrow> rstrip (c # s) = c # rstrip s"
  using rstrip_append [of "[c]" "[]"]
  by (cases "list_all is_space s") (auto simp: rstrip_def dropWhile_append list_all_iff)

lemma trim_spaces: "list_all is_space sp \<Longrightarrow> trim sp = []"
  by (auto simp: trim_def rstrip_def list_all_iff dest: set_dropWhileD)

lemma trim_Cons: "list_all is_space sp \<Longrightarrow> \<not> is_space c \<Longrightarrow> trim (sp @ c # s) = c # rstrip s"
  by (simp add: trim_def rstrip_Cons list_all_iff dropWhile_append)

lemma keep_alnum_rstrip: "keep_alnum (rstrip s) = keep_alnum s"
proof -
  obtain sp where sp: "s = rstrip s @ sp" "list_all is_space sp" using rstrip_split by blast
  have "takeWhile is_name_char sp = []"
    using sp(2) name_char_not_space by (cases sp) auto
  then have "takeWhile is_name_char (rstrip s @ sp) = takeWhile is_name_char (rstrip s)"
    by (auto simp: takeWhile_append takeWhile_eq_all_conv [THEN iffD2])
  then show ?thesis using sp(1) by (simp add: keep_alnum_def)
qed

lemma keep_alnum_name: "is_name n \<Longrightarrow> ends_name r \<Longrightarrow> keep_alnum (n @ r) = n"
  by (cases r) (auto simp: keep_alnum_def is_name_def list_all_iff)

lemma name_Cons: "is_name n \<Longrightarrow> \<exists>c cs. n = c # cs \<and> is_name_char c \<and> \<not> is_space c"
  using name_char_not_space by (cases n) (auto simp: is_name_def)

lemma keep_alnum_trim:
  assumes "list_all is_space sp" and "is_name n" and "ends_name r"
  shows "keep_alnum (trim (sp @ n @ r)) = n"
proof -
  obtain c cs where c: "n = c # cs" "\<not> is_space c" using name_Cons [OF assms(2)] by blast
  then have "trim (sp @ n @ r) = rstrip (n @ r)"
    using trim_Cons [OF assms(1), of c "cs @ r"] rstrip_Cons [of c "cs @ r"] by simp
  then show ?thesis using keep_alnum_rstrip keep_alnum_name [OF assms(2,3)] by simp
qed

section \<open>Reading well-formed headers\<close>

lemma read_values_lines:
  assumes "trim closing = CHR ''}'' # z"
  shows "list_all line_ok bs \<Longrightarrow>
    read_values vals (map render_line bs @ closing # rest) = Some (vals @ names_of bs)"
proof (induction bs arbitrary: vals)
  case Nil
  then show ?case using assms by simp
next
  case (Cons b bs)
  show ?case
  proof (cases b)
    case (Blank sp)
    then show ?thesis using Cons by (simp add: trim_spaces)
  next
    case (Comment sp t)
    then show ?thesis using Cons by (simp add: trim_Cons is_space_def)
  next
    case (Enumerator sp n r)
    then have ok: "list_all is_space sp" "is_name n" "ends_name r" using Cons.prems by auto
    obtain c cs where c: "n = c # cs" "is_name_char c" "\<not> is_space c" using name_Cons [OF ok(2)] by blast
    have "trim (sp @ n @ r) = c # rstrip (cs @ r)" using trim_Cons [OF ok(1) c(3), of "cs @ r"] c(1) by simp
    moreover have "c \<noteq> CHR ''}''" "c \<noteq> CHR ''/''" using c(2) name_char_special by auto
    ultimately show ?thesis
      using Cons Enumerator keep_alnum_trim [OF ok] by simp
  qed
qed

lemma find_pos_name:
  "list_all is_name_char n \<Longrightarrow> find_pos ''::'' (n @ ''::'' @ s) = Some (length n)"
  "list_all is_name_char n \<Longrightarrow> find_pos ''::'' n = None"
  using name_char_special by (induction n) auto

lemma split_join: "ns \<noteq> [] \<Longrightarrow> list_all is_name ns \<Longrightarrow> split_names (join_names ns) = ns"
proof (induction ns rule: join_names.induct)
  case (2 n)
  then show ?case using find_pos_name(2) by (simp add: split_names.simps [of n] is_name_def)
next
  case (3 n m ns)
  then show ?case using find_pos_name(1) [of n] by (subst split_names.simps) (simp add: is_name_def)
qed simp

lemma join_names_ends:
  assumes "ns \<noteq> []" and "list_all is_name ns"
  shows "\<exists>c cs. join_names ns = c # cs \<and> \<not> is_space c" and "\<not> is_space (last (join_names ns))"
  using assms
proof (induction ns rule: join_names.induct)
  case (2 n)
  { case 1 then show ?case using name_Cons [of n] by auto }
  { case 2 then show ?case
      using name_char_not_space last_in_set [of n] by (auto simp: is_name_def list_all_iff) }
next
  case (3 n m ns)
  { case 1 then show ?case using name_Cons [of n] by auto }
  { case 2 then show ?case using 3(1,2) by auto }
qed simp_all

lemma trim_id:
  assumes "s \<noteq> []" "\<not> is_space (hd s)" "\<not> is_space (last s)" "list_all is_space a" "list_all is_space b"
  shows "trim (a @ s @ b) = s"
proof -
  have "dropWhile is_space (a @ s @ b) = s @ b"
    using assms(1,2,4) by (cases s) (auto simp: list_all_iff dropWhile_append)
  moreover have "rstrip (s @ b) = s"
    using assms(1,3,5) by (cases s rule: rev_cases) (auto simp: rstrip_def list_all_iff dropWhile_append)
  ultimately show ?thesis by (simp add: trim_def)
qed

lemma namespace_names_line:
  assumes "ns \<noteq> []" and "list_all is_name ns"
  shows "trim (namespace_line ns) = namespace_line ns" and "namespace_names (namespace_line ns) = ns"
proof -
  note e = join_names_ends [OF assms]
  have sp: "is_space CHR '' ''" "\<not> is_space CHR ''{''" "\<not> is_space CHR ''n''" by (simp_all add: is_space_def)
  show "trim (namespace_line ns) = namespace_line ns"
    using trim_id [of "namespace_line ns" "[]" "[]"] sp by (simp add: namespace_line_def)
  have "trim ('' '' @ join_names ns @ '' '') = join_names ns"
    using e sp by (intro trim_id) auto
  then show "namespace_names (namespace_line ns) = ns"
    using split_join [OF assms] by (simp add: namespace_names_def namespace_line_def butlast_append)
qed

lemma enum_line_head:
  assumes "is_name name" and "ends_name behind" and "cls \<or> \<not> starts_with (name @ behind) ''class ''"
  shows "starts_with (trim (enum_head cls name behind)) ''enum ''"
    and "enum_line (trim (enum_head cls name behind)) = (name, cls)"
proof -
  obtain c cs where c: "name = c # cs" "\<not> is_space c" using name_Cons [OF assms(1)] by blast
  then have ns: "\<not> list_all is_space (name @ behind)" by simp
  have sp: "\<not> is_space CHR ''e''" by (simp add: is_space_def)
  have "trim (enum_head cls name behind) = rstrip (enum_head cls name behind)"
    using sp by (simp add: trim_def enum_head_def)
  also have "\<dots> = ''enum '' @ (if cls then ''class '' else []) @ rstrip (name @ behind)"
    using rstrip_append [OF ns, of "''enum '' @ (if cls then ''class '' else [])"] by (simp add: enum_head_def)
  finally have t: "trim (enum_head cls name behind) = \<dots>" .
  have "\<not> starts_with (rstrip (name @ behind)) ''class ''" if "\<not> cls"
  proof -
    obtain z where "name @ behind = rstrip (name @ behind) @ z" using rstrip_split by blast
    moreover have "starts_with (u @ v) p" if "starts_with u p" for u v p
      using that by (metis append_take_drop_id starts_with_def append.assoc append_eq_conv_conj)
    ultimately show ?thesis using assms(3) that by metis
  qed
  moreover have "keep_alnum (trim (rstrip (name @ behind))) = name"
  proof -
    have "trim (rstrip (name @ behind)) = rstrip (rstrip (name @ behind))"
      using rstrip_Cons [OF c(2), of "cs @ behind"] c(2) by (simp add: c(1) trim_def)
    then show ?thesis using keep_alnum_rstrip keep_alnum_name [OF assms(1,2)] by simp
  qed
  ultimately show "starts_with (trim (enum_head cls name behind)) ''enum ''"
    "enum_line (trim (enum_head cls name behind)) = (name, cls)"
    unfolding t by (simp_all add: enum_line_def starts_with_def drop_prefix_def)
qed

lemma locate_skips: "list_all other_line ls \<Longrightarrow> locate_enum ns (ls @ rest) = locate_enum ns rest"
  by (induction ls) (auto simp: other_line_def)

text \<open>The lines of \<open>operation.hpp\<close> from the namespace to the end of the enumeration.\<close>

definition operation_body :: "body_line list" where
  "operation_body =
     [Enumerator ''  '' ''none'' '' = 0x00,'', Enumerator ''  '' ''read'' '' = 0x01,'',
      Enumerator ''  '' ''write'' '' = 0x02,'', Enumerator ''  '' ''read_write'' '' = 0x03,'',
      Enumerator ''  '' ''shutdown'' '' = 0x04,'']"



end
