(* ===== verification/Framed_Streams.thy ===== *)
theory Framed_Streams
  imports Stream_Transport Length_Prefix WebSocket_Framing
begin

text \<open>
  The framing layers on a stream transport. TCP cuts a stream into arbitrary segments, the transport reads
  as many bytes as its buffer holds, and the layers consume what is complete. The interface \<open>chunked_consumer\<close>
  says when this cannot be noticed: the state of a layer is then the one after a single call of \<open>consume\<close>
  with all bytes that have arrived. Both framing layers offer it for applications that do not look at the
  transport below them.
\<close>

section \<open>A sequence of read events\<close>

text \<open>The multiplexer calls \<open>handle_read_event\<close> until it returns false.\<close>

fun read_events ::
  "'p io_parent \<Rightarrow> 'p stream_sys \<Rightarrow> ('u, 'p transport_stack) stream_upper \<Rightarrow> nat \<Rightarrow>
   'u \<Rightarrow> stream_transport \<Rightarrow> 'p \<Rightarrow> 'u \<times> 'p transport_stack \<times> outcome" where
  "read_events P S U 0 u t p = (u, (t, p), Returned True)"
| "read_events P S U (Suc n) u t p =
     (case st_handle_read_event P S U u t p of
        (u', (t', p'), Returned True) \<Rightarrow> read_events P S U n u' t' p'
      | r \<Rightarrow> r)"

text \<open>A transport that has not read anything.\<close>

definition unread_transport :: "stream_transport \<Rightarrow> bool" where
  "unread_transport t \<longleftrightarrow>
     offset t = 0 \<and> delta_offset t = 0 \<and> 0 < max_read_size t \<and> min_read_size t \<le> max_read_size t"

lemma unread_transport_inv: "unread_transport t \<Longrightarrow> reader_inv t" "unread_transport t \<Longrightarrow> pending_input t = []"
  by (auto simp: unread_transport_def reader_inv_def pending_input_def word_less_nat_alt simp del: of_nat_unat)

context stream_consumer
begin

lemma read_events_intact:
  assumes "reads_well S recvd"
  shows "reader_inv t \<Longrightarrow> ok u xs (pending_input t) (min_read_size t) (max_read_size t) \<Longrightarrow>
    recvd p = xs @ pending_input t \<Longrightarrow> input_intact U recvd ok (read_events P S U n u t p)"
proof (induction n arbitrary: u xs t p)
  case 0
  then show ?case by (auto simp: input_intact_def)
next
  case (Suc n)
  obtain u' t' p' out where r: "st_handle_read_event P S U u t p = (u', (t', p'), out)" by (metis surj_pair)
  have one: "input_intact U recvd ok (u', (t', p'), out)"
    using handle_read_event_intact [OF assms Suc.prems, of P] r by simp
  show ?case
  proof (cases "out = Returned True")
    case True
    with one obtain xs' where "reader_inv t'" "ok u' xs' (pending_input t') (min_read_size t') (max_read_size t')"
      "recvd p' = xs' @ pending_input t'"
      by (auto simp: input_intact_def)
    from Suc.IH [OF this] show ?thesis using r True by simp
  next
    case False
    then show ?thesis using one r by (auto split: outcome.split bool.split)
  qed
qed

end

text \<open>
  A socket of a peer that has sent \<open>feed\<close> and leaves the connection open: the bytes arrive in order, in segments
  of any size, with pauses in between. \<open>pace\<close> bounds the number of segments and pauses that are left.
\<close>

definition feeds :: "'p stream_sys \<Rightarrow> ('p \<Rightarrow> byte list) \<Rightarrow> ('p \<Rightarrow> nat) \<Rightarrow> bool" where
  "feeds S feed pace \<longleftrightarrow>
     (\<forall>n p. 0 < n \<longrightarrow>
        (case sys_read S n p of
           (p', Read_some bs) \<Rightarrow> feed p = bs @ feed p' \<and> pace p' < pace p
         | (p', Read_failed temporary) \<Rightarrow>
             temporary \<and> feed p' = feed p \<and> pace p' \<le> pace p \<and> (feed p \<noteq> [] \<longrightarrow> pace p' < pace p)
         | (p', Read_closed) \<Rightarrow> False))"

lemma feeds_some:
  assumes "feeds S feed pace" and "0 < n" and "sys_read S n p = (p', Read_some bs)"
  shows "feed p = bs @ feed p'" "pace p' < pace p"
  using assms(1) [unfolded feeds_def, rule_format, OF assms(2), of p] assms(3) by simp_all

lemma feeds_pause:
  assumes "feeds S feed pace" and "0 < n" and "sys_read S n p = (p', Read_failed temporary)"
  shows "temporary" "feed p' = feed p" "pace p' \<le> pace p" "feed p \<noteq> [] \<Longrightarrow> pace p' < pace p"
  using assms(1) [unfolded feeds_def, rule_format, OF assms(2), of p] assms(3) by simp_all

lemma feeds_open:
  assumes "feeds S feed pace" and "0 < n"
  shows "sys_read S n p \<noteq> (p', Read_closed)"
  using assms(1) [unfolded feeds_def, rule_format, OF assms(2), of p] by auto

text \<open>What \<open>n\<close> attempts to read achieve.\<close>

definition progress :: "('p \<Rightarrow> byte list) \<Rightarrow> ('p \<Rightarrow> nat) \<Rightarrow> nat \<Rightarrow> 'p \<Rightarrow> 'p \<Rightarrow> bool" where
  "progress feed pace n p p' \<longleftrightarrow>
     (feed p = [] \<longrightarrow> feed p' = []) \<and> pace p' \<le> pace p \<and> (0 < n \<longrightarrow> feed p = [] \<or> pace p' < pace p)"

context stream_consumer
begin

text \<open>An upper layer that accepts the bytes of \<open>W\<close> and goes on reading is never told to abort.\<close>

definition accepts :: "byte list \<Rightarrow> ('p \<Rightarrow> byte list) \<Rightarrow> ('p \<Rightarrow> nat) \<Rightarrow> bool" where
  "accepts W feed pace \<longleftrightarrow>
     (\<forall>u xs ys bs delta t p u' t' p' k. ok u xs ys (min_read_size t) (max_read_size t) \<longrightarrow>
        length (ys @ bs) \<le> unat (max_read_size t) \<longrightarrow> extends (xs @ ys @ bs) W \<longrightarrow> su_consume U (ys @ bs) delta u (t, p) = (u', (t', p'), k) \<longrightarrow>
        0 \<le> k \<and> max_read_size t' \<noteq> 0 \<and> feed p' = feed p \<and> pace p' = pace p)"

lemma accepted_call:
  assumes st: "in_step u xs t p" "max_read_size t \<noteq> 0" and acc: "accepts W feed pace"
    and bs: "length bs \<le> unat (max_read_size t) - nat (offset t)" "recvd p1 = recvd p @ bs" "recvd p1 @ feed p1 = W"
    and t1: "t1 = t\<lparr>read_buf := overwrite (nat (offset t)) bs (read_buf t), offset := offset t + int (length bs)\<rparr>"
    and call: "su_consume U (take (nat (offset t1)) (read_buf t1)) delta u (t1, p1) = (u', (t', p'), k)"
  shows "0 \<le> k" "max_read_size (st_fit (st_shift k t')) \<noteq> 0"
    "max_consecutive_reads (st_fit (st_shift k t')) = max_consecutive_reads t"
    "feed p' = feed p1" "pace p' = pace p1" "recvd p' @ feed p' = W"
proof -
  have b: "take (nat (offset t1)) (read_buf t1) = pending_input t @ bs"
    using arrived(1) [OF st bs(1) t1] by (simp only: pending_input_def)
  have now: "ok u xs (pending_input t) (min_read_size t1) (max_read_size t1)" "recvd p = xs @ pending_input t"
    using st(1) by (simp_all add: in_step_def t1)
  have room: "length (pending_input t @ bs) \<le> unat (max_read_size t1)" by (rule arrived_room [OF st bs(1) t1])
  have "extends (xs @ pending_input t @ bs) W" using bs(2,3) now(2) by (auto simp: extends_def)
  then have k: "0 \<le> k" "max_read_size t' \<noteq> 0" "feed p' = feed p1" "pace p' = pace p1"
    using acc [unfolded accepts_def, rule_format, OF now(1) room _ call [unfolded b]] by simp_all
  have i: "same_input t1 t'" "recvd p' = recvd p1" using consume_keeps [OF now(1) room call [unfolded b]] by simp_all
  show "0 \<le> k" "feed p' = feed p1" "pace p' = pace p1" by (rule k)+
  show "max_read_size (st_fit (st_shift k t')) \<noteq> 0"
    "max_consecutive_reads (st_fit (st_shift k t')) = max_consecutive_reads t"
    using k(2) i(1) by (simp_all add: st_fit_def st_shift_def same_input_def t1)
  show "recvd p' @ feed p' = W" using bs(3) k(3) i(2) by simp
qed

lemma read_loop_alive:
  assumes S: "reads_well S recvd" and feed: "feeds S feed pace" and acc: "accepts W feed pace"
  shows "in_step u xs t p \<Longrightarrow> max_read_size t \<noteq> 0 \<Longrightarrow> recvd p @ feed p = W \<Longrightarrow>
    \<exists>u' xs' t' p'. read_loop P S U n u t p = (u', (t', p'), Returned True) \<and>
      in_step u' xs' t' p' \<and> max_read_size t' \<noteq> 0 \<and> max_consecutive_reads t' = max_consecutive_reads t \<and>
      recvd p' @ feed p' = W \<and> progress feed pace n p p'"
proof (induction n arbitrary: u xs t p)
  case 0
  then show ?case by (auto simp: word_neq_0_conv progress_def)
next
  case (Suc n)
  let ?n = "unat (max_read_size t) - nat (offset t)"
  obtain p1 r where r: "sys_read S ?n p = (p1, r)" by (cases "sys_read S ?n p")
  have inv: "reader_inv t" and space: "unat (max_read_size t) \<le> length (read_buf t)"
    using Suc.prems(1,2) by (simp_all add: in_step_def)
  have pos: "0 < ?n" using inv Suc.prems(2) by (auto simp: reader_inv_def simp del: of_nat_unat)
  note eq = read_loop_reads [OF inv space Suc.prems(2) r, of P U n u]
  show ?case
  proof (cases r)
    case (Read_some bs)
    note bs = reads_wellD [OF S r [unfolded Read_some]] and got = feeds_some [OF feed pos r [unfolded Read_some]]
    let ?t1 = "t\<lparr>read_buf := overwrite (nat (offset t)) bs (read_buf t), offset := offset t + int (length bs)\<rparr>"
    let ?bytes = "take (nat (offset ?t1)) (read_buf ?t1)"
    obtain u' t' p' k
      where call: "su_consume U ?bytes (drop (nat (delta_offset ?t1)) ?bytes) u (?t1, p1) = (u', (t', p'), k)"
      by (metis surj_pair)
    have W: "recvd p1 @ feed p1 = W" using Suc.prems(3) bs(3) got(1) by simp
    have next_read: "progress feed pace (Suc n) p q" if "progress feed pace n p1 q" for q
      using that got bs(1) by (auto simp: progress_def)
    note eq = eq [unfolded Read_some read_result.case Let_def, unfolded call prod.case]
    show ?thesis
    proof (cases "offset ?t1 < int (unat (min_read_size ?t1))")
      case True
      from Suc.IH [OF in_step_wait [OF Suc.prems(1,2) bs(2,3) refl True] _ W] Suc.prems(2) show ?thesis
        unfolding eq if_P [OF True] using next_read by fastforce
    next
      case False
      note k = accepted_call [OF Suc.prems(1,2) acc bs(2,3) W refl call]
      have "progress feed pace n p' q = progress feed pace n p1 q" for q using k(4,5) by (simp add: progress_def)
      with Suc.IH [OF in_step_consume [OF Suc.prems(1,2) bs(2,3) refl call k(1)] k(2,6)] show ?thesis
        using k(1,3) next_read unfolding eq if_not_P [OF False] by fastforce
    qed
  next
    case (Read_failed temporary)
    note pause = feeds_pause [OF feed pos r [unfolded Read_failed]]
    have "in_step u xs t p1" "recvd p1 = recvd p"
      using Suc.prems(1) reads_well_none [OF S r] Read_failed by (simp_all add: in_step_def)
    then show ?thesis unfolding eq using Read_failed pause Suc.prems(2,3) by (auto simp: progress_def)
  qed (use feeds_open [OF feed pos] r in simp)
qed

text \<open>Once there were more read events than segments and pauses, all bytes have arrived.\<close>

lemma read_events_alive:
  assumes S: "reads_well S recvd" and feed: "feeds S feed pace" and acc: "accepts W feed pace"
  shows "reader_inv t \<Longrightarrow> max_read_size t \<noteq> 0 \<Longrightarrow> ok u xs (pending_input t) (min_read_size t) (max_read_size t) \<Longrightarrow>
    recvd p = xs @ pending_input t \<Longrightarrow> recvd p @ feed p = W \<Longrightarrow> max_consecutive_reads t \<noteq> 0 \<Longrightarrow>
    \<exists>u' xs' t' p'. read_events P S U n u t p = (u', (t', p'), Returned True) \<and> recvd p' @ feed p' = W \<and>
      ok u' xs' (pending_input t') (min_read_size t') (max_read_size t') \<and> recvd p' = xs' @ pending_input t' \<and>
      (feed p = [] \<longrightarrow> feed p' = []) \<and> (pace p < n \<longrightarrow> feed p' = [])"
proof (induction n arbitrary: u xs t p)
  case 0
  then show ?case by auto
next
  case (Suc n)
  let ?t = "if length (read_buf t) < unat (max_read_size t)
            then t\<lparr>read_buf := resize (unat (max_read_size t)) (read_buf t)\<rparr> else t"
  have "reader_inv ?t" "pending_input ?t = pending_input t"
    using Suc.prems(1) by (auto simp: reader_inv_def pending_input_def take_resize)
  then have "in_step u xs ?t p" using Suc.prems(3,4) by (simp add: in_step_def)
  moreover have "max_read_size ?t \<noteq> 0" "max_consecutive_reads ?t = max_consecutive_reads t" using Suc.prems(2) by simp_all
  ultimately obtain u' xs' t' p' where r: "st_handle_read_event P S U u t p = (u', (t', p'), Returned True)"
    and st: "in_step u' xs' t' p'" "max_read_size t' \<noteq> 0" "recvd p' @ feed p' = W"
      "max_consecutive_reads t' = max_consecutive_reads t" "progress feed pace (unat (max_consecutive_reads t)) p p'"
    using read_loop_alive [OF S feed acc _ _ Suc.prems(5), of u xs ?t P "unat (max_consecutive_reads ?t)"]
    unfolding st_handle_read_event_def Let_def by metis
  have "0 < unat (max_consecutive_reads t)" using Suc.prems(6) by (simp add: unat_gt_0)
  with st(5) have "feed p = [] \<longrightarrow> feed p' = []" "feed p = [] \<or> pace p' < pace p" by (auto simp: progress_def)
  with Suc.IH [of t' u' xs' p'] st Suc.prems(6) show ?case by (fastforce simp: r in_step_def)
qed

end

section \<open>Layers that do not depend on the segmentation\<close>

text \<open>
  \<open>run xs s\<close> is the effect of one call of \<open>consume\<close> on the part \<open>s\<close> of the state that does not depend on the
  segmentation, with the number of bytes consumed. What a call leaves behind is the start of the next one.
  The layer keeps its own records of the receive policy in \<open>cfg\<close>.
\<close>

locale chunked_consumer =
  fixes U :: "('v, 'p transport_stack) stream_upper"
    and recvd :: "'p \<Rightarrow> byte list"
    and state :: "'v \<Rightarrow> 's"
    and cfg :: "'v \<Rightarrow> u32 \<Rightarrow> u32 \<Rightarrow> bool"
    and run :: "byte list \<Rightarrow> 's \<Rightarrow> 's \<times> int"
    and s0 :: 's
  assumes consume_run: "cfg v (min_read_size t) (max_read_size t) \<Longrightarrow> length bytes \<le> unat (max_read_size t) \<Longrightarrow>
      su_consume U bytes delta v (t, p) = (v', (t', p'), k) \<Longrightarrow> run bytes (state v) = (state v', k)"
    and consume_input: "cfg v (min_read_size t) (max_read_size t) \<Longrightarrow> length bytes \<le> unat (max_read_size t) \<Longrightarrow>
      su_consume U bytes delta v (t, p) = (v', (t', p'), k) \<Longrightarrow> same_input t t' \<and> recvd p' = recvd p"
    and consume_cfg: "cfg v (min_read_size t) (max_read_size t) \<Longrightarrow> length bytes \<le> unat (max_read_size t) \<Longrightarrow>
      su_consume U bytes delta v (t, p) = (v', (t', p'), int n) \<Longrightarrow>
      cfg v' (min_read_size t') (max_read_size t') \<and> min_read_size t' \<le> max_read_size t' \<and>
      length (drop n bytes) < unat (max_read_size t')"
    and consume_idle: "cfg v (min_read_size t) (max_read_size t) \<Longrightarrow> length bytes \<le> unat (max_read_size t) \<Longrightarrow>
      su_consume U bytes delta v (t, p) = (v', (t', p'), int n) \<Longrightarrow>
      length (drop n bytes @ bs) < unat (min_read_size t') \<Longrightarrow> run (drop n bytes @ bs) (state v') = (state v', 0)"
    and run_Nil: "run [] s = (s, 0)"
    and run_le: "run xs s = (s', int n) \<Longrightarrow> n \<le> length xs"
    and run_append: "run xs s = (s', int n) \<Longrightarrow>
      run (xs @ ys) s = (let (s2, r) = run (drop n xs @ ys) s' in (s2, if r < 0 then r else r + int n))"
    and run_reject: "run xs s = (s', r) \<Longrightarrow> r < 0 \<Longrightarrow> snd (run (xs @ ys) s) < 0"
begin

definition caught_up :: "'v \<Rightarrow> byte list \<Rightarrow> byte list \<Rightarrow> u32 \<Rightarrow> u32 \<Rightarrow> bool" where
  "caught_up v xs ys lo hi \<longleftrightarrow>
     cfg v lo hi \<and> run (xs @ ys) s0 = (state v, int (length xs)) \<and>
     (\<forall>bs. length (ys @ bs) < unat lo \<longrightarrow> run (ys @ bs) (state v) = (state v, 0))"

lemma caught_up_run:
  assumes "caught_up v xs ys lo hi" and "run (ys @ bs) (state v) = (s', int k)"
  shows "run ((xs @ take k (ys @ bs)) @ drop k (ys @ bs)) s0 = (s', int (length (xs @ take k (ys @ bs))))"
proof -
  have "run ((xs @ ys) @ bs) s0 = (s', int k + int (length xs))"
    using run_append [of "xs @ ys" s0 "state v" "length xs" bs] assms by (simp add: caught_up_def)
  then show ?thesis using run_le [OF assms(2)] by (simp only: append.assoc append_take_drop_id) simp
qed

lemma caught_up_consumer: "stream_consumer U recvd caught_up"
proof
  fix v xs ys lo hi bs
  assume v: "caught_up v xs ys lo hi" and len: "length (ys @ bs) < unat lo"
  then have "run (ys @ bs) (state v) = (state v, int 0)" by (simp add: caught_up_def)
  from caught_up_run [OF v this] show "caught_up v xs (ys @ bs) lo hi"
    using v by (simp add: caught_up_def)
next
  fix v xs ys t bs delta p v' t' p' k
  assume v: "caught_up v xs ys (min_read_size t) (max_read_size t)" and room: "length (ys @ bs) \<le> unat (max_read_size t)"
    and call: "su_consume U (ys @ bs) delta v (t, p) = (v', (t', p'), k)"
  have c: "cfg v (min_read_size t) (max_read_size t)" using v by (simp add: caught_up_def)
  note run = consume_run [OF c room call]
  show "same_input t t' \<and> recvd p' = recvd p" by (rule consume_input [OF c room call])
  assume "0 \<le> k"
  then obtain n where n: "k = int n" by (metis nonneg_int_cases)
  note cfg = consume_cfg [OF c room call [unfolded n]] and idle = consume_idle [OF c room call [unfolded n]]
  show le: "k \<le> int (length (ys @ bs))" using run_le [OF run [unfolded n]] n by simp
  show "caught_up v' (xs @ take (nat k) (ys @ bs)) (drop (nat k) (ys @ bs)) (min_read_size t') (max_read_size t')"
    using caught_up_run [OF v run [unfolded n]] cfg idle n by (simp add: caught_up_def)
  show "max_read_size t' = 0 \<or>
      int (length (ys @ bs)) - k < int (unat (max_read_size t')) \<and> min_read_size t' \<le> max_read_size t'"
    using cfg le n by (simp del: of_nat_unat) linarith
qed

end

sublocale chunked_consumer \<subseteq> consumer: stream_consumer U recvd caught_up
  by (rule caught_up_consumer)

context chunked_consumer
begin

lemma accepts_input:
  assumes "0 \<le> snd (run W s0)"
    and keep: "\<And>v t bytes delta p v' t' p' k. cfg v (min_read_size t) (max_read_size t) \<Longrightarrow> length bytes \<le> unat (max_read_size t) \<Longrightarrow>
      su_consume U bytes delta v (t, p) = (v', (t', p'), k) \<Longrightarrow> feed p' = feed p \<and> pace p' = pace p"
  shows "consumer.accepts W feed pace"
  unfolding consumer.accepts_def
proof (intro allI impI)
  fix v xs ys bs delta t p v' t' p' k
  assume v: "caught_up v xs ys (min_read_size t) (max_read_size t)" and room: "length (ys @ bs) \<le> unat (max_read_size t)"
    and W: "extends (xs @ ys @ bs) W"
    and call: "su_consume U (ys @ bs) delta v (t, p) = (v', (t', p'), k)"
  have c: "cfg v (min_read_size t) (max_read_size t)" using v by (simp add: caught_up_def)
  from W have "W = (xs @ ys @ bs) @ drop (length (xs @ ys @ bs)) W" by (metis extends_def append_take_drop_id)
  then obtain zs where zs: "W = ((xs @ ys) @ bs) @ zs" by auto
  have "\<not> k < 0"
  proof
    assume k: "k < 0"
    have "run ((xs @ ys) @ bs) s0 = (state v', k)"
      using run_append [of "xs @ ys" s0 "state v" "length xs" bs] v consume_run [OF c room call] k by (simp add: caught_up_def)
    from run_reject [OF this k, of zs] show False using assms(1) unfolding zs by simp
  qed
  moreover from this obtain n where "k = int n" by (metis linorder_not_less nonneg_int_cases)
  ultimately show "0 \<le> k \<and> max_read_size t' \<noteq> 0 \<and> feed p' = feed p \<and> pace p' = pace p"
    using consume_cfg [OF c room, of delta p v' t' p' n] call keep [OF c room call] by auto
qed

text \<open>A layer on a new connection, before anything has arrived.\<close>

definition idle :: "'v \<Rightarrow> stream_transport \<Rightarrow> 'p \<Rightarrow> bool" where
  "idle v t p \<longleftrightarrow>
     unread_transport t \<and> recvd p = [] \<and> cfg v (min_read_size t) (max_read_size t) \<and> state v = s0 \<and>
     (\<forall>bs. length bs < unat (min_read_size t) \<longrightarrow> run bs s0 = (s0, 0))"

lemma idle_caught_up:
  assumes "idle v t p"
  shows "reader_inv t" "max_read_size t \<noteq> 0" "caught_up v [] (pending_input t) (min_read_size t) (max_read_size t)"
    "recvd p = [] @ pending_input t"
proof -
  have t: "unread_transport t" using assms by (simp add: idle_def)
  with run_Nil show "reader_inv t" "max_read_size t \<noteq> 0"
    "caught_up v [] (pending_input t) (min_read_size t) (max_read_size t)" "recvd p = [] @ pending_input t"
    using assms unread_transport_inv [OF t] by (auto simp: caught_up_def idle_def unread_transport_def)
qed

text \<open>
  However the bytes arrive, the state after any number of read events is the one after a single call with
  all of them, unless the connection was aborted.
\<close>

lemma read_events_run:
  assumes "reads_well S recvd" and "idle v t p" and r: "read_events P S U n v t p = (v', (t', p'), out)"
  shows "out \<noteq> Out_of_bounds"
    and "out = Returned True \<Longrightarrow> run (recvd p') s0 = (state v', int (length (recvd p') - length (pending_input t')))"
proof -
  have i: "input_intact U recvd caught_up (v', (t', p'), out)"
    using consumer.read_events_intact [OF assms(1) idle_caught_up(1,3,4) [OF assms(2)], of P n] r by simp
  then show "out \<noteq> Out_of_bounds" by (simp add: input_intact_def)
  assume "out = Returned True"
  with i show "run (recvd p') s0 = (state v', int (length (recvd p') - length (pending_input t')))"
    by (auto simp: input_intact_def caught_up_def)
qed

text \<open>
  When the peer sends nothing but input that the layer accepts as a whole, the connection stays up, and the
  layer ends in the state after a single call with all of it.
\<close>

lemma read_events_complete:
  assumes "reads_well S recvd" and "feeds S feed pace" and "idle v t p" and "max_consecutive_reads t \<noteq> 0"
    and "run (feed p) s0 = (s', int (length (feed p)))" and "pace p < n"
    and "\<And>v t bytes delta p v' t' p' k. cfg v (min_read_size t) (max_read_size t) \<Longrightarrow> length bytes \<le> unat (max_read_size t) \<Longrightarrow>
      su_consume U bytes delta v (t, p) = (v', (t', p'), k) \<Longrightarrow> feed p' = feed p \<and> pace p' = pace p"
  shows "\<exists>v' t' p'. read_events P S U n v t p = (v', (t', p'), Returned True) \<and> state v' = s' \<and>
    recvd p' = feed p \<and> pending_input t' = []"
proof -
  have acc: "consumer.accepts (feed p) feed pace" using assms(5) by (intro accepts_input assms(7)) simp_all
  have "recvd p = []" using assms(3) by (simp add: idle_def)
  with consumer.read_events_alive [OF assms(1,2) acc idle_caught_up [OF assms(3)], of P n] assms(4,6)
  obtain v' xs' t' p' where r: "read_events P S U n v t p = (v', (t', p'), Returned True)" "recvd p' = feed p"
    "caught_up v' xs' (pending_input t') (min_read_size t') (max_read_size t')" "recvd p' = xs' @ pending_input t'"
    by auto
  then have "run (feed p) s0 = (state v', int (length xs'))" by (simp add: caught_up_def)
  with assms(5) have "state v' = s'" and "length xs' = length (feed p)" by simp_all
  moreover have "length xs' + length (pending_input t') = length (feed p)" using r(2,4) by (metis length_append)
  ultimately show ?thesis using r(1,2) by auto
qed

end

section \<open>Applications that do not look at the transport\<close>

text \<open>The input side of the transport and the bytes received so far stay as they are.\<close>

definition keeps_reading :: "('p \<Rightarrow> 'h) \<Rightarrow> 'p transport_stack \<Rightarrow> 'p transport_stack \<Rightarrow> bool" where
  "keeps_reading recvd d d' \<longleftrightarrow>
     same_input (fst d) (fst d') \<and> min_read_size (fst d') = min_read_size (fst d) \<and>
     max_read_size (fst d') = max_read_size (fst d) \<and> recvd (snd d') = recvd (snd d)"

lemma keeps_reading_refl [simp]: "keeps_reading recvd d d"
  by (simp add: keeps_reading_def same_input_def)

lemma keeps_reading_trans: "keeps_reading recvd d d' \<Longrightarrow> keeps_reading recvd d' d'' \<Longrightarrow> keeps_reading recvd d d''"
  by (simp add: keeps_reading_def same_input_def)

text \<open>The ghost of the received bytes is out of reach for the parent, too.\<close>

definition parent_keeps :: "'p io_parent \<Rightarrow> ('p \<Rightarrow> 'h) \<Rightarrow> bool" where
  "parent_keeps P recvd \<longleftrightarrow>
     (\<forall>p. recvd (register_reading P p) = recvd p) \<and> (\<forall>p. recvd (register_writing P p) = recvd p) \<and>
     (\<forall>e p. recvd (parent_set_abort_reason P e p) = recvd p)"

lemma transport_keeps_reading:
  assumes "parent_keeps P recvd"
  shows "keeps_reading recvd d (set_abort_reason (make_stream_oriented_layer_ptr P) e d)"
    "keeps_reading recvd d (write_output (make_stream_oriented_layer_ptr P) b d)"
    "keeps_reading recvd d (begin_output (make_stream_oriented_layer_ptr P) d)"
    "keeps_reading recvd d (append_output (make_stream_oriented_layer_ptr P) g d)"
  using assms
  by (auto simp: parent_keeps_def keeps_reading_def same_input_def make_stream_oriented_layer_ptr_def
      st_begin_output_def append_output_def Let_def split: prod.splits)

lemma configure_keeps_input:
  assumes "parent_keeps P recvd"
    and "configure_read (make_stream_oriented_layer_ptr P) pol (t, p) = (t', p')"
  shows "same_input t t'" "recvd p' = recvd p" "min_read_size t' = min_size pol" "max_read_size t' = max_size pol"
  using assms by (auto simp: parent_keeps_def same_input_def make_stream_oriented_layer_ptr_def st_configure_read_def)

text \<open>
  What an application does with a message does not depend on the layers below the framing layer, and it
  leaves their input side alone. This is what the layer pointer allows, apart from \<open>can_send_more\<close>
  and \<open>abort_reason\<close>.
\<close>

definition outcome3 :: "'u \<times> ('f \<times> 'd) \<times> 'r \<Rightarrow> 'u \<times> 'f \<times> 'r" where
  "outcome3 = (\<lambda>(u, (f, d), r). (u, f, r))"

definition lower3 :: "'u \<times> ('f \<times> 'd) \<times> 'r \<Rightarrow> 'd" where
  "lower3 = (\<lambda>(u, (f, d), r). d)"

definition outcome4 :: "'u \<times> 'f \<times> 'd \<times> 'r \<Rightarrow> 'u \<times> 'f \<times> 'r" where
  "outcome4 = (\<lambda>(u, f, d, r). (u, f, r))"

definition lower4 :: "'u \<times> 'f \<times> 'd \<times> 'r \<Rightarrow> 'd" where
  "lower4 = (\<lambda>(u, f, d, r). d)"

lemmas outcome_defs = outcome3_def lower3_def outcome4_def lower4_def

definition blind_app :: "('p \<Rightarrow> 'h) \<Rightarrow> ('u, ('g, 'p transport_stack) framing_stack) mixed_upper \<Rightarrow> bool" where
  "blind_app recvd U \<longleftrightarrow>
     (\<forall>m u f d d2. outcome3 (deliver_message U m u (f, d)) = outcome3 (deliver_message U m u (f, d2))) \<and>
     (\<forall>m u f d. keeps_reading recvd d (lower3 (deliver_message U m u (f, d))))"

text \<open>What is left when a counter of consumed bytes starts \<open>n\<close> bytes later.\<close>

lemma counter_shift: "int (c + n) \<le> r \<Longrightarrow> int c \<le> r \<and> drop (nat r - (c + n)) (drop n xs) = drop (nat r - c) xs"
  by (simp add: le_nat_iff)

section \<open>WebSocket frames\<close>

lemma framing_handle_blind:
  assumes U: "blind_app recvd U" and P: "parent_keeps P recvd"
  shows "outcome4 (framing_handle (make_stream_oriented_layer_ptr P) U nxt opc payload u f d)
      = outcome4 (framing_handle (make_stream_oriented_layer_ptr P) U nxt opc payload u f d2)"
    and "keeps_reading recvd d (lower4 (framing_handle (make_stream_oriented_layer_ptr P) U nxt opc payload u f d))"
proof -
  have t: "outcome3 (mu_consume_text U payload u (f, d)) = outcome3 (mu_consume_text U payload u (f, d2))"
      "keeps_reading recvd d (lower3 (mu_consume_text U payload u (f, d)))"
    and b: "outcome3 (mu_consume_binary U payload u (f, d)) = outcome3 (mu_consume_binary U payload u (f, d2))"
      "keeps_reading recvd d (lower3 (mu_consume_binary U payload u (f, d)))"
    using U [unfolded blind_app_def] by (metis deliver_message.simps)+
  show "outcome4 (framing_handle (make_stream_oriented_layer_ptr P) U nxt opc payload u f d)
      = outcome4 (framing_handle (make_stream_oriented_layer_ptr P) U nxt opc payload u f d2)"
    using t(1) b(1) by (simp add: framing_handle_def ship_pong_def outcome_defs case_prod_unfold prod_eq_iff Let_def)
  show "keeps_reading recvd d (lower4 (framing_handle (make_stream_oriented_layer_ptr P) U nxt opc payload u f d))"
    using t(2) b(2) transport_keeps_reading [OF P]
    by (simp add: framing_handle_def ship_pong_def outcome_defs case_prod_unfold Let_def)
qed

lemma framing_frame_blind:
  assumes U: "blind_app recvd U" and P: "parent_keeps P recvd"
  shows "outcome4 (framing_frame (make_stream_oriented_layer_ptr P) U nxt hdr payload u f d)
      = outcome4 (framing_frame (make_stream_oriented_layer_ptr P) U nxt hdr payload u f d2)"
    and "keeps_reading recvd d (lower4 (framing_frame (make_stream_oriented_layer_ptr P) U nxt hdr payload u f d))"
proof -
  note h = framing_handle_blind [OF U P, unfolded outcome_defs case_prod_unfold prod_eq_iff fst_conv snd_conv]
  show "outcome4 (framing_frame (make_stream_oriented_layer_ptr P) U nxt hdr payload u f d)
      = outcome4 (framing_frame (make_stream_oriented_layer_ptr P) U nxt hdr payload u f d2)"
    using h(1) [of nxt _ _ u _ d d2]
    by (simp add: framing_frame_def outcome_defs case_prod_unfold Let_def prod_eq_iff)
  show "keeps_reading recvd d (lower4 (framing_frame (make_stream_oriented_layer_ptr P) U nxt hdr payload u f d))"
    using h(2) [of d nxt _ _ u] transport_keeps_reading [OF P]
    by (simp add: framing_frame_def outcome_defs case_prod_unfold Let_def)
qed

text \<open>What a call of \<open>consume\<close> leaves in the buffer: an incomplete frame, and a receive policy to complete it.\<close>

definition awaits_frame :: "byte list \<Rightarrow> stream_transport \<Rightarrow> bool" where
  "awaits_frame ys t \<longleftrightarrow>
     (case decode_header ys of
        Incomplete \<Rightarrow> min_read_size t = 1 \<and> max_read_size t = 2048
      | Decoded n hdr \<Rightarrow>
          n + unat (payload_len hdr) < max_frame_size \<and> length ys < n + unat (payload_len hdr) \<and>
          min_read_size t = of_nat (n + unat (payload_len hdr)) \<and> max_read_size t = of_nat (n + unat (payload_len hdr))
      | Malformed \<Rightarrow> False)"

lemma awaits_frame_Nil: "awaits_frame [] t \<longleftrightarrow> min_read_size t = 1 \<and> max_read_size t = 2048"
  by (simp add: awaits_frame_def decode_header_def)

lemma decode_header_Incomplete: "decode_header ys = Incomplete \<Longrightarrow> length ys < 14"
  by (auto simp: decode_header_def Let_def split: if_splits)

lemma unat_frame_size: "n < max_frame_size \<Longrightarrow> unat (of_nat n :: u32) = n"
  by (simp add: unat_of_nat)

lemma awaits_frame_room:
  assumes "awaits_frame ys t"
  shows "min_read_size t \<le> max_read_size t" "length ys < unat (max_read_size t)" "0 < min_read_size t"
proof (atomize (full), cases "decode_header ys")
  case Incomplete
  then show "min_read_size t \<le> max_read_size t \<and> length ys < unat (max_read_size t) \<and> 0 < min_read_size t"
    using assms decode_header_Incomplete [OF Incomplete] by (simp add: awaits_frame_def)
next
  case (Decoded n hdr)
  let ?fs = "n + unat (payload_len hdr)"
  have "?fs < max_frame_size" "length ys < ?fs" "min_read_size t = of_nat ?fs" "max_read_size t = of_nat ?fs"
    using assms Decoded by (simp_all add: awaits_frame_def)
  moreover note unat_frame_size [OF this(1)]
  ultimately show "min_read_size t \<le> max_read_size t \<and> length ys < unat (max_read_size t) \<and> 0 < min_read_size t"
    by (simp add: word_less_nat_alt) linarith
qed (use assms in \<open>simp add: awaits_frame_def\<close>)

text \<open>The three ways in which an iteration goes on, whatever the state of the layers.\<close>

lemma consume_frames_view:
  obtains (Stop) e where "\<And>c u f d. consume_frames L U nxt xs c u f d = (u, f, set_abort_reason L e d, -1)"
      "\<And>ys c u f d. consume_frames L U nxt (xs @ ys) c u f d = (u, f, set_abort_reason L e d, -1)"
  | (Wait) pol where "\<And>c u f d. consume_frames L U nxt xs c u f d = (u, f, configure_read L pol d, int c)"
      "pol = (case decode_header xs of Decoded n hdr \<Rightarrow> policy_exactly (of_nat (n + unat (payload_len hdr)))
              | _ \<Rightarrow> policy_up_to 2048)"
      "case decode_header xs of
         Decoded n hdr \<Rightarrow> n + unat (payload_len hdr) < max_frame_size \<and> length xs < n + unat (payload_len hdr)
       | Incomplete \<Rightarrow> True | Malformed \<Rightarrow> False"
  | (Frame) n hdr p where "0 < n" "n \<le> length xs"
      "\<And>c u f d u' f' d' ok. framing_frame L U nxt hdr p u f d = (u', f', d', ok) \<Longrightarrow>
         consume_frames L U nxt xs c u f d =
         (if \<not> ok then (u', f', d', -1)
          else if drop n xs = [] then (u', f', configure_read L (policy_up_to 2048) d', int (c + n))
          else consume_frames L U nxt (drop n xs) (c + n) u' f' d')"
      "\<And>ys c u f d u' f' d' ok. framing_frame L U nxt hdr p u f d = (u', f', d', ok) \<Longrightarrow> ys \<noteq> [] \<Longrightarrow>
         consume_frames L U nxt (xs @ ys) c u f d =
         (if \<not> ok then (u', f', d', -1) else consume_frames L U nxt (drop n xs @ ys) (c + n) u' f' d')"
proof (cases "decode_header xs")
  case Incomplete
  then show ?thesis by (intro Wait [of "policy_up_to 2048"]) (simp_all add: consume_frames.simps [of L U nxt xs])
next
  case Malformed
  have "consume_frames L U nxt (xs @ ys) c u f d =
      (u, f, set_abort_reason L (Sec_error sec_runtime_error ''invalid WebSocket frame header'') d, -1)" for ys c u f d
    using Malformed decode_header_append [of xs ys] by (simp add: consume_frames.simps [of L U nxt "xs @ ys"])
  from this [of "[]"] this show ?thesis by (intro Stop) simp_all
next
  case (Decoded n hdr)
  then have dec: "decode_header (xs @ ys) = Decoded n hdr" for ys using decode_header_append [of xs ys] by simp
  let ?fs = "n + unat (payload_len hdr)"
  consider "unat (payload_len hdr) \<ge> max_frame_size - n" | "\<not> unat (payload_len hdr) \<ge> max_frame_size - n" "length xs < ?fs"
    | "\<not> unat (payload_len hdr) \<ge> max_frame_size - n" "\<not> length xs < ?fs" by blast
  then show ?thesis
  proof cases
    case 1
    have "consume_frames L U nxt (xs @ ys) c u f d =
        (u, f, set_abort_reason L (Sec_error sec_runtime_error ''WebSocket frame too large'') d, -1)" for ys c u f d
      using 1 dec [of ys] by (simp add: consume_frames.simps [of L U nxt "xs @ ys"])
    from this [of "[]"] this show ?thesis by (intro Stop) simp_all
  next
    case 2
    then have "?fs < max_frame_size" by linarith
    with 2 Decoded show ?thesis
      by (intro Wait [of "policy_exactly (of_nat ?fs)"]) (simp_all add: consume_frames.simps [of L U nxt xs] Let_def)
  next
    case 3
    have fs: "0 < ?fs" "?fs \<le> length xs" using decode_header_Decoded [OF Decoded] 3 by simp_all
    then show ?thesis
    proof (rule Frame)
      fix ys :: "byte list" and c u f d u' f' d' ok
      assume "framing_frame L U nxt hdr (mask_data (mask_key hdr) (take (unat (payload_len hdr)) (drop n xs))) u f d = (u', f', d', ok)"
        and "ys \<noteq> []"
      with fs consume_frames_step [OF dec 3(1), of ys L U nxt u f d u' f' d' ok c]
      show "consume_frames L U nxt (xs @ ys) c u f d =
         (if \<not> ok then (u', f', d', -1) else consume_frames L U nxt (drop ?fs xs @ ys) (c + ?fs) u' f' d')"
        by simp
    qed (rule consume_frames_step [OF Decoded 3])
  qed
qed

lemma consume_frames_blind:
  assumes U: "blind_app recvd U" and P: "parent_keeps P recvd"
  shows "outcome4 (consume_frames (make_stream_oriented_layer_ptr P) U nxt xs c u f d)
    = outcome4 (consume_frames (make_stream_oriented_layer_ptr P) U nxt xs c u f d2)"
proof (induction "length xs" arbitrary: xs c u f d d2 rule: less_induct)
  case less
  let ?L = "make_stream_oriented_layer_ptr P"
  show ?case
  proof (cases rule: consume_frames_view [of ?L U nxt xs])
    case (Frame n hdr p)
    obtain u1 f1 d1 ok where fr: "framing_frame ?L U nxt hdr p u f d = (u1, f1, d1, ok)" by (metis prod_cases4)
    then obtain d3 where fr2: "framing_frame ?L U nxt hdr p u f d2 = (u1, f1, d3, ok)"
      using framing_frame_blind(1) [OF U P, of nxt hdr p u f d d2]
      by (cases "framing_frame ?L U nxt hdr p u f d2") (auto simp: outcome4_def)
    have "length (drop n xs) < length xs" using Frame(1,2) by simp
    from less [OF this, of "c + n" u1 f1 d1 d3] show ?thesis
      unfolding Frame(3) [OF fr] Frame(3) [OF fr2] by (simp add: outcome4_def)
  qed (simp_all add: outcome4_def)
qed

text \<open>The counter of consumed bytes only adds to the result.\<close>

lemma consume_frames_counter:
  "consume_frames L U nxt xs (c + j) u f d =
   (let (u', f', d', r) = consume_frames L U nxt xs c u f d in (u', f', d', if r < 0 then r else r + int j))"
proof (induction "length xs" arbitrary: xs c u f d rule: less_induct)
  case less
  show ?case
  proof (cases rule: consume_frames_view [of L U nxt xs])
    case (Frame n hdr p)
    obtain u1 f1 d1 ok where fr: "framing_frame L U nxt hdr p u f d = (u1, f1, d1, ok)" by (metis prod_cases4)
    have "length (drop n xs) < length xs" using Frame(1,2) by simp
    from less [OF this, of "c + n" u1 f1 d1] show ?thesis
      unfolding Frame(3) [OF fr] by (simp add: add.commute add.left_commute)
  qed simp_all
qed

text \<open>Input that the layer rejects stays rejected, whatever follows it.\<close>

lemma consume_frames_reject:
  assumes "snd (snd (snd (consume_frames L U nxt xs c u f d))) < 0"
  shows "snd (snd (snd (consume_frames L U nxt (xs @ ys) c u f d))) < 0"
  using assms
proof (induction "length xs" arbitrary: xs c u f d rule: less_induct)
  case less
  show ?case
  proof (cases rule: consume_frames_view [of L U nxt xs])
    case (Frame n hdr p)
    obtain u1 f1 d1 ok where fr: "framing_frame L U nxt hdr p u f d = (u1, f1, d1, ok)" by (metis prod_cases4)
    have "length (drop n xs) < length xs" using Frame(1,2) by simp
    from less.hyps [OF this, of "c + n" u1 f1 d1] less.prems show ?thesis
      using Frame(3) [OF fr, of c] Frame(4) [OF fr, of ys c] by (cases "ys = []") (simp_all split: if_splits)
  qed (use less.prems in simp_all)
qed

lemma consume_frames_reading:
  assumes U: "blind_app recvd U" and P: "parent_keeps P recvd"
  shows "consume_frames (make_stream_oriented_layer_ptr P) U nxt xs c u f (t, p) = (u', f', (t', p'), r) \<Longrightarrow>
    same_input t t' \<and> recvd p' = recvd p \<and> (0 \<le> r \<longrightarrow> int c \<le> r \<and> awaits_frame (drop (nat r - c) xs) t')"
proof (induction "length xs" arbitrary: xs c u f t p rule: less_induct)
  case less
  let ?L = "make_stream_oriented_layer_ptr P"
  note conf = configure_keeps_input [OF P]
  show ?case
  proof (cases rule: consume_frames_view [of ?L U nxt xs])
    case (Stop e)
    then show ?thesis
      using less.prems transport_keeps_reading(1) [OF P, of "(t, p)" e] by (simp add: keeps_reading_def)
  next
    case (Wait pol)
    then have "configure_read ?L pol (t, p) = (t', p')" "r = int c" using less.prems by simp_all
    then show ?thesis
      using conf [of pol t p t' p'] Wait(2,3)
      by (auto simp: awaits_frame_def policy_up_to_def policy_exactly_def split: decode_result.splits)
  next
    case (Frame n hdr p0)
    obtain u1 f1 t1 p1 ok where fr: "framing_frame ?L U nxt hdr p0 u f (t, p) = (u1, f1, (t1, p1), ok)"
      by (metis prod_cases4 surj_pair)
    have k1: "same_input t t1" "recvd p1 = recvd p"
      using framing_frame_blind(2) [OF U P, of "(t, p)" nxt hdr p0 u f] fr
      by (simp_all add: keeps_reading_def lower4_def)
    note step = Frame(3) [OF fr, of c]
    consider "\<not> ok" | "ok" "drop n xs = []" | "ok \<and> drop n xs \<noteq> []" by blast
    then show ?thesis
    proof cases
      case 1
      then show ?thesis using less.prems step k1 by simp
    next
      case 2
      then have "configure_read ?L (policy_up_to 2048) (t1, p1) = (t', p')" and r: "r = int (c + n)"
        using less.prems step by simp_all
      then show ?thesis using conf [of "policy_up_to 2048" t1 p1 t' p'] k1 2(2) unfolding r nat_int
        by (simp add: same_input_def awaits_frame_Nil policy_up_to_def)
    next
      case 3
      have len: "length (drop n xs) < length xs" using Frame(1,2) by simp
      have "consume_frames ?L U nxt (drop n xs) (c + n) u1 f1 (t1, p1) = (u', f', (t', p'), r)"
        using less.prems step 3 by simp
      from less.hyps [OF len this] show ?thesis using k1 counter_shift [of c n r xs] by (auto simp only: same_input_def)
    qed
  qed
qed

text \<open>The effect of one call of \<open>consume\<close> on the framing layer and the application.\<close>

definition framing_run ::
  "'p io_parent \<Rightarrow> ('u, ('g, 'p transport_stack) framing_stack) mixed_upper \<Rightarrow> ('g \<Rightarrow> u32 \<times> 'g) \<Rightarrow> 'p transport_stack \<Rightarrow>
   byte list \<Rightarrow> 'u \<times> 'g framing \<Rightarrow> ('u \<times> 'g framing) \<times> int" where
  "framing_run P U nxt d xs = (\<lambda>(u, f).
     let (u', f', d', r) = consume_frames (make_stream_oriented_layer_ptr P) U nxt xs 0 u f d in ((u', f'), r))"

lemma framing_run_blind:
  assumes "blind_app recvd U" and "parent_keeps P recvd"
    and "consume_frames (make_stream_oriented_layer_ptr P) U nxt xs 0 u f d2 = (u', f', d', r)"
  shows "framing_run P U nxt d xs (u, f) = ((u', f'), r)"
  using consume_frames_blind [OF assms(1,2), of nxt xs 0 u f d d2] assms(3)
  by (simp add: framing_run_def outcome4_def case_prod_unfold prod_eq_iff)

lemma framing_run_append:
  assumes U: "blind_app recvd U" and P: "parent_keeps P recvd" and r: "framing_run P U nxt d xs s = (s', int k)"
  shows "k \<le> length xs" and "framing_run P U nxt d (xs @ ys) s =
    (let (s2, r) = framing_run P U nxt d (drop k xs @ ys) s' in (s2, if r < 0 then r else r + int k))"
proof -
  let ?L = "make_stream_oriented_layer_ptr P"
  obtain u f where s: "s = (u, f)" by (cases s)
  obtain u' f' where s': "s' = (u', f')" by (cases s')
  from r obtain d' where c: "consume_frames ?L U nxt xs 0 u f d = (u', f', d', int k)"
    by (auto simp: framing_run_def s s' split: prod.splits)
  from consume_frames_append [OF this, of ys] obtain d0 where k: "k \<le> length xs" and
    a: "consume_frames ?L U nxt (xs @ ys) 0 u f d = consume_frames ?L U nxt (drop k xs @ ys) k u' f' d0" by auto
  show "k \<le> length xs" by (rule k)
  obtain u2 f2 d2 r where b: "consume_frames ?L U nxt (drop k xs @ ys) 0 u' f' d0 = (u2, f2, d2, r)"
    by (metis prod_cases4)
  have "framing_run P U nxt d (drop k xs @ ys) s' = ((u2, f2), r)" unfolding s' by (rule framing_run_blind [OF U P b])
  moreover have "consume_frames ?L U nxt (xs @ ys) 0 u f d = (u2, f2, d2, if r < 0 then r else r + int k)"
    unfolding a using consume_frames_counter [of ?L U nxt "drop k xs @ ys" 0 k u' f' d0] b by simp
  ultimately show "framing_run P U nxt d (xs @ ys) s =
      (let (s2, r) = framing_run P U nxt d (drop k xs @ ys) s' in (s2, if r < 0 then r else r + int k))"
    by (simp add: framing_run_def s)
qed

text \<open>While fewer bytes are in the buffer than the policy asks for, a call would do nothing.\<close>

lemma awaits_frame_idle:
  assumes "awaits_frame ys t" and "length (ys @ bs) < unat (min_read_size t)"
  shows "framing_run P U nxt d (ys @ bs) s = (s, 0)"
proof (cases "decode_header ys")
  case Incomplete
  then have "ys @ bs = []" using assms by (simp add: awaits_frame_def)
  then show ?thesis by (simp add: framing_run_def consume_frames_Nil case_prod_unfold)
next
  case (Decoded n hdr)
  let ?fs = "n + unat (payload_len hdr)"
  have fs: "?fs < max_frame_size" "min_read_size t = of_nat ?fs" using assms(1) Decoded by (simp_all add: awaits_frame_def)
  have dec: "decode_header (ys @ bs) = Decoded n hdr" using decode_header_append [of ys bs] Decoded by simp
  have "length (ys @ bs) < ?fs" using assms(2) unfolding fs(2) unat_frame_size [OF fs(1)] .
  moreover have "\<not> unat (payload_len hdr) \<ge> max_frame_size - n" using fs(1) by linarith
  ultimately show ?thesis
    by (simp add: framing_run_def consume_frames.simps [of _ U nxt "ys @ bs"] dec case_prod_unfold Let_def del: length_append)
qed (use assms in \<open>simp add: awaits_frame_def\<close>)

lemma framing_chunked:
  fixes U :: "('u, ('g, 'p transport_stack) framing_stack) mixed_upper"
  assumes U: "blind_app recvd U" and P: "parent_keeps P recvd"
  shows "chunked_consumer (framing_layer (make_stream_oriented_layer_ptr P) U nxt seeded) recvd (\<lambda>v. v)
    (\<lambda>v lo hi. True) (framing_run P U nxt d)"
proof
  fix v :: "'u \<times> 'g framing" and t bytes delta and p :: 'p and v' :: "'u \<times> 'g framing" and t' p' k n bs
  let ?L = "make_stream_oriented_layer_ptr P"
  obtain u f where v: "v = (u, f)" by (cases v)
  obtain u' f' where v': "v' = (u', f')" by (cases v')
  {
    fix k
    assume "su_consume (framing_layer ?L U nxt seeded) bytes delta v (t, p) = (v', (t', p'), k)"
    then have "consume_frames ?L U nxt bytes 0 u f (t, p) = (u', f', (t', p'), k)"
      by (auto simp: framing_layer_def framing_consume_def v v' split: prod.splits)
  }
  note call = this
  show "framing_run P U nxt d bytes v = (v', k)"
    if "su_consume (framing_layer ?L U nxt seeded) bytes delta v (t, p) = (v', (t', p'), k)"
    unfolding v v' by (rule framing_run_blind [OF U P call [OF that]])
  show "same_input t t' \<and> recvd p' = recvd p"
    if "su_consume (framing_layer ?L U nxt seeded) bytes delta v (t, p) = (v', (t', p'), k)"
    using consume_frames_reading [OF U P call [OF that]] by simp
  assume "su_consume (framing_layer ?L U nxt seeded) bytes delta v (t, p) = (v', (t', p'), int n)"
  then have aw: "awaits_frame (drop n bytes) t'" using consume_frames_reading [OF U P call] by simp
  show "True \<and> min_read_size t' \<le> max_read_size t' \<and> length (drop n bytes) < unat (max_read_size t')"
    using awaits_frame_room [OF aw] by simp
  show "framing_run P U nxt d (drop n bytes @ bs) v' = (v', 0)" if "length (drop n bytes @ bs) < unat (min_read_size t')"
    by (rule awaits_frame_idle [OF aw that])
next
  show "framing_run P U nxt d [] s = (s, 0)" for s by (simp add: framing_run_def consume_frames_Nil case_prod_unfold)
next
  fix xs s s' n ys
  assume r: "framing_run P U nxt d xs s = (s', int n)"
  show "n \<le> length xs" by (rule framing_run_append(1) [OF U P r])
  show "framing_run P U nxt d (xs @ ys) s =
      (let (s2, r) = framing_run P U nxt d (drop n xs @ ys) s' in (s2, if r < 0 then r else r + int n))"
    by (rule framing_run_append(2) [OF U P r])
next
  fix xs s s' r ys
  assume "framing_run P U nxt d xs s = (s', r)" "r < 0"
  then show "snd (framing_run P U nxt d (xs @ ys) s) < 0"
    using consume_frames_reject [of "make_stream_oriented_layer_ptr P" U nxt xs 0 "fst s" "snd s" d ys]
    by (auto simp: framing_run_def case_prod_unfold Let_def)
qed

text \<open>
  A fresh framing layer that gets all of \<open>feed\<close>, in whatever segments, ends in the state after one call of
  \<open>consume\<close>. The transport is the one that \<open>init\<close> leaves: it waits for a single byte.
\<close>

lemma framing_read_events:
  fixes U :: "('u, ('g, 'p transport_stack) framing_stack) mixed_upper"
  assumes U: "blind_app (\<lambda>p. (recvd p, feed p, pace p)) U" and P: "parent_keeps P (\<lambda>p. (recvd p, feed p, pace p))"
    and S: "reads_well S recvd" "feeds S feed pace"
    and t: "unread_transport t" "min_read_size t = 1" "max_consecutive_reads t \<noteq> 0" and p: "recvd p = []" "pace p < n"
    and c: "consume_frames (make_stream_oriented_layer_ptr P) U nxt (feed p) 0 u f d = (u', f', d', int (length (feed p)))"
  shows "\<exists>t' p'. read_events P S (framing_layer (make_stream_oriented_layer_ptr P) U nxt seeded) n (u, f) t p
      = ((u', f'), (t', p'), Returned True) \<and> recvd p' = feed p \<and> pending_input t' = []"
proof -
  let ?L = "make_stream_oriented_layer_ptr P"
  have U': "blind_app recvd U" and P': "parent_keeps P recvd"
    using U P by (auto simp: blind_app_def parent_keeps_def keeps_reading_def)
  note chunked = framing_chunked [OF U' P', of nxt seeded d]
  have "framing_run P U nxt d [] (u, f) = ((u, f), 0)" by (simp add: framing_run_def consume_frames_Nil case_prod_unfold)
  then have idle: "chunked_consumer.idle recvd (\<lambda>v. v) (\<lambda>v lo hi. True) (framing_run P U nxt d) (u, f) (u, f) t p"
    unfolding chunked_consumer.idle_def [OF chunked] using t p(1) by auto
  have run: "framing_run P U nxt d (feed p) (u, f) = ((u', f'), int (length (feed p)))" by (rule framing_run_blind [OF U' P' c])
  have keep: "feed q' = feed q \<and> pace q' = pace q"
    if "su_consume (framing_layer ?L U nxt seeded) bytes delta v (x, q) = (v', (x', q'), k)" for v x bytes delta q v' x' q' k
  proof -
    from that have "consume_frames ?L U nxt bytes 0 (fst v) (snd v) (x, q) = (fst v', snd v', (x', q'), k)"
      by (auto simp: framing_layer_def framing_consume_def split: prod.splits)
    from consume_frames_reading [OF U P this] show ?thesis by simp
  qed
  from chunked_consumer.read_events_complete [OF chunked S idle t(3) run p(2) keep, where P = P] show ?thesis by auto
qed

section \<open>Length-prefixed messages\<close>

definition blind_receiver :: "('p \<Rightarrow> 'h) \<Rightarrow> ('u, 'p transport_stack lp_stack) message_upper \<Rightarrow> bool" where
  "blind_receiver recvd U \<longleftrightarrow>
     (\<forall>m u l l2. fst (mo_consume U m u l) = fst (mo_consume U m u l2) \<and>
        snd (snd (mo_consume U m u l)) = snd (snd (mo_consume U m u l2))) \<and>
     (\<forall>m u f d. receive_buf_upper_bound (fst (fst (snd (mo_consume U m u (f, d))))) = receive_buf_upper_bound f \<and>
        keeps_reading recvd d (snd (fst (snd (mo_consume U m u (f, d))))))"

lemma consume_messages_view:
  obtains (Stop) e where "\<And>c u f d. consume_messages L U xs c u f d = (u, f, set_abort_reason L e d, -1)"
      "\<And>ys c u f d. consume_messages L U (xs @ ys) c u f d = (u, f, set_abort_reason L e d, -1)"
  | (Short) "length xs < 4" "\<And>c u f d. consume_messages L U xs c u f d = (u, f, d, int c)"
  | (Wait) n sub where "lp_split xs = (n, sub)" "length xs < n + 4" "n \<le> max_message_length"
      "\<And>c u f d. consume_messages L U xs c u f d =
        (if n + 4 > unat (receive_buf_upper_bound f)
         then (u, f\<lparr>receive_buf_upper_bound := of_nat (n + 4)\<rparr>, configure_read L (policy_between 4 (of_nat (n + 4))) d, int c)
         else (u, f, d, int c))"
  | (Skip) "4 \<le> length xs" "\<And>c u f d. consume_messages L U xs c u f d = consume_messages L U (drop 4 xs) (c + 4) u f d"
      "\<And>ys c u f d. consume_messages L U (xs @ ys) c u f d = consume_messages L U (drop 4 xs @ ys) (c + 4) u f d"
  | (Message) n m where "0 < n" "n \<le> length xs"
      "\<And>c u f d u' f' d' res. mo_consume U m u (f, d) = (u', (f', d'), res) \<Longrightarrow>
         consume_messages L U xs c u f d =
         (if res \<ge> 0 then consume_messages L U (drop n xs) (c + n) u' f' d' else (u', f', d', -1))"
      "\<And>ys c u f d u' f' d' res. mo_consume U m u (f, d) = (u', (f', d'), res) \<Longrightarrow>
         consume_messages L U (xs @ ys) c u f d =
         (if res \<ge> 0 then consume_messages L U (drop n xs @ ys) (c + n) u' f' d' else (u', f', d', -1))"
proof (cases "length xs < 4")
  case True
  then show ?thesis by (intro Short) (simp_all add: consume_messages.simps [of L U xs])
next
  case False
  obtain n sub where sp: "lp_split xs = (n, sub)" by (cases "lp_split xs")
  have sub: "sub = drop 4 xs" using sp by (simp add: lp_split_def)
  have spa: "lp_split (xs @ ys) = (n, sub @ ys)" for ys using False by (intro lp_split_append [OF _ sp]) simp
  consider "n = 0" | "n > max_message_length" | "n \<noteq> 0" "n \<le> max_message_length" "n > length sub"
    | "n \<noteq> 0" "n \<le> max_message_length" "n \<le> length sub" by linarith
  then show ?thesis
  proof cases
    case 1
    then have "consume_messages L U (xs @ ys) c u f d = consume_messages L U (drop 4 xs @ ys) (c + 4) u f d" for ys c u f d
      using False spa [of ys] sub by (simp add: consume_messages.simps [of L U "xs @ ys"])
    from this [of "[]"] this False show ?thesis by (intro Skip) simp_all
  next
    case 2
    then have "consume_messages L U (xs @ ys) c u f d =
        (u, f, set_abort_reason L (Sec_error sec_runtime_error ''maximum message size exceeded'') d, -1)" for ys c u f d
      using False spa [of ys] by (simp add: consume_messages.simps [of L U "xs @ ys"])
    from this [of "[]"] this show ?thesis by (intro Stop) simp_all
  next
    case 3
    then show ?thesis using False sp sub
      by (intro Wait [OF sp]) (auto simp: consume_messages.simps [of L U xs] Let_def)
  next
    case 4
    have step: "consume_messages L U (xs @ ys) c u f d =
        (if res \<ge> 0 then consume_messages L U (drop (n + 4) xs @ ys) (c + (n + 4)) u' f' d' else (u', f', d', -1))"
      if "mo_consume U (take n sub) u (f, d) = (u', (f', d'), res)" for ys c u f d u' f' d' res
      using consume_messages_step [OF _ spa 4(1,2), of ys U u f d u' f' d' res L c] that False 4(3) by (simp add: sub)
    have len: "0 < n + 4" "n + 4 \<le> length xs" using 4(3) False sub by simp_all
    show ?thesis using step [where ys = "[]"] by (intro Message [OF len _ step]) simp_all
  qed
qed

lemma consume_messages_blind:
  assumes U: "blind_receiver recvd U"
  shows "fst (consume_messages L U xs c u f d) = fst (consume_messages L U xs c u f2 d2) \<and>
    snd (snd (snd (consume_messages L U xs c u f d))) = snd (snd (snd (consume_messages L U xs c u f2 d2)))"
proof (induction "length xs" arbitrary: xs c u f d f2 d2 rule: less_induct)
  case less
  show ?case
  proof (cases rule: consume_messages_view [of L U xs])
    case (Message n m)
    obtain u1 f1 d1 r where m: "mo_consume U m u (f, d) = (u1, (f1, d1), r)" by (metis surj_pair)
    then obtain f3 d3 where m2: "mo_consume U m u (f2, d2) = (u1, (f3, d3), r)"
      using U unfolding blind_receiver_def by (metis fst_conv snd_conv surj_pair)
    have "length (drop n xs) < length xs" using Message(1,2) by simp
    from less [OF this, of "c + n" u1 f1 d1 f3 d3] show ?thesis
      unfolding Message(3) [OF m] Message(3) [OF m2] by simp
  next
    case Skip
    then have "length (drop 4 xs) < length xs" by simp
    from less [OF this] show ?thesis by (simp add: Skip(2))
  qed simp_all
qed

lemma consume_messages_counter:
  "consume_messages L U xs (c + j) u f d =
   (let (u', f', d', r) = consume_messages L U xs c u f d in (u', f', d', if r < 0 then r else r + int j))"
proof (induction "length xs" arbitrary: xs c u f d rule: less_induct)
  case less
  show ?case
  proof (cases rule: consume_messages_view [of L U xs])
    case (Message n m)
    obtain u1 f1 d1 r where m: "mo_consume U m u (f, d) = (u1, (f1, d1), r)" by (metis surj_pair)
    have "length (drop n xs) < length xs" using Message(1,2) by simp
    from less [OF this, of "c + n" u1 f1 d1] show ?thesis
      unfolding Message(3) [OF m] by (simp add: add.commute add.left_commute)
  next
    case Skip
    then have "length (drop 4 xs) < length xs" by simp
    from less [OF this, of "c + 4" u f d] show ?thesis unfolding Skip(2) by (simp add: add.assoc add.commute [of j 4])
  qed simp_all
qed

lemma consume_messages_reject:
  assumes "snd (snd (snd (consume_messages L U xs c u f d))) < 0"
  shows "snd (snd (snd (consume_messages L U (xs @ ys) c u f d))) < 0"
  using assms
proof (induction "length xs" arbitrary: xs c u f d rule: less_induct)
  case less
  show ?case
  proof (cases rule: consume_messages_view [of L U xs])
    case (Wait n sub)
    then show ?thesis using less.prems by (simp split: if_splits)
  next
    case Skip
    then have "length (drop 4 xs) < length xs" by simp
    from less.hyps [OF this] less.prems show ?thesis using Skip(2,3) by simp
  next
    case (Message n m)
    obtain u1 f1 d1 r where m: "mo_consume U m u (f, d) = (u1, (f1, d1), r)" by (metis surj_pair)
    have "length (drop n xs) < length xs" using Message(1,2) by simp
    from less.hyps [OF this, of "c + n" u1 f1 d1] less.prems show ?thesis
      using Message(3) [OF m, of c] Message(4) [OF m, of ys c] by (simp split: if_splits)
  qed (use less.prems in simp_all)
qed

text \<open>The layer remembers the upper bound of its receive policy, which always exceeds what it leaves unread.\<close>

definition lp_policy :: "'u \<times> length_prefix_framing \<Rightarrow> u32 \<Rightarrow> u32 \<Rightarrow> bool" where
  "lp_policy v lo hi \<longleftrightarrow> lo = 4 \<and> hi = receive_buf_upper_bound (snd v) \<and> 4 \<le> hi"

lemma raised_policy:
  assumes P: "parent_keeps P recvd" and n: "n \<le> max_message_length" "length xs < n + 4"
    and r: "(u', f', (t', p'), r) = (u, f\<lparr>receive_buf_upper_bound := of_nat (n + 4)\<rparr>,
      configure_read (make_stream_oriented_layer_ptr P) (policy_between 4 (of_nat (n + 4))) (t, p), int c)"
  shows "same_input t t' \<and> recvd p' = recvd p \<and>
    (0 \<le> r \<longrightarrow> int c \<le> r \<and> lp_policy (u', f') (min_read_size t') (max_read_size t') \<and>
       length (drop (nat r - c) xs) < unat (max_read_size t'))"
proof -
  have "unat (of_nat (n + 4) :: u32) = n + 4" using n(1) by (simp add: unat_of_nat del: of_nat_add)
  moreover have "configure_read (make_stream_oriented_layer_ptr P) (policy_between 4 (of_nat (n + 4))) (t, p) = (t', p')"
    using r by simp
  note configure_keeps_input [OF P this]
  ultimately show ?thesis using r n(2) by (simp add: lp_policy_def policy_between_def word_le_nat_alt)
qed

lemma consume_messages_reading:
  assumes U: "blind_receiver recvd U" and P: "parent_keeps P recvd"
  shows "consume_messages (make_stream_oriented_layer_ptr P) U xs c u f (t, p) = (u', f', (t', p'), r) \<Longrightarrow>
    lp_policy (u, f) (min_read_size t) (max_read_size t) \<Longrightarrow>
    same_input t t' \<and> recvd p' = recvd p \<and>
    (0 \<le> r \<longrightarrow> int c \<le> r \<and> lp_policy (u', f') (min_read_size t') (max_read_size t') \<and>
       length (drop (nat r - c) xs) < unat (max_read_size t'))"
proof (induction "length xs" arbitrary: xs c u f t p rule: less_induct)
  case less
  let ?L = "make_stream_oriented_layer_ptr P"
  note pol = less.prems(2) [unfolded lp_policy_def snd_conv]
  have again: ?case
    if c: "consume_messages ?L U (drop n xs) (c + n) u1 f1 (t1, p1) = (u', f', (t', p'), r)"
      and len: "length (drop n xs) < length xs"
      and k: "keeps_reading recvd (t, p) (t1, p1)" "receive_buf_upper_bound f1 = receive_buf_upper_bound f"
    for n u1 f1 t1 p1
  proof -
    have "lp_policy (u1, f1) (min_read_size t1) (max_read_size t1)"
      using pol k by (auto simp: lp_policy_def keeps_reading_def)
    from less.hyps [OF len c this] show ?thesis
      using k counter_shift [of c n r xs] by (auto simp only: same_input_def keeps_reading_def fst_conv snd_conv)
  qed
  show ?case
  proof (cases rule: consume_messages_view [of ?L U xs])
    case (Stop e)
    then show ?thesis
      using less.prems transport_keeps_reading(1) [OF P, of "(t, p)" e] by (simp add: keeps_reading_def)
  next
    case Short
    then show ?thesis using less.prems by (auto simp: same_input_def lp_policy_def word_le_nat_alt)
  next
    case (Wait n sub)
    show ?thesis
    proof (cases "n + 4 > unat (receive_buf_upper_bound f)")
      case True
      then show ?thesis using less.prems(1) Wait(2,4) by (intro raised_policy [OF P Wait(3)]) auto
    next
      case False
      then show ?thesis using less.prems Wait(2,4) pol by (auto simp: same_input_def lp_policy_def)
    qed
  next
    case Skip
    then show ?thesis using less.prems(1) by (intro again [of 4 u f t p]) simp_all
  next
    case (Message n m)
    obtain u1 f1 t1 p1 res where m: "mo_consume U m u (f, (t, p)) = (u1, (f1, (t1, p1)), res)" by (metis surj_pair)
    have k: "keeps_reading recvd (t, p) (t1, p1)" "receive_buf_upper_bound f1 = receive_buf_upper_bound f"
      using U m unfolding blind_receiver_def by (metis fst_conv snd_conv)+
    show ?thesis
    proof (cases "res \<ge> 0")
      case True
      then show ?thesis using less.prems(1) Message k m by (intro again [of n u1 f1 t1 p1]) simp_all
    next
      case False
      then show ?thesis using less.prems(1) Message(3) [OF m] k by (simp add: keeps_reading_def)
    qed
  qed
qed

definition lp_run ::
  "'p io_parent \<Rightarrow> ('u, 'p transport_stack lp_stack) message_upper \<Rightarrow> 'p transport_stack lp_stack \<Rightarrow>
   byte list \<Rightarrow> 'u \<Rightarrow> 'u \<times> int" where
  "lp_run P U l xs u =
     (let (u', f', d', r) = consume_messages (make_stream_oriented_layer_ptr P) U xs 0 u (fst l) (snd l) in (u', r))"

lemma lp_run_blind:
  assumes "blind_receiver recvd U"
    and "consume_messages (make_stream_oriented_layer_ptr P) U xs 0 u f d = (u', f', d', r)"
  shows "lp_run P U l xs u = (u', r)"
  using consume_messages_blind [OF assms(1), of "make_stream_oriented_layer_ptr P" xs 0 u f d "fst l" "snd l"] assms(2)
  by (simp add: lp_run_def case_prod_unfold Let_def)

lemma lp_run_append:
  assumes U: "blind_receiver recvd U" and r: "lp_run P U l xs u = (u', int k)"
  shows "k \<le> length xs" and "lp_run P U l (xs @ ys) u =
    (let (u2, r) = lp_run P U l (drop k xs @ ys) u' in (u2, if r < 0 then r else r + int k))"
proof -
  let ?L = "make_stream_oriented_layer_ptr P"
  from r obtain f' d' where c: "consume_messages ?L U xs 0 u (fst l) (snd l) = (u', f', d', int k)"
    by (auto simp: lp_run_def split: prod.splits)
  from consume_messages_append [OF this, of ys] obtain f0 d0 where k: "k \<le> length xs" and
    a: "consume_messages ?L U (xs @ ys) 0 u (fst l) (snd l) = consume_messages ?L U (drop k xs @ ys) k u' f0 d0" by auto
  show "k \<le> length xs" by (rule k)
  obtain u2 f2 d2 r where b: "consume_messages ?L U (drop k xs @ ys) 0 u' f0 d0 = (u2, f2, d2, r)"
    by (metis prod_cases4)
  have "lp_run P U l (drop k xs @ ys) u' = (u2, r)" by (rule lp_run_blind [OF U b])
  moreover have "consume_messages ?L U (xs @ ys) 0 u (fst l) (snd l) = (u2, f2, d2, if r < 0 then r else r + int k)"
    unfolding a using consume_messages_counter [of ?L U "drop k xs @ ys" 0 k u' f0 d0] b by simp
  ultimately show "lp_run P U l (xs @ ys) u =
      (let (u2, r) = lp_run P U l (drop k xs @ ys) u' in (u2, if r < 0 then r else r + int k))"
    by (simp add: lp_run_def)
qed

lemma length_prefix_chunked:
  fixes U :: "('u, 'p transport_stack lp_stack) message_upper"
  assumes U: "blind_receiver recvd U" and P: "parent_keeps P recvd"
  shows "chunked_consumer (length_prefix_layer (make_stream_oriented_layer_ptr P) U) recvd fst lp_policy (lp_run P U l)"
proof
  fix v :: "'u \<times> length_prefix_framing" and t t' :: stream_transport and bytes delta and p :: 'p and v' :: "'u \<times> length_prefix_framing" and p' k n bs
  let ?L = "make_stream_oriented_layer_ptr P"
  obtain u f where v: "v = (u, f)" by (cases v)
  obtain u' f' where v': "v' = (u', f')" by (cases v')
  {
    fix k
    assume "su_consume (length_prefix_layer ?L U) bytes delta v (t, p) = (v', (t', p'), k)"
    then have "consume_messages ?L U bytes 0 u f (t, p) = (u', f', (t', p'), k)"
      by (auto simp: length_prefix_layer_def lp_consume_def v v' split: prod.splits)
  }
  note call = this
  assume pol: "lp_policy v (min_read_size t) (max_read_size t)"
  show "lp_run P U l bytes (fst v) = (fst v', k)"
    if "su_consume (length_prefix_layer ?L U) bytes delta v (t, p) = (v', (t', p'), k)"
    unfolding v v' fst_conv by (rule lp_run_blind [OF U call [OF that]])
  show "same_input t t' \<and> recvd p' = recvd p"
    if "su_consume (length_prefix_layer ?L U) bytes delta v (t, p) = (v', (t', p'), k)"
    using consume_messages_reading [OF U P call [OF that] pol [unfolded v]] by simp
  assume "su_consume (length_prefix_layer ?L U) bytes delta v (t, p) = (v', (t', p'), int n)"
  from consume_messages_reading [OF U P call [OF this] pol [unfolded v]]
  have aw: "lp_policy v' (min_read_size t') (max_read_size t')" "length (drop n bytes) < unat (max_read_size t')"
    by (simp_all add: v')
  then show "lp_policy v' (min_read_size t') (max_read_size t') \<and> min_read_size t' \<le> max_read_size t' \<and>
      length (drop n bytes) < unat (max_read_size t')"
    by (auto simp: lp_policy_def)
  show "lp_run P U l (drop n bytes @ bs) (fst v') = (fst v', 0)" if "length (drop n bytes @ bs) < unat (min_read_size t')"
    using that aw(1) by (simp add: lp_policy_def lp_run_def consume_messages.simps [of _ U "drop n bytes @ bs"])
next
  show "lp_run P U l [] s = (s, 0)" for s by (simp add: lp_run_def consume_messages.simps [of _ U "[]"])
next
  fix xs s s' n ys
  assume r: "lp_run P U l xs s = (s', int n)"
  show "n \<le> length xs" by (rule lp_run_append(1) [OF U r])
  show "lp_run P U l (xs @ ys) s =
      (let (s2, r) = lp_run P U l (drop n xs @ ys) s' in (s2, if r < 0 then r else r + int n))"
    by (rule lp_run_append(2) [OF U r])
next
  fix xs s s' r ys
  assume "lp_run P U l xs s = (s', r)" "r < 0"
  then show "snd (lp_run P U l (xs @ ys) s) < 0"
    using consume_messages_reject [of "make_stream_oriented_layer_ptr P" U xs 0 s "fst l" "snd l" ys]
    by (auto simp: lp_run_def case_prod_unfold Let_def)
qed

text \<open>The same for a fresh length-prefix layer; its \<open>init\<close> asks the transport for four bytes.\<close>

lemma length_prefix_read_events:
  fixes U :: "('u, 'p transport_stack lp_stack) message_upper"
  assumes U: "blind_receiver (\<lambda>p. (recvd p, feed p, pace p)) U" and P: "parent_keeps P (\<lambda>p. (recvd p, feed p, pace p))"
    and S: "reads_well S recvd" "feeds S feed pace"
    and t: "unread_transport t" "lp_policy (u, f) (min_read_size t) (max_read_size t)" "max_consecutive_reads t \<noteq> 0"
    and p: "recvd p = []" "pace p < n"
    and c: "consume_messages (make_stream_oriented_layer_ptr P) U (feed p) 0 u g d = (u', g', d', int (length (feed p)))"
  shows "\<exists>f' t' p'. read_events P S (length_prefix_layer (make_stream_oriented_layer_ptr P) U) n (u, f) t p
      = ((u', f'), (t', p'), Returned True) \<and> recvd p' = feed p \<and> pending_input t' = []"
proof -
  let ?L = "make_stream_oriented_layer_ptr P" and ?l = "(g, d)"
  have U': "blind_receiver recvd U" and P': "parent_keeps P recvd"
    using U P by (auto simp: blind_receiver_def parent_keeps_def keeps_reading_def)
  note chunked = length_prefix_chunked [OF U' P', of ?l]
  have "lp_run P U ?l bs u = (u, 0)" if "length bs < unat (min_read_size t)" for bs
    using that t(2) by (simp add: lp_run_def lp_policy_def consume_messages.simps [of _ U bs])
  then have idle: "chunked_consumer.idle recvd fst lp_policy (lp_run P U ?l) u (u, f) t p"
    unfolding chunked_consumer.idle_def [OF chunked] using t p(1) by (auto simp: lp_policy_def)
  have run: "lp_run P U ?l (feed p) u = (u', int (length (feed p)))" by (rule lp_run_blind [OF U' c])
  have keep: "feed q' = feed q \<and> pace q' = pace q"
    if "lp_policy v (min_read_size x) (max_read_size x)"
      "su_consume (length_prefix_layer ?L U) bytes delta v (x, q) = (v', (x', q'), k)" for v x bytes delta q v' x' q' k
  proof -
    from that(2) have "consume_messages ?L U bytes 0 (fst v) (snd v) (x, q) = (fst v', snd v', (x', q'), k)"
      by (auto simp: length_prefix_layer_def lp_consume_def split: prod.splits)
    from consume_messages_reading [OF U P this] that(1) show ?thesis by simp
  qed
  from chunked_consumer.read_events_complete [OF chunked S idle t(3) run p(2) keep, where P = P] show ?thesis by fastforce
qed

section \<open>A connection with pauses\<close>

text \<open>The socket of the transport theory, on which an empty segment is a moment without input.\<close>

definition paced_sys :: "connection stream_sys" where
  "paced_sys = connection_sys\<lparr>sys_read := (\<lambda>n c. case chunks c of
       [] \<Rightarrow> (c, Read_failed True)
     | b # bs \<Rightarrow> if b = [] then (c\<lparr>chunks := bs\<rparr>, Read_failed True) else sys_read connection_sys n c)\<rparr>"

definition segments_left :: "connection \<Rightarrow> nat" where
  "segments_left c = length (concat (chunks c)) + length (chunks c)"

lemma paced_reads_well: "reads_well paced_sys received"
  by (auto simp: reads_well_def paced_sys_def connection_sys_def split: list.splits)

lemma paced_feeds: "feeds paced_sys (\<lambda>c. concat (chunks c)) segments_left"
  by (auto simp: feeds_def paced_sys_def connection_sys_def segments_left_def split: list.splits if_splits)

lemma connection_parent_keeps:
  "parent_keeps connection_parent (\<lambda>c. (received c, concat (chunks c), segments_left c))"
  by (simp add: parent_keeps_def connection_parent_def segments_left_def)

lemma idle_unread: "0 < hi \<Longrightarrow> lo \<le> hi \<Longrightarrow> unread_transport (idle_transport reads lo hi)"
  by (simp add: unread_transport_def idle_transport_def stream_transport_new_def)

end
