(* ===== verification/Server_Streams.thy ===== *)
theory Server_Streams
  imports Framed_Streams WebSocket_Endpoint
begin

text \<open>
  The WebSocket server layer on a stream transport. It reads the header of the request before it hands the
  rest of the stream to the framing layer, and rejects headers that do not fit into its receive buffer. On top
  of a layer that does not depend on the segmentation of the stream, it does not depend on it either.
\<close>

section \<open>The server layer\<close>

definition server_layer ::
  "'f ws_env \<Rightarrow> 'd stream_oriented_layer_ptr \<Rightarrow> ('v, 'd) stream_upper \<Rightarrow>
   ('f ws_settings \<Rightarrow> 'v \<Rightarrow> 'd \<Rightarrow> 'v \<times> 'd \<times> caf_error option) \<Rightarrow> 'f ws_settings \<Rightarrow> (('v, 'f) ws_server, 'd) stream_upper" where
  "server_layer E L F finit c =
     \<lparr>su_init = server_init L c, su_prepare_send = server_prepare_send F, su_done_sending = server_done_sending F,
      su_abort = server_abort F, su_consume = server_consume E L F finit\<rparr>"

text \<open>What a request asks for: an error with the settings so far, or the settings and the handshake to answer.\<close>

definition request_of ::
  "'f ws_env \<Rightarrow> string \<Rightarrow> 'f ws_settings \<Rightarrow> caf_error \<times> 'f ws_settings + handshake \<times> 'f ws_settings" where
  "request_of E http c =
     (let (first_line, remainder) = split_at http crlf;
          (http_method, request_uri, version) = split2 first_line '' '';
          fs = fold (parse_field E) (crlf_lines remainder) (ws_fields c);
          c' = \<lparr>ws_method = http_method, ws_request_uri = request_uri, ws_http_version = version, ws_fields = fs\<rparr>;
          missing = Inl (Pec_error pec_missing_field ''mandatory field Sec-WebSocket-Key missing or invalid'', c')
      in if http_method \<noteq> ''GET''
         then Inl (Pec_error pec_invalid_argument (''invalid operation: expected GET, got '' @ http_method), c)
         else case settings_get E ''Sec-WebSocket-Key'' fs of
                None \<Rightarrow> missing
              | Some skey \<Rightarrow> let (hs, ok) = assign_key E skey handshake_new in if ok then Inr (hs, c') else missing)"

lemma server_handle_header_request:
  "server_handle_header E L finit http s d =
     (case request_of E http (srv_cfg s) of
        Inl (e, c) \<Rightarrow> (s\<lparr>srv_cfg := c\<rparr>, set_abort_reason L e d, False)
      | Inr (hs, c) \<Rightarrow>
          let (v, d', err) = finit c (srv_upper s) (append_output L (write_http_1_response E hs) d);
              s' = s\<lparr>srv_cfg := c, srv_upper := v\<rparr>
          in case err of
               Some e \<Rightarrow> (s', set_abort_reason L e d', False)
             | None \<Rightarrow> (s'\<lparr>srv_complete := True\<rparr>, d', True))"
  by (simp add: server_handle_header_def request_of_def Let_def split: prod.split option.split)

lemma handle_header_complete: "server_handle_header E L finit http s d = (s', d', True) \<Longrightarrow> srv_complete s'"
  by (auto simp: server_handle_header_request Let_def split: sum.splits prod.splits option.splits)

section \<open>The effect of a stream on the server\<close>

text \<open>
  The layers below and above the server reduced to what does not depend on the segmentation: \<open>run\<close> and
  \<open>init\<close> are the effects of the upper layer, the lower layer has no state.
\<close>

definition no_lower :: "unit stream_oriented_layer_ptr" where
  "no_lower =
     \<lparr>can_send_more = (\<lambda>d. True), begin_output = (\<lambda>d. d), output_buffer = (\<lambda>d. []), write_output = (\<lambda>b d. d),
      end_output = (\<lambda>d. d), set_abort_reason = (\<lambda>e d. d), abort_reason = (\<lambda>d. None), configure_read = (\<lambda>p d. d)\<rparr>"

definition run_upper :: "(byte list \<Rightarrow> 's \<Rightarrow> 's \<times> int) \<Rightarrow> ('s, unit) stream_upper" where
  "run_upper run =
     \<lparr>su_init = (\<lambda>s d. (s, d, None)), su_prepare_send = (\<lambda>s d. (s, d, True)), su_done_sending = (\<lambda>s d. (s, d, True)),
      su_abort = (\<lambda>e s d. (s, d)), su_consume = (\<lambda>bytes delta s d. let (s', k) = run bytes s in (s', d, k))\<rparr>"

definition run_init :: "('c \<Rightarrow> 's \<Rightarrow> 's \<times> caf_error option) \<Rightarrow> 'c \<Rightarrow> 's \<Rightarrow> unit \<Rightarrow> 's \<times> unit \<times> caf_error option" where
  "run_init init c s d = (let (s', e) = init c s in (s', d, e))"

definition server_state :: "('v \<Rightarrow> 's) \<Rightarrow> ('v, 'f) ws_server \<Rightarrow> ('s, 'f) ws_server" where
  "server_state state s = \<lparr>srv_complete = srv_complete s, srv_upper = state (srv_upper s), srv_cfg = srv_cfg s\<rparr>"

text \<open>The transport never hands more than \<open>max_http_size\<close> bytes to the server before the header is complete.\<close>

definition server_run ::
  "'f ws_env \<Rightarrow> (byte list \<Rightarrow> 's \<Rightarrow> 's \<times> int) \<Rightarrow> ('f ws_settings \<Rightarrow> 's \<Rightarrow> 's \<times> caf_error option) \<Rightarrow>
   byte list \<Rightarrow> ('s, 'f) ws_server \<Rightarrow> ('s, 'f) ws_server \<times> int" where
  "server_run E run init bytes s =
     (if \<not> srv_complete s \<and> max_http_size < length (fst (split_http_1_header bytes)) then (s, -1)
      else let (s', d, k) = server_consume E no_lower (run_upper run) (run_init init) bytes [] s () in (s', k))"

lemma server_state_fields [simp]:
  "srv_complete (server_state state s) = srv_complete s" "srv_upper (server_state state s) = state (srv_upper s)"
  "srv_cfg (server_state state s) = srv_cfg s"
  "server_state state (s\<lparr>srv_upper := v\<rparr>) = (server_state state s)\<lparr>srv_upper := state v\<rparr>"
  "server_state state (s\<lparr>srv_cfg := c\<rparr>) = (server_state state s)\<lparr>srv_cfg := c\<rparr>"
  "server_state state (s\<lparr>srv_complete := b\<rparr>) = (server_state state s)\<lparr>srv_complete := b\<rparr>"
  by (simp_all add: server_state_def)

lemma server_state_id: "server_state (\<lambda>v. v) s = s"
  by (simp add: server_state_def)

lemma server_run_complete:
  "srv_complete s \<Longrightarrow> server_run E run init bytes s = (let (v, k) = run bytes (srv_upper s) in (s\<lparr>srv_upper := v\<rparr>, k))"
  by (simp add: server_run_def server_consume_def run_upper_def case_prod_unfold Let_def)

lemma server_run_waits:
  assumes "\<not> srv_complete s" and "split_http_1_header bytes = ([], rest)"
  shows "server_run E run init bytes s = (s, if length bytes \<ge> max_http_size then -1 else 0)"
  using assms by (simp add: server_run_def server_consume_def)

lemma server_run_header:
  assumes "\<not> srv_complete s" and "split_http_1_header bytes = (hdr, rest)" and "hdr \<noteq> []"
    and "run [] (srv_upper s1) = (srv_upper s1, 0)"
    and "server_handle_header E no_lower (run_init init) hdr s () = (s1, (), ok)"
  shows "server_run E run init bytes s =
    (if length hdr > max_http_size then (s, -1)
     else if \<not> ok then (s1, -1)
     else let (v, k) = run rest (srv_upper s1)
          in (s1\<lparr>srv_upper := v\<rparr>, if k \<ge> 0 then int (length hdr) + k else k))"
  using assms by (auto simp: server_run_def server_consume_def run_upper_def case_prod_unfold Let_def)

text \<open>The header is longer than any input without its end.\<close>

lemma search_later:
  assumes "search pat xs = None" and i: "search pat (xs @ ys) = Some i"
  shows "length xs < i + length pat"
proof (rule ccontr)
  assume le: "\<not> length xs < i + length pat"
  have "take (length pat) (drop i (xs @ ys)) = pat" using search_Some [OF i] by simp
  then have "take (length pat) (drop i xs) = pat" using le by simp
  with search_None [OF assms(1)] show False by blast
qed

lemma header_extends:
  assumes "split_http_1_header xs = ([], rest)" and "split_http_1_header (xs @ ys) = (hdr, rest')" and "hdr \<noteq> []"
  shows "length xs < length hdr"
proof -
  let ?pat = "[0x0D, 0x0A, 0x0D, 0x0A] :: byte list"
  obtain i where i: "search ?pat (xs @ ys) = Some i" and hdr: "hdr = chars_of (take (i + 4) (xs @ ys))"
    using assms(2,3) by (auto simp: split_http_1_header_def split: option.splits)
  have "search ?pat xs = None" using split_http_1_header_parts(2) [OF assms(1)] by simp
  then have "length xs < i + 4" using search_later [OF _ i] by simp
  moreover have "i + 4 \<le> length (xs @ ys)" using search_Some [OF i] by simp
  then have "length hdr = i + 4" by (simp only: hdr chars_of_def length_map length_take min.absorb2)
  ultimately show ?thesis by simp
qed

section \<open>Independence from the segmentation\<close>

text \<open>
  The layer above the server as the server needs it: its initialization leaves the input side of the transport
  alone and is ready for the receive policy that the server has set up.
\<close>

locale server_stream = chunked_consumer F recvd state cfg run s0
  for F :: "('v, 'p transport_stack) stream_upper"
    and recvd :: "'p \<Rightarrow> byte list"
    and state :: "'v \<Rightarrow> 's"
    and cfg :: "'v \<Rightarrow> u32 \<Rightarrow> u32 \<Rightarrow> bool"
    and run :: "byte list \<Rightarrow> 's \<Rightarrow> 's \<times> int"
    and s0 :: 's +
  fixes E :: "'f ws_env"
    and P :: "'p io_parent"
    and finit :: "'f ws_settings \<Rightarrow> 'v \<Rightarrow> 'p transport_stack \<Rightarrow> 'v \<times> 'p transport_stack \<times> caf_error option"
    and init :: "'f ws_settings \<Rightarrow> 's \<Rightarrow> 's \<times> caf_error option"
  assumes parent: "parent_keeps P recvd"
    and finit_init: "finit c v d = (v', d', e) \<Longrightarrow> init c (state v) = (state v', e)"
    and finit_keeps: "finit c v d = (v', d', e) \<Longrightarrow> keeps_reading recvd d d'"
    and finit_cfg: "finit c v d = (v', d', None) \<Longrightarrow> cfg v' 1 2048"
begin

lemma handle_header_run:
  assumes "server_handle_header E (make_stream_oriented_layer_ptr P) finit http s d = (s', d', ok)"
  shows "server_handle_header E no_lower (run_init init) http (server_state state s) () = (server_state state s', (), ok) \<and>
    keeps_reading recvd d d' \<and> (ok \<longrightarrow> srv_complete s' \<and> cfg (srv_upper s') 1 2048)"
proof (cases "request_of E http (srv_cfg s)")
  case (Inl r)
  then show ?thesis using assms transport_keeps_reading(1) [OF parent, of d]
    by (cases r) (auto simp: server_handle_header_request)
next
  case (Inr r)
  obtain hs c where r: "r = (hs, c)" by (cases r)
  let ?L = "make_stream_oriented_layer_ptr P"
  obtain v d1 e where f: "finit c (srv_upper s) (append_output ?L (write_http_1_response E hs) d) = (v, d1, e)" by (metis prod_cases3)
  have k: "keeps_reading recvd d d1"
    by (rule keeps_reading_trans [OF transport_keeps_reading(4) [OF parent] finit_keeps [OF f]])
  show ?thesis
  proof (cases e)
    case None
    then show ?thesis
      using assms Inr r f k finit_init [OF f] finit_cfg [OF f [unfolded None]]
      by (auto simp: server_handle_header_request run_init_def)
  next
    case (Some err)
    then show ?thesis
      using assms Inr r f k finit_init [OF f] keeps_reading_trans [OF k transport_keeps_reading(1) [OF parent]]
      by (auto simp: server_handle_header_request run_init_def)
  qed
qed

definition server_cfg :: "('v, 'f) ws_server \<Rightarrow> u32 \<Rightarrow> u32 \<Rightarrow> bool" where
  "server_cfg s lo hi \<longleftrightarrow> (if srv_complete s then cfg (srv_upper s) lo hi else lo = 1 \<and> hi = 2048)"

text \<open>What a call of \<open>consume\<close> has to achieve.\<close>

definition served :: "('v, 'f) ws_server \<Rightarrow> stream_transport \<Rightarrow> 'p \<Rightarrow> byte list \<Rightarrow> ('v, 'f) ws_server \<times> 'p transport_stack \<times> int \<Rightarrow> bool" where
  "served s t p bytes = (\<lambda>(s', (t', p'), k).
     server_run E run init bytes (server_state state s) = (server_state state s', k) \<and> same_input t t' \<and> recvd p' = recvd p \<and>
     (0 \<le> k \<longrightarrow>
        server_cfg s' (min_read_size t') (max_read_size t') \<and> min_read_size t' \<le> max_read_size t' \<and>
        length (drop (nat k) bytes) < unat (max_read_size t') \<and>
        (\<forall>bs. length (drop (nat k) bytes @ bs) < unat (min_read_size t') \<longrightarrow>
           server_run E run init (drop (nat k) bytes @ bs) (server_state state s') = (server_state state s', 0))))"

lemma server_run_Nil: "server_run E run init [] s = (s, 0)"
  by (cases "srv_complete s")
    (simp_all add: server_run_complete run_Nil server_run_waits [where bytes = "[]"] split_http_1_header_def)

text \<open>The upper layer gets the bytes behind the header, or all of them.\<close>

lemma served_by_upper:
  assumes u: "srv_complete s1" "cfg (srv_upper s1) (min_read_size t1) (max_read_size t1)"
    and call: "su_consume F rest delta (srv_upper s1) (t1, p1) = (v, (t', p'), k)"
    and len: "length rest \<le> unat (max_read_size t1)" and t1: "same_input t t1" "recvd p1 = recvd p"
    and run: "server_run E run init bytes (server_state state s) =
      (server_state state (s1\<lparr>srv_upper := v\<rparr>), if k \<ge> 0 then int n + k else k)"
    and bytes: "drop n bytes = rest"
  shows "served s t p bytes (s1\<lparr>srv_upper := v\<rparr>, (t', p'), if k \<ge> 0 then int n + k else k)"
proof -
  have keeps: "same_input t t'" "recvd p' = recvd p"
    using consume_input [OF u(2) len call] t1 by (simp_all add: same_input_def)
  show ?thesis
  proof (cases "k \<ge> 0")
    case True
    then obtain j where j: "k = int j" by (metis nonneg_int_cases)
    have d: "drop (nat (int n + int j)) bytes = drop j rest" by (simp add: bytes [symmetric] nat_add_distrib add.commute)
    then have l: "length bytes - nat (int n + int j) = length rest - j" by (metis length_drop)
    note c = consume_cfg [OF u(2) len call [unfolded j]] and i = consume_idle [OF u(2) len call [unfolded j]]
    have "server_run E run init (drop j rest @ bs) (server_state state (s1\<lparr>srv_upper := v\<rparr>))
        = (server_state state (s1\<lparr>srv_upper := v\<rparr>), 0)" if "length (drop j rest @ bs) < unat (min_read_size t')" for bs
      using i [OF that] u(1) by (simp add: server_run_complete)
    then show ?thesis using run c keeps u(1) by (simp add: served_def j d l server_cfg_def)
  next
    case False
    then show ?thesis using run keeps by (simp add: served_def)
  qed
qed

text \<open>Before the header is complete.\<close>

lemma served_waiting:
  assumes s: "\<not> srv_complete s" and pol: "min_read_size t = 1" "max_read_size t = 2048"
    and sp: "split_http_1_header bytes = ([], rest)"
  shows "served s t p bytes (server_consume E (make_stream_oriented_layer_ptr P) F finit bytes delta s (t, p))"
proof (cases "length bytes \<ge> max_http_size")
  case True
  let ?L = "make_stream_oriented_layer_ptr P"
  have "keeps_reading recvd (t, p) (header_too_large ?L (t, p))"
    unfolding header_too_large_def
    by (rule keeps_reading_trans [OF transport_keeps_reading(4) [OF parent] transport_keeps_reading(1) [OF parent]])
  then show ?thesis using server_run_waits [of "server_state state s", OF _ sp] s sp True
    by (simp add: server_consume_def served_def keeps_reading_def case_prod_unfold)
next
  case False
  then show ?thesis using server_run_waits [of "server_state state s", OF _ sp] s sp pol server_run_Nil
    by (simp add: server_consume_def served_def server_cfg_def same_input_def)
qed

text \<open>The call that completes the header.\<close>

lemma server_run_handled:
  assumes "\<not> srv_complete s" and "split_http_1_header bytes = (hdr, rest)" and "hdr \<noteq> []" and "length hdr \<le> max_http_size"
    and "server_handle_header E (make_stream_oriented_layer_ptr P) finit hdr s d = (s1, d1, ok)"
  shows "server_run E run init bytes (server_state state s) =
    (if \<not> ok then (server_state state s1, -1)
     else let (v, k) = run rest (state (srv_upper s1))
          in ((server_state state s1)\<lparr>srv_upper := v\<rparr>, if k \<ge> 0 then int (length hdr) + k else k))"
  using server_run_header [of "server_state state s" bytes hdr rest run "server_state state s1" E init ok] run_Nil
    handle_header_run [OF assms(5)] assms(1-4) by simp

lemma served_header:
  assumes s: "\<not> srv_complete s" and pol: "min_read_size t = 1" "max_read_size t = 2048"
    and sp: "split_http_1_header bytes = (hdr, rest)" "hdr \<noteq> []" and len: "length bytes \<le> max_http_size"
  shows "served s t p bytes (server_consume E (make_stream_oriented_layer_ptr P) F finit bytes delta s (t, p))"
proof -
  have len_hdr: "length hdr + length rest = length bytes" and rest: "drop (length hdr) bytes = rest"
    using split_http_1_header_parts(1) [OF sp(1)] by (auto simp: bytes_of_def)
  obtain s1 t1 p1 ok where h: "server_handle_header E (make_stream_oriented_layer_ptr P) finit hdr s (t, p) = (s1, (t1, p1), ok)"
    by (metis surj_pair)
  note hr = handle_header_run [OF h]
  have t1: "same_input t t1" "min_read_size t1 = 1" "max_read_size t1 = 2048" "recvd p1 = recvd p"
    using hr pol by (simp_all add: keeps_reading_def)
  have run: "server_run E run init bytes (server_state state s) =
      (if \<not> ok then (server_state state s1, -1)
       else let (v, k) = run rest (state (srv_upper s1))
            in ((server_state state s1)\<lparr>srv_upper := v\<rparr>, if k \<ge> 0 then int (length hdr) + k else k))"
    using len len_hdr by (intro server_run_handled [OF s sp _ h]) simp
  consider "\<not> ok" | "ok" "rest = []" | "ok" "rest \<noteq> []" by blast
  then show ?thesis
  proof cases
    case 1
    then show ?thesis using s sp h t1 run by (simp add: server_consume_def served_def)
  next
    case 2
    then show ?thesis using s sp h t1 run run_Nil hr len_hdr server_run_Nil
      by (simp add: server_consume_def served_def server_cfg_def server_state_def)
  next
    case 3
    obtain v t' p' k where call: "su_consume F rest rest (srv_upper s1) (t1, p1) = (v, (t', p'), k)" by (metis surj_pair)
    have u: "srv_complete s1" "cfg (srv_upper s1) (min_read_size t1) (max_read_size t1)" "length rest \<le> unat (max_read_size t1)"
      using hr 3 t1 len len_hdr by simp_all
    have "served s t p bytes (s1\<lparr>srv_upper := v\<rparr>, (t', p'), if k \<ge> 0 then int (length hdr) + k else k)"
      using consume_run [OF u(2,3) call] run 3 by (intro served_by_upper [OF u(1,2) call u(3) t1(1,4) _ rest]) simp
    then show ?thesis using s sp h 3 call by (simp add: server_consume_def)
  qed
qed

lemma server_consume_served:
  assumes c: "server_cfg s (min_read_size t) (max_read_size t)" and len: "length bytes \<le> unat (max_read_size t)"
  shows "served s t p bytes (server_consume E (make_stream_oriented_layer_ptr P) F finit bytes delta s (t, p))"
proof (cases "srv_complete s")
  case True
  obtain v t' p' k where call: "su_consume F bytes delta (srv_upper s) (t, p) = (v, (t', p'), k)" by (metis surj_pair)
  have u: "cfg (srv_upper s) (min_read_size t) (max_read_size t)" using c True by (simp add: server_cfg_def)
  have "served s t p bytes (s\<lparr>srv_upper := v\<rparr>, (t', p'), if k \<ge> 0 then int 0 + k else k)"
    using consume_run [OF u len call] True
    by (intro served_by_upper [OF True u call len]) (auto simp: server_run_complete same_input_def)
  then show ?thesis using True call by (simp add: server_consume_def split: if_splits)
next
  case False
  then have pol: "min_read_size t = 1" "max_read_size t = 2048" using c by (simp_all add: server_cfg_def)
  obtain hdr rest where sp: "split_http_1_header bytes = (hdr, rest)" by (cases "split_http_1_header bytes")
  show ?thesis
  proof (cases "hdr = []")
    case True
    then show ?thesis using served_waiting [OF False pol] sp by simp
  next
    case hdr: False
    show ?thesis by (rule served_header [OF False pol sp hdr]) (use len pol in simp)
  qed
qed

text \<open>Consuming in pieces, and input that is rejected.\<close>

lemma server_run_append:
  assumes r: "server_run E run init xs s = (s', int n)"
  shows "n \<le> length xs" and "server_run E run init (xs @ ys) s =
    (let (s2, r) = server_run E run init (drop n xs @ ys) s' in (s2, if r < 0 then r else r + int n))"
proof -
  have "n \<le> length xs \<and> server_run E run init (xs @ ys) s =
    (let (s2, r) = server_run E run init (drop n xs @ ys) s' in (s2, if r < 0 then r else r + int n))"
  proof (cases "srv_complete s")
    case True
    obtain v where v: "run xs (srv_upper s) = (v, int n)" "s' = s\<lparr>srv_upper := v\<rparr>"
      using r True by (auto simp: server_run_complete split: prod.splits)
    from run_append [OF v(1), of ys] run_le [OF v(1)] show ?thesis
      using True v(2) by (simp add: server_run_complete case_prod_unfold Let_def)
  next
    case False
    obtain hdr rest where sp: "split_http_1_header xs = (hdr, rest)" by (cases "split_http_1_header xs")
    have len: "length hdr + length rest = length xs" and rest: "drop (length hdr) xs = rest"
      using split_http_1_header_parts(1) [OF sp] by (auto simp: bytes_of_def)
    show ?thesis
    proof (cases "hdr = []")
      case True
      then have "s' = s" "n = 0" using r False sp server_run_waits [of s xs rest E run init] by (auto split: if_splits)
      then show ?thesis by (simp add: case_prod_unfold Let_def)
    next
      case hdr: False
      obtain s1 ok where h: "server_handle_header E no_lower (run_init init) hdr s () = (s1, (), ok)" by (metis surj_pair old.unit.exhaust)
      note run = server_run_header [where run = run, OF False _ hdr run_Nil h]
      obtain v k where k: "run rest (srv_upper s1) = (v, k)" by fastforce
      have f: "length hdr \<le> max_http_size \<and> ok \<and> k \<ge> 0 \<and> s' = s1\<lparr>srv_upper := v\<rparr> \<and> int n = int (length hdr) + k"
        using r run [OF sp] k by (simp split: if_splits)
      then have v: "length hdr \<le> max_http_size" "ok" "run rest (srv_upper s1) = (v, int (nat k))" "s' = s1\<lparr>srv_upper := v\<rparr>"
        "n = length hdr + nat k" using k by auto
      have "srv_complete s1" using h v(2) by (intro handle_header_complete [of E no_lower "run_init init" hdr s "()" s1 "()"]) simp
      then show ?thesis
        using run [OF split_http_1_header_append [OF sp hdr], of ys] v run_append [OF v(3), of ys] run_le [OF v(3)] len rest
        by (simp add: server_run_complete case_prod_unfold Let_def drop_drop [symmetric] add.commute)
    qed
  qed
  then show "n \<le> length xs" and "server_run E run init (xs @ ys) s =
    (let (s2, r) = server_run E run init (drop n xs @ ys) s' in (s2, if r < 0 then r else r + int n))" by blast+
qed

lemma server_run_reject:
  assumes r: "snd (server_run E run init xs s) < 0"
  shows "snd (server_run E run init (xs @ ys) s) < 0"
proof (cases "srv_complete s")
  case True
  then show ?thesis using r run_reject [of xs "srv_upper s" "fst (run xs (srv_upper s))" "snd (run xs (srv_upper s))" ys]
    by (simp add: server_run_complete case_prod_unfold Let_def)
next
  case False
  obtain hdr rest where sp: "split_http_1_header xs = (hdr, rest)" by (cases "split_http_1_header xs")
  show ?thesis
  proof (cases "hdr = []")
    case True
    then have long: "length xs \<ge> max_http_size" using r False sp server_run_waits [of s xs rest E run init] by (simp split: if_splits)
    obtain hdr2 rest2 where sp2: "split_http_1_header (xs @ ys) = (hdr2, rest2)" by (cases "split_http_1_header (xs @ ys)")
    show ?thesis
    proof (cases "hdr2 = []")
      case True
      then show ?thesis using server_run_waits [OF False sp2 [unfolded True]] long by simp
    next
      case hdr: False
      then have "max_http_size < length hdr2" using header_extends [of xs rest ys hdr2 rest2] sp sp2 True long by simp
      then show ?thesis using False sp2 by (simp add: server_run_def)
    qed
  next
    case hdr: False
    obtain s1 ok where h: "server_handle_header E no_lower (run_init init) hdr s () = (s1, (), ok)" by (metis surj_pair old.unit.exhaust)
    note run = server_run_header [where run = run, OF False _ hdr run_Nil h]
    obtain v k where k: "run rest (srv_upper s1) = (v, k)" by fastforce
    show ?thesis
      using r run [OF sp] run [OF split_http_1_header_append [OF sp hdr], of ys] k run_reject [OF k, of ys]
      by (auto simp: case_prod_unfold Let_def split: if_splits)
  qed
qed

end

sublocale server_stream \<subseteq> server: chunked_consumer
  "server_layer E (make_stream_oriented_layer_ptr P) F finit c" recvd "server_state state" server_cfg "server_run E run init" ss0
  for c ss0
proof
  fix s :: "('v, 'f) ws_server" and t t' :: stream_transport and bytes delta bs :: "byte list" and p p' :: 'p
    and s' :: "('v, 'f) ws_server" and k n
  assume "server_cfg s (min_read_size t) (max_read_size t)" "length bytes \<le> unat (max_read_size t)"
  note served = server_consume_served [OF this, of p delta, unfolded served_def]
  {
    assume "su_consume (server_layer E (make_stream_oriented_layer_ptr P) F finit c) bytes delta s (t, p) = (s', (t', p'), k)"
    then have "server_consume E (make_stream_oriented_layer_ptr P) F finit bytes delta s (t, p) = (s', (t', p'), k)"
      by (simp add: server_layer_def)
    then show "server_run E run init bytes (server_state state s) = (server_state state s', k)" "same_input t t' \<and> recvd p' = recvd p"
      using served by simp_all
  }
  assume "su_consume (server_layer E (make_stream_oriented_layer_ptr P) F finit c) bytes delta s (t, p) = (s', (t', p'), int n)"
  then have "server_consume E (make_stream_oriented_layer_ptr P) F finit bytes delta s (t, p) = (s', (t', p'), int n)"
    by (simp add: server_layer_def)
  then show "server_cfg s' (min_read_size t') (max_read_size t') \<and> min_read_size t' \<le> max_read_size t' \<and>
      length (drop n bytes) < unat (max_read_size t')"
    "length (drop n bytes @ bs) < unat (min_read_size t') \<Longrightarrow>
      server_run E run init (drop n bytes @ bs) (server_state state s') = (server_state state s', 0)"
    using served by simp_all
next
  show "server_run E run init [] s = (s, 0)" for s by (rule server_run_Nil)
  show "n \<le> length xs" if "server_run E run init xs s = (s', int n)" for xs s s' n by (rule server_run_append(1) [OF that])
  show "server_run E run init (xs @ ys) s =
      (let (s2, r) = server_run E run init (drop n xs @ ys) s' in (s2, if r < 0 then r else r + int n))"
    if "server_run E run init xs s = (s', int n)" for xs s s' n ys by (rule server_run_append(2) [OF that])
  show "snd (server_run E run init (xs @ ys) s) < 0" if "server_run E run init xs s = (s', r)" "r < 0" for xs s s' r ys
    using that server_run_reject [of xs s ys] by simp
qed

context server_stream
begin

text \<open>A single call, for an upper layer whose effect is \<open>run\<close> for every input.\<close>

lemma server_consume_run:
  assumes upper: "\<And>v bytes delta d v' d' k. su_consume F bytes delta v d = (v', d', k) \<Longrightarrow> run bytes (state v) = (state v', k)"
    and call: "server_consume E (make_stream_oriented_layer_ptr P) F finit bytes delta s d = (s', d', k)"
    and short: "srv_complete s \<or> length (fst (split_http_1_header bytes)) \<le> max_http_size"
  shows "server_run E run init bytes (server_state state s) = (server_state state s', k)"
proof (cases "srv_complete s")
  case True
  then show ?thesis using call upper [of bytes delta "srv_upper s" d]
    by (auto simp: server_consume_def server_run_complete split: prod.splits)
next
  case False
  obtain hdr rest where sp: "split_http_1_header bytes = (hdr, rest)" by (cases "split_http_1_header bytes")
  show ?thesis
  proof (cases "hdr = []")
    case True
    then show ?thesis using call False sp server_run_waits [of "server_state state s" bytes rest E run init]
      by (auto simp: server_consume_def split: if_splits)
  next
    case hdr: False
    obtain s1 d1 ok where h: "server_handle_header E (make_stream_oriented_layer_ptr P) finit hdr s d = (s1, d1, ok)" by (metis surj_pair)
    note r = server_run_handled [OF False sp hdr _ h]
    show ?thesis
      using call False sp hdr h r short run_Nil [of "state (srv_upper s1)"] upper [of rest rest "srv_upper s1" d1]
      by (auto simp: server_consume_def server_state_def split: if_splits prod.splits)
  qed
qed

lemma server_keeps:
  assumes "server_cfg s (min_read_size t) (max_read_size t)" and "length bytes \<le> unat (max_read_size t)"
    and "server_consume E (make_stream_oriented_layer_ptr P) F finit bytes delta s (t, p) = (s', (t', p'), k)"
  shows "recvd p' = recvd p"
  using server_consume_served [OF assms(1,2), of p delta] assms(3) by (simp add: served_def)

text \<open>A new server, after \<open>init\<close> has asked the transport for up to \<open>max_http_size\<close> bytes.\<close>

lemma server_reads_all:
  assumes S: "reads_well S recvd" "feeds S feed pace"
    and t: "unread_transport t" "min_read_size t = 1" "max_read_size t = 2048" "max_consecutive_reads t \<noteq> 0"
    and p: "recvd p = []" "pace p < n" and s: "\<not> srv_complete s"
    and run: "server_run E run init (feed p) (server_state state s) = (s', int (length (feed p)))"
    and keep: "\<And>s t bytes delta p s' t' p' k. server_cfg s (min_read_size t) (max_read_size t) \<Longrightarrow>
      length bytes \<le> unat (max_read_size t) \<Longrightarrow>
      su_consume (server_layer E (make_stream_oriented_layer_ptr P) F finit c) bytes delta s (t, p) = (s', (t', p'), k) \<Longrightarrow>
      feed p' = feed p \<and> pace p' = pace p"
  shows "\<exists>s'' t' p'. read_events P S (server_layer E (make_stream_oriented_layer_ptr P) F finit c) n s t p
      = (s'', (t', p'), Returned True) \<and> server_state state s'' = s' \<and> recvd p' = feed p \<and> pending_input t' = []"
proof -
  have "server.idle (server_state state s) s t p"
    unfolding server.idle_def using t p(1) s server_run_Nil by (simp add: server_cfg_def)
  from server.read_events_complete [OF S this t(4) run p(2) keep, where P = P] show ?thesis .
qed

end

section \<open>A server on the framing layer\<close>

text \<open>Applications that only set themselves up when they are initialized.\<close>

definition plain_init :: "('u, 'l) mixed_upper \<Rightarrow> ('u \<Rightarrow> 'u) \<Rightarrow> bool" where
  "plain_init U setup \<longleftrightarrow> (\<forall>u l. mu_init U u l = (setup u, l, None))"

definition framing_setup :: "('u \<Rightarrow> 'u) \<Rightarrow> 'g \<Rightarrow> 'c \<Rightarrow> 'u \<times> 'g framing \<Rightarrow> ('u \<times> 'g framing) \<times> caf_error option" where
  "framing_setup setup seeded c = (\<lambda>(u, f). ((setup u, f\<lparr>rng := seeded\<rparr>), None))"

lemma server_framing_stream:
  fixes U :: "('u, ('g, 'p transport_stack) framing_stack) mixed_upper"
  assumes U: "blind_app recvd U" "plain_init U setup" and P: "parent_keeps P recvd"
  shows "server_stream (framing_layer (make_stream_oriented_layer_ptr P) U nxt seeded) recvd (\<lambda>v. v) (\<lambda>v lo hi. True)
    (framing_run P U nxt d) P (\<lambda>c. su_init (framing_layer (make_stream_oriented_layer_ptr P) U nxt seeded)) (framing_setup setup seeded)"
proof (intro server_stream.intro framing_chunked [OF U(1) P] server_stream_axioms.intro P)
  let ?F = "framing_layer (make_stream_oriented_layer_ptr P) U nxt seeded"
  have "mu_init U u l = (setup u, l, None)" for u l using U(2) by (simp only: plain_init_def)
  then have i: "su_init ?F v d = (fst (framing_setup setup seeded c v), d, None)" for c :: 'c and v d
    by (cases v) (simp add: framing_layer_def framing_init_def framing_setup_def)
  show "framing_setup setup seeded c v = (v', e)" if "su_init ?F v d = (v', d', e)" for c :: 'c and v d v' d' e
    using that i [of v d c] by (cases v) (simp add: framing_setup_def)
  show "keeps_reading recvd d d'" if "su_init ?F v d = (v', d', e)" for v d v' d' e
    using that i [of v d undefined] by auto
qed simp

text \<open>
  A client that sends a clean request and then \<open>wire\<close>: after enough read events the server has completed the
  handshake, and the application has got everything that \<open>wire\<close> holds.
\<close>

lemma server_read_events:
  fixes U :: "('u, ('g, 'p transport_stack) framing_stack) mixed_upper"
  assumes U: "blind_app (\<lambda>p. (recvd p, feed p, pace p)) U" "plain_init U setup"
    and P: "parent_keeps P (\<lambda>p. (recvd p, feed p, pace p))"
    and S: "reads_well S recvd" "feeds S feed pace"
    and t: "unread_transport t" "min_read_size t = 1" "max_read_size t = 2048" "max_consecutive_reads t \<noteq> 0"
    and p: "recvd p = []" "pace p < n" and s: "\<not> srv_complete s" "srv_upper s = (u, f)"
    and H: "settings_sound H" "base64_sound H" "base64_codes_keys H" "clean_request H hs" "length (http_1_request H hs) \<le> max_http_size"
    and wire: "feed p = bytes_of (http_1_request H hs) @ wire"
    and c: "consume_frames (make_stream_oriented_layer_ptr P) U nxt wire 0 (setup u) (f\<lparr>rng := seeded\<rparr>) d
      = (u', f', d', int (length wire))"
  shows "\<exists>s' t' p'. read_events P S (server_layer H (make_stream_oriented_layer_ptr P)
        (framing_layer (make_stream_oriented_layer_ptr P) U nxt seeded)
        (\<lambda>c. su_init (framing_layer (make_stream_oriented_layer_ptr P) U nxt seeded)) c) n s t p
      = (s', (t', p'), Returned True) \<and>
    srv_complete s' \<and> srv_upper s' = (u', f') \<and> ws_request_uri (srv_cfg s') = lookup ''_endpoint'' hs \<and>
    recvd p' = feed p \<and> pending_input t' = []"
proof -
  let ?L = "make_stream_oriented_layer_ptr P" and ?init = "framing_setup setup seeded"
  let ?F = "framing_layer ?L U nxt seeded" and ?run = "framing_run P U nxt d"
  have U': "blind_app recvd U" "blind_app feed U" "blind_app (\<lambda>p. replicate (pace p) (0 :: byte)) U"
    and P': "parent_keeps P recvd" "parent_keeps P feed" "parent_keeps P (\<lambda>p. replicate (pace p) (0 :: byte))"
    using U(1) P by (auto simp: blind_app_def parent_keeps_def keeps_reading_def)
  obtain s1 where h: "server_handle_header H no_lower (run_init ?init) (http_1_request H hs) (server_state (\<lambda>v. v) s) () = (s1, (), True)"
    "srv_complete s1" "ws_request_uri (srv_cfg s1) = lookup ''_endpoint'' hs" "srv_upper s1 = (setup u, f\<lparr>rng := seeded\<rparr>)"
    using server_accepts_request [OF H(1-4), of "run_init ?init" no_lower "server_state (\<lambda>v. v) s" "()"] s(2)
    by (auto simp: run_init_def framing_setup_def)
  have "?run wire (setup u, f\<lparr>rng := seeded\<rparr>) = ((u', f'), int (length wire))" by (rule framing_run_blind [OF U'(1) P'(1) c])
  then have run: "server_run H ?run ?init (feed p) (server_state (\<lambda>v. v) s) = (s1\<lparr>srv_upper := (u', f')\<rparr>, int (length (feed p)))"
    using server_run_header [of "server_state (\<lambda>v. v) s" "feed p" "http_1_request H hs" wire ?run s1 H ?init True]
      split_request [OF H(2,4), of wire] s(1) h H(5) header_text_not_Nil
    by (simp add: wire http_1_request_text framing_run_def consume_frames_Nil)
  note stream = server_framing_stream [OF _ U(2), where nxt = nxt and seeded = seeded and d = d]
  have keep: "feed q' = feed q \<and> pace q' = pace q"
    if "server_stream.server_cfg (\<lambda>v lo hi. True) v (min_read_size x) (max_read_size x)" "length bytes \<le> unat (max_read_size x)"
      "su_consume (server_layer H ?L ?F (\<lambda>c. su_init ?F) c) bytes delta v (x, q) = (v', (x', q'), k)" for v x bytes delta q v' x' q' k
  proof -
    have call: "server_consume H ?L ?F (\<lambda>c. su_init ?F) bytes delta v (x, q) = (v', (x', q'), k)"
      using that(3) by (simp add: server_layer_def)
    note keeps = server_stream.server_keeps [OF stream that(1,2) call]
    show ?thesis using keeps [OF U'(2) P'(2)] keeps [OF U'(3) P'(3)] by (metis length_replicate)
  qed
  have "\<exists>s' t' p'. read_events P S (server_layer H ?L ?F (\<lambda>c. su_init ?F) c) n s t p = (s', (t', p'), Returned True) \<and>
      server_state (\<lambda>v. v) s' = s1\<lparr>srv_upper := (u', f')\<rparr> \<and> recvd p' = feed p \<and> pending_input t' = []"
    by (rule server_stream.server_reads_all [OF stream [OF U'(1) P'(1)] S t p s(1) run]) (rule keep)
  then show ?thesis using h by (auto simp: server_state_id)
qed

end
