(* ===== verification/Mixed_Layer.thy ===== *)
theory Mixed_Layer
  imports WebSocket_Framing
begin

text \<open>
  What an application on top of a \<open>mixed_message_oriented_layer_ptr\<close> relies on, as an interface, and the
  proof that the WebSocket framing layer offers it on every stream. The relation \<open>wrote l ms l'\<close> says that
  the messages \<open>ms\<close> are what was written to the connection between two states of the layers below.
\<close>

section \<open>The interface\<close>

locale mixed_lower =
  fixes P :: "'l mixed_message_oriented_layer_ptr"
    and ready :: "'l \<Rightarrow> bool"
    and wrote :: "'l \<Rightarrow> ws_message list \<Rightarrow> 'l \<Rightarrow> bool"
  assumes wrote_refl [intro, simp]: "wrote l [] l"
    and wrote_trans: "wrote l ms l' \<Longrightarrow> wrote l' ns l'' \<Longrightarrow> wrote l (ms @ ns) l''"
    and send_ready [intro, simp]: "ready l \<Longrightarrow> ready (send_message P m l)"
    and send_wrote [intro, simp]: "ready l \<Longrightarrow> wrote l [m] (send_message P m l)"
    and send_reason [simp]: "ready l \<Longrightarrow> mm_abort_reason P (send_message P m l) = mm_abort_reason P l"
    and abort_ready [intro, simp]: "ready l \<Longrightarrow> ready (mm_set_abort_reason P e l)"
    and abort_wrote [intro, simp]: "wrote l [] (mm_set_abort_reason P e l)"
    and abort_reason_set [simp]: "mm_abort_reason P (mm_set_abort_reason P e l) = Some e"
begin

lemma wrote_send: "ready l' \<Longrightarrow> wrote l ms l' \<Longrightarrow> wrote l (ms @ [m]) (send_message P m l')"
  using wrote_trans send_wrote by blast

lemma wrote_abort: "wrote l ms l' \<Longrightarrow> wrote l ms (mm_set_abort_reason P e l')"
  using wrote_trans [OF _ abort_wrote] by fastforce

lemma send_messages_wrote: "ready l \<Longrightarrow> ready (send_messages P ms l) \<and> wrote l ms (send_messages P ms l)"
proof (induction ms arbitrary: l)
  case (Cons m ms)
  then have "wrote (send_message P m l) ms (send_messages P ms (send_message P m l))" by simp
  with Cons show ?case using wrote_trans [of l "[m]"] by fastforce
qed simp

end

section \<open>The framing layer offers the interface\<close>

definition framing_ready :: "('g, 'd) framing_stack \<Rightarrow> bool" where
  "framing_ready l \<longleftrightarrow> text_buf (fst l) = [] \<and> binary_buf (fst l) = []"

definition framing_wrote ::
  "'d stream_oriented_layer_ptr \<Rightarrow> ('g, 'd) framing_stack \<Rightarrow> ws_message list \<Rightarrow> ('g, 'd) framing_stack \<Rightarrow> bool" where
  "framing_wrote L l ms l' \<longleftrightarrow>
     (\<exists>kms. map snd kms = ms \<and> output_buffer L (snd l') = output_buffer L (snd l) @ keyed_frames kms)"

lemma keyed_frames_append: "keyed_frames (xs @ ys) = keyed_frames xs @ keyed_frames ys"
  by (simp add: keyed_frames_def)

lemma framing_wrote_trans:
  assumes "framing_wrote L l ms l'" and "framing_wrote L l' ns l''"
  shows "framing_wrote L l (ms @ ns) l''"
proof -
  obtain k1 k2 where "map snd k1 = ms" "output_buffer L (snd l') = output_buffer L (snd l) @ keyed_frames k1"
    "map snd k2 = ns" "output_buffer L (snd l'') = output_buffer L (snd l') @ keyed_frames k2"
    using assms by (auto simp: framing_wrote_def)
  then show ?thesis
    unfolding framing_wrote_def by (intro exI [of _ "k1 @ k2"]) (simp add: keyed_frames_append)
qed

lemma abort_reason_ship:
  assumes "stream_lower L"
  shows "abort_reason L (snd (ship_frame L nxt assemble p f d)) = abort_reason L d"
  using stream_lower.abort_append [OF assms] by (simp add: ship_frame_def split: prod.split)

lemma abort_reason_send:
  assumes "stream_lower L"
  shows "abort_reason L (snd (send_message (make_mixed_message_oriented_layer_ptr L nxt) m l)) = abort_reason L (snd l)"
  using abort_reason_ship [OF assms, of nxt]
  by (cases m; cases l)
    (simp_all add: make_mixed_message_oriented_layer_ptr_def end_text_message_def end_binary_message_def Let_def
      case_prod_unfold)

lemma framing_send:
  assumes "stream_lower L" and "framing_ready l"
  shows "framing_ready (send_message (make_mixed_message_oriented_layer_ptr L nxt) m l)"
    and "framing_wrote L l [m] (send_message (make_mixed_message_oriented_layer_ptr L nxt) m l)"
proof -
  obtain f d where l: "l = (f, d)" by (cases l)
  then have "text_buf f = []" "binary_buf f = []" using assms(2) by (auto simp: framing_ready_def)
  from send_message_wire [OF assms(1) this, of nxt m d] obtain k f' d' where
    "send_message (make_mixed_message_oriented_layer_ptr L nxt) m (f, d) = (f', d')"
    "output_buffer L d' = output_buffer L d @ final_frame (msg_opcode m) k (msg_payload m)"
    "text_buf f' = []" "binary_buf f' = []" by blast
  then show "framing_ready (send_message (make_mixed_message_oriented_layer_ptr L nxt) m l)"
    "framing_wrote L l [m] (send_message (make_mixed_message_oriented_layer_ptr L nxt) m l)"
    unfolding framing_wrote_def by (auto simp: l framing_ready_def keyed_frames_def intro: exI [of _ "[(k, m)]"])
qed

text \<open>From here on, sending a message is one step.\<close>

declare send_message.simps [simp del]

sublocale stream_lower \<subseteq> mixed: mixed_lower "make_mixed_message_oriented_layer_ptr L nxt" framing_ready "framing_wrote L"
  for nxt
proof (unfold_locales, goal_cases)
  case (1 l)
  show ?case by (auto simp: framing_wrote_def keyed_frames_def)
next
  case (2 l ms l' ns l'')
  then show ?case by (rule framing_wrote_trans)
next
  case (3 l m)
  then show ?case by (rule framing_send [OF stream_lower_axioms])
next
  case (4 l m)
  then show ?case by (rule framing_send [OF stream_lower_axioms])
next
  case (5 l m)
  show ?case
    using abort_reason_send [OF stream_lower_axioms] by (simp add: make_mixed_message_oriented_layer_ptr_def case_prod_unfold)
qed (auto simp: framing_wrote_def framing_ready_def keyed_frames_def make_mixed_message_oriented_layer_ptr_def
      split: prod.splits)

context stream_lower
begin

lemma mixed_lower_framing: "mixed_lower (make_mixed_message_oriented_layer_ptr L nxt) framing_ready (framing_wrote L)"
  by (rule mixed.mixed_lower_axioms)

end

end
