(* ===== verification/Actor_Shell.thy ===== *)
theory Actor_Shell
  imports Endpoint_Manager
begin

text \<open>
  Actor shells (\<open>abstract_actor_shell.hpp\<close>, \<open>src/net/abstract_actor_shell.cpp\<close>, \<open>actor_shell.hpp\<close>,
  \<open>src/net/actor_shell.cpp\<close>, \<open>typed_actor_shell.hpp\<close>): an actor inside of a socket manager. The mailbox, the behaviors and the
  classification of message IDs belong to the CAF core library: they are operations of an environment
  on the mailbox state \<open>'q\<close>, behaviors of type \<open>'h\<close> and the state \<open>'s\<close> of the application that
  they change.
\<close>

section \<open>Environment and state\<close>

record ('p, 'r) shell_msg =
  sm_mid :: u64
  sm_sender :: "'r option"
  sm_payload :: 'p

text \<open>
  \<open>mb_next\<close> is \<open>q.inc_deficit(1); q.next()\<close>; \<open>mb_new_round\<close> is \<open>new_round(1000, bounce)\<close> and
  returns the consumed elements.
\<close>

record ('p, 'r, 'q) mailbox =
  mb_blocked :: "'q \<Rightarrow> bool"
  mb_closed :: "'q \<Rightarrow> bool"
  mb_fetch_more :: "'q \<Rightarrow> 'q"
  mb_total_task_size :: "'q \<Rightarrow> nat"
  mb_next :: "'q \<Rightarrow> ('p, 'r) shell_msg option \<times> 'q"
  mb_try_block :: "'q \<Rightarrow> bool \<times> 'q"
  mb_push_back :: "('p, 'r) shell_msg \<Rightarrow> 'q \<Rightarrow> inbox_result \<times> 'q"
  mb_close :: "'q \<Rightarrow> 'q"
  mb_new_round :: "'q \<Rightarrow> ('p, 'r) shell_msg list \<times> 'q"
  mb_peek :: "'q \<Rightarrow> ('p, 'r) shell_msg option"

record ('p, 'h, 's, 'x) shell_env =
  is_response :: "u64 \<Rightarrow> bool"
  is_request :: "u64 \<Rightarrow> bool"
  run_behavior :: "'h \<Rightarrow> 'p \<Rightarrow> 's \<Rightarrow> 'x option \<times> 's"
  run_fallback :: "'h \<Rightarrow> 'p \<Rightarrow> 's \<Rightarrow> 'x \<times> 's"
  visit_result :: "'x \<Rightarrow> 's \<Rightarrow> 's"
  unexpected_response :: "'p \<Rightarrow> 'p"

record ('q, 'h) actor_shell =
  sh_mailbox :: 'q
  sh_owner :: bool
  sh_bhvr :: 'h
  sh_fallback :: 'h
  sh_responses :: "(u64 \<times> 'h) list"

definition shell_new :: "('p, 'r, 'q) mailbox \<Rightarrow> 'q \<Rightarrow> 'h \<Rightarrow> 'h \<Rightarrow> ('q, 'h) actor_shell" where
  "shell_new M q bhvr fallback =
     \<lparr>sh_mailbox = snd (mb_try_block M q), sh_owner = True, sh_bhvr = bhvr, sh_fallback = fallback, sh_responses = []\<rparr>"

text \<open>\<open>typed_set_behavior\<close> takes the callbacks out of a typed behavior first.\<close>

definition set_behavior :: "'h \<Rightarrow> ('q, 'h) actor_shell \<Rightarrow> ('q, 'h) actor_shell" where
  "set_behavior bhvr a = a\<lparr>sh_bhvr := bhvr\<rparr>"

definition typed_set_behavior :: "('t \<Rightarrow> 'h) \<Rightarrow> 't \<Rightarrow> ('q, 'h) actor_shell \<Rightarrow> ('q, 'h) actor_shell" where
  "typed_set_behavior unbox bhvr a = a\<lparr>sh_bhvr := unbox bhvr\<rparr>"

definition set_fallback :: "'h \<Rightarrow> ('q, 'h) actor_shell \<Rightarrow> ('q, 'h) actor_shell" where
  "set_fallback f a = a\<lparr>sh_fallback := f\<rparr>"

text \<open>\<open>socket_manager::make_actor_shell\<close>: spawning creates a shell on a new mailbox.\<close>

definition make_actor_shell :: "('p, 'r, 'q) mailbox \<Rightarrow> 'q \<Rightarrow> 'h \<Rightarrow> 'h \<Rightarrow> ('q, 'h) actor_shell" where
  "make_actor_shell M q no_behavior f = set_fallback f (shell_new M q no_behavior no_behavior)"

section \<open>Receiving\<close>

definition shell_next_message ::
  "('p, 'r, 'q) mailbox \<Rightarrow> ('q, 'h) actor_shell \<Rightarrow> ('p, 'r) shell_msg option \<times> ('q, 'h) actor_shell" where
  "shell_next_message M a =
     (if \<not> mb_blocked M (sh_mailbox a) then
        let q = mb_fetch_more M (sh_mailbox a) in
        if mb_total_task_size M q > 0 then let (r, q') = mb_next M q in (r, a\<lparr>sh_mailbox := q'\<rparr>)
        else (None, a\<lparr>sh_mailbox := q\<rparr>)
      else (None, a))"

definition try_block_mailbox :: "('p, 'r, 'q) mailbox \<Rightarrow> ('q, 'h) actor_shell \<Rightarrow> bool \<times> ('q, 'h) actor_shell" where
  "try_block_mailbox M a =
     (if mb_blocked M (sh_mailbox a) then (True, a)
      else let (b, q) = mb_try_block M (sh_mailbox a) in (b, a\<lparr>sh_mailbox := q\<rparr>))"

text \<open>
  What happens to a message: a request or asynchronous message, or a response. Behaviors act on the state
  of the application; response handlers that they add for requests of their own are not part of this step.
\<close>

definition process_message ::
  "('p, 'h, 's, 'x) shell_env \<Rightarrow> ('p, 'r) shell_msg \<Rightarrow> ('q, 'h) actor_shell \<Rightarrow> 's \<Rightarrow> ('q, 'h) actor_shell \<times> 's" where
  "process_message E msg a s =
     (if \<not> is_response E (sm_mid msg) then
        (case run_behavior E (sh_bhvr a) (sm_payload msg) s of
           (Some result, s1) \<Rightarrow> (a, visit_result E result s1)
         | (None, s1) \<Rightarrow> let (result, s2) = run_fallback E (sh_fallback a) (sm_payload msg) s1 in (a, visit_result E result s2))
      else
        (case map_of (sh_responses a) (sm_mid msg) of
           None \<Rightarrow> (a, s)
         | Some bhvr \<Rightarrow>
             let a' = a\<lparr>sh_responses := filter (\<lambda>p. fst p \<noteq> sm_mid msg) (sh_responses a)\<rparr> in
             (case run_behavior E bhvr (sm_payload msg) s of
                (Some _, s1) \<Rightarrow> (a', s1)
              | (None, s1) \<Rightarrow> (a', snd (run_behavior E bhvr (unexpected_response E (sm_payload msg)) s1)))))"

definition consume_message ::
  "('p, 'r, 'q) mailbox \<Rightarrow> ('p, 'h, 's, 'x) shell_env \<Rightarrow> ('q, 'h) actor_shell \<Rightarrow> 's \<Rightarrow> bool \<times> ('q, 'h) actor_shell \<times> 's" where
  "consume_message M E a s =
     (case shell_next_message M a of
        (Some msg, a') \<Rightarrow> (True, process_message E msg a' s)
      | (None, a') \<Rightarrow> (False, a', s))"

text \<open>The request of a timeout is left to CAF. \<open>emplace\<close> keeps an existing entry.\<close>

definition add_multiplexed_response_handler :: "u64 \<Rightarrow> 'h \<Rightarrow> ('q, 'h) actor_shell \<Rightarrow> ('q, 'h) actor_shell" where
  "add_multiplexed_response_handler response_id bhvr a = a\<lparr>sh_responses := emplace response_id bhvr (sh_responses a)\<rparr>"

section \<open>Sending to the shell and closing it\<close>

text \<open>
  The result: whether the message was accepted, whether the owner is registered for writing, and the
  bounced request, if any.
\<close>

definition shell_enqueue ::
  "('p, 'r, 'q) mailbox \<Rightarrow> ('p, 'h, 's, 'x) shell_env \<Rightarrow> ('p, 'r) shell_msg \<Rightarrow> ('q, 'h) actor_shell \<Rightarrow>
   bool \<times> bool \<times> ('r option \<times> u64) list \<times> ('q, 'h) actor_shell" where
  "shell_enqueue M E msg a =
     (case mb_push_back M msg (sh_mailbox a) of
        (Inbox_unblocked_reader, q) \<Rightarrow> (True, sh_owner a, [], a\<lparr>sh_mailbox := q\<rparr>)
      | (Inbox_queue_closed, q) \<Rightarrow>
          (False, False, if is_request E (sm_mid msg) then [(sm_sender msg, sm_mid msg)] else [], a\<lparr>sh_mailbox := q\<rparr>)
      | (Inbox_success, q) \<Rightarrow> (True, False, [], a\<lparr>sh_mailbox := q\<rparr>))"

definition peek_at_next_mailbox_element ::
  "('p, 'r, 'q) mailbox \<Rightarrow> ('q, 'h) actor_shell \<Rightarrow> ('p, 'r) shell_msg option" where
  "peek_at_next_mailbox_element M a =
     (if mb_closed M (sh_mailbox a) \<or> mb_blocked M (sh_mailbox a) then None else mb_peek M (sh_mailbox a))"

text \<open>The loop that drops the rest of the mailbox; requests are bounced to their senders.\<close>

definition bounces :: "('p, 'h, 's, 'x) shell_env \<Rightarrow> ('p, 'r) shell_msg list \<Rightarrow> ('r option \<times> u64) list" where
  "bounces E ms = map (\<lambda>m. (sm_sender m, sm_mid m)) (filter (\<lambda>m. is_request E (sm_mid m)) ms)"

partial_function (option) drop_loop ::
  "('p, 'r, 'q) mailbox \<Rightarrow> ('p, 'h, 's, 'x) shell_env \<Rightarrow> 'q \<Rightarrow> ('r option \<times> u64) list \<Rightarrow>
   ('q \<times> ('r option \<times> u64) list) option" where
  "drop_loop M E q acc =
     (case mb_new_round M q of
        (ms, q') \<Rightarrow> if ms = [] then Some (q', acc) else drop_loop M E q' (acc @ bounces E ms))"

definition cleanup ::
  "('p, 'r, 'q) mailbox \<Rightarrow> ('p, 'h, 's, 'x) shell_env \<Rightarrow> ('q, 'h) actor_shell \<Rightarrow>
   (('q, 'h) actor_shell \<times> ('r option \<times> u64) list) option" where
  "cleanup M E a =
     (if \<not> mb_closed M (sh_mailbox a) then
        case drop_loop M E (mb_close M (sh_mailbox a)) [] of
          None \<Rightarrow> None
        | Some (q, bounced) \<Rightarrow> Some (a\<lparr>sh_mailbox := q, sh_owner := False\<rparr>, bounced)
      else Some (a\<lparr>sh_owner := False\<rparr>, []))"

definition shell_quit ::
  "('p, 'r, 'q) mailbox \<Rightarrow> ('p, 'h, 's, 'x) shell_env \<Rightarrow> ('q, 'h) actor_shell \<Rightarrow>
   (('q, 'h) actor_shell \<times> ('r option \<times> u64) list) option" where
  "shell_quit M E a = cleanup M E a"

section \<open>Pointers to shells (actor\_shell.cpp)\<close>

text \<open>
  \<open>actor_shell_ptr\<close> holds a counted reference to a shell. The destructor quits the shell and drops the
  reference; \<open>detach\<close> quits the shell and then calls \<open>release\<close>, which empties the pointer without
  dropping the reference. The results are the pointer, the shell and the bounced requests.
\<close>

record ('q, 'h) shell_object =
  so_shell :: "('q, 'h) actor_shell"
  so_refs :: nat

definition shell_ptr_destroy ::
  "('p, 'r, 'q) mailbox \<Rightarrow> ('p, 'h, 's, 'x) shell_env \<Rightarrow> bool \<Rightarrow> ('q, 'h) shell_object \<Rightarrow>
   (('q, 'h) shell_object \<times> ('r option \<times> u64) list) option" where
  "shell_ptr_destroy M E ptr x =
     (if ptr then map_option (\<lambda>(a, bounced). (x\<lparr>so_shell := a, so_refs := so_refs x - 1\<rparr>, bounced)) (shell_quit M E (so_shell x))
      else Some (x, []))"

definition shell_ptr_detach ::
  "('p, 'r, 'q) mailbox \<Rightarrow> ('p, 'h, 's, 'x) shell_env \<Rightarrow> bool \<Rightarrow> ('q, 'h) shell_object \<Rightarrow>
   (bool \<times> ('q, 'h) shell_object \<times> ('r option \<times> u64) list) option" where
  "shell_ptr_detach M E ptr x =
     (if ptr then map_option (\<lambda>(a, bounced). (False, x\<lparr>so_shell := a\<rparr>, bounced)) (shell_quit M E (so_shell x))
      else Some (False, x, []))"

text \<open>The same two operations of \<open>typed_actor_shell_ptr\<close>.\<close>

definition typed_shell_ptr_destroy ::
  "('p, 'r, 'q) mailbox \<Rightarrow> ('p, 'h, 's, 'x) shell_env \<Rightarrow> bool \<Rightarrow> ('q, 'h) shell_object \<Rightarrow>
   (('q, 'h) shell_object \<times> ('r option \<times> u64) list) option" where
  "typed_shell_ptr_destroy M E ptr x =
     (if ptr then map_option (\<lambda>(a, bounced). (x\<lparr>so_shell := a, so_refs := so_refs x - 1\<rparr>, bounced)) (shell_quit M E (so_shell x))
      else Some (x, []))"

definition typed_shell_ptr_detach ::
  "('p, 'r, 'q) mailbox \<Rightarrow> ('p, 'h, 's, 'x) shell_env \<Rightarrow> bool \<Rightarrow> ('q, 'h) shell_object \<Rightarrow>
   (bool \<times> ('q, 'h) shell_object \<times> ('r option \<times> u64) list) option" where
  "typed_shell_ptr_detach M E ptr x =
     (if ptr then map_option (\<lambda>(a, bounced). (False, x\<lparr>so_shell := a\<rparr>, bounced)) (shell_quit M E (so_shell x))
      else Some (False, x, []))"

lemma typed_shell_ptr_same:
  "typed_shell_ptr_destroy M E ptr x = shell_ptr_destroy M E ptr x"
  "typed_shell_ptr_detach M E ptr x = shell_ptr_detach M E ptr x"
  by (simp_all add: typed_shell_ptr_destroy_def shell_ptr_destroy_def typed_shell_ptr_detach_def shell_ptr_detach_def)

text \<open>After \<open>detach\<close> nothing drops the reference any more: the destructor of the empty pointer does not.\<close>

lemma detach_keeps_reference:
  assumes "shell_ptr_detach M E ptr x = Some (ptr', x', bounced)" and "shell_ptr_destroy M E ptr' x' = Some (x'', bounced')"
  shows "so_refs x'' = so_refs x" and "bounced' = []"
  using assms by (auto simp: shell_ptr_detach_def shell_ptr_destroy_def split: if_splits)

section \<open>Properties\<close>

text \<open>
  What \<open>cleanup\<close> relies on: \<open>content\<close> is what is left in the mailbox, in order; a round takes a
  prefix of it and takes something unless it is empty; closing keeps the content.
\<close>

definition mailbox_ok :: "('p, 'r, 'q) mailbox \<Rightarrow> ('q \<Rightarrow> ('p, 'r) shell_msg list) \<Rightarrow> bool" where
  "mailbox_ok M content \<longleftrightarrow>
     (\<forall>q. content (mb_close M q) = content q) \<and>
     (\<forall>q ms q'. mb_new_round M q = (ms, q') \<longrightarrow> content q = ms @ content q' \<and> (content q \<noteq> [] \<longrightarrow> ms \<noteq> []))"

lemma bounces_append [simp]: "bounces E (xs @ ys) = bounces E xs @ bounces E ys"
  by (simp add: bounces_def)

lemma drop_loop_spec:
  assumes ok: "mailbox_ok M content"
  shows "\<exists>q'. drop_loop M E q acc = Some (q', acc @ bounces E (content q)) \<and> content q' = []"
proof (induction "length (content q)" arbitrary: q acc rule: less_induct)
  case less
  obtain ms q1 where n: "mb_new_round M q = (ms, q1)" by fastforce
  have c: "content q = ms @ content q1" "content q \<noteq> [] \<longrightarrow> ms \<noteq> []"
    using ok n unfolding mailbox_ok_def by blast+
  show ?case
  proof (cases "ms = []")
    case True
    then have "content q = []" using c(2) by blast
    moreover from this have "content q1 = []" using c(1) by simp
    moreover have "drop_loop M E q acc = Some (q1, acc)"
      by (subst drop_loop.simps) (simp add: n True)
    ultimately show ?thesis by (simp add: bounces_def)
  next
    case False
    then have "length (content q1) < length (content q)" using c(1) by simp
    from less [OF this, of "acc @ bounces E ms"]
    obtain q' where r: "drop_loop M E q1 (acc @ bounces E ms) = Some (q', (acc @ bounces E ms) @ bounces E (content q1))"
      "content q' = []" by blast
    have "drop_loop M E q acc = drop_loop M E q1 (acc @ bounces E ms)"
      by (subst drop_loop.simps) (simp add: n False)
    then show ?thesis by (simp add: r c(1))
  qed
qed

definition list_mailbox :: "('p, 'r, ('p, 'r) shell_msg list \<times> bool) mailbox" where
  "list_mailbox =
     \<lparr>mb_blocked = (\<lambda>q. False), mb_closed = snd, mb_fetch_more = (\<lambda>q. q), mb_total_task_size = (\<lambda>q. length (fst q)),
      mb_next = (\<lambda>(ms, c). case ms of [] \<Rightarrow> (None, ([], c)) | m # ms \<Rightarrow> (Some m, (ms, c))),
      mb_try_block = (\<lambda>q. (False, q)),
      mb_push_back = (\<lambda>m (ms, c). if c then (Inbox_queue_closed, (ms, c)) else (Inbox_success, (ms @ [m], c))),
      mb_close = (\<lambda>(ms, c). (ms, True)),
      mb_new_round = (\<lambda>(ms, c). (take 1000 ms, (drop 1000 ms, c))),
      mb_peek = (\<lambda>(ms, c). case ms of [] \<Rightarrow> None | m # _ \<Rightarrow> Some m)\<rparr>"

lemma list_mailbox_ok: "mailbox_ok list_mailbox fst"
  by (auto simp: mailbox_ok_def list_mailbox_def)

definition count_env :: "(nat, nat, nat list, unit) shell_env" where
  "count_env =
     \<lparr>is_response = (\<lambda>i. i > 100), is_request = (\<lambda>i. 0 < i \<and> i \<le> 100),
      run_behavior = (\<lambda>h p s. (if h < p then None else Some (), s @ [p])),
      run_fallback = (\<lambda>h p s. ((), s)), visit_result = (\<lambda>x s. s), unexpected_response = (\<lambda>p. 0)\<rparr>"

text \<open>
  C35: Quitting an actor shell always returns, drops everything from its mailbox, detaches it from its
  owner and bounces exactly the requests that were waiting, in order.
\<close>

theorem quit_bounces_requests:
  assumes "mailbox_ok M content" and "\<not> mb_closed M (sh_mailbox a)"
  shows "\<exists>a'. shell_quit M E a = Some (a', bounces E (content (sh_mailbox a))) \<and>
    content (sh_mailbox a') = [] \<and> \<not> sh_owner a'"
proof -
  have c: "content (mb_close M (sh_mailbox a)) = content (sh_mailbox a)"
    using assms(1) unfolding mailbox_ok_def by blast
  obtain q where "drop_loop M E (mb_close M (sh_mailbox a)) [] = Some (q, bounces E (content (sh_mailbox a)))" "content q = []"
    using drop_loop_spec [OF assms(1), of E "mb_close M (sh_mailbox a)" "[]"] c by auto
  then show ?thesis using assms(2) by (simp add: shell_quit_def cleanup_def)
qed

theorem quit_bounces_requests_witness:
  "\<exists>a'. shell_quit list_mailbox count_env
      \<lparr>sh_mailbox = ([\<lparr>sm_mid = 5, sm_sender = Some (1 :: nat), sm_payload = 3\<rparr>, \<lparr>sm_mid = 0, sm_sender = None, sm_payload = 4\<rparr>], False),
       sh_owner = True, sh_bhvr = 9, sh_fallback = 9, sh_responses = []\<rparr> = Some (a', [(Some 1, 5)]) \<and> \<not> sh_owner a'"
proof -
  let ?a = "\<lparr>sh_mailbox = ([\<lparr>sm_mid = 5, sm_sender = Some (1 :: nat), sm_payload = 3\<rparr>, \<lparr>sm_mid = 0, sm_sender = None, sm_payload = 4\<rparr>], False),
       sh_owner = True, sh_bhvr = 9, sh_fallback = 9, sh_responses = []\<rparr>"
  have "\<not> mb_closed list_mailbox (sh_mailbox ?a)" by (simp add: list_mailbox_def)
  from quit_bounces_requests [OF list_mailbox_ok this, of count_env] show ?thesis
    by (auto simp: bounces_def count_env_def)
qed

text \<open>
  A response handler runs for one response only: it is removed with the first response for its ID,
  so a second response with the same ID is consumed without any effect, as is a response that nobody
  waits for.
\<close>

lemma response_handled_once:
  assumes "is_response E (sm_mid msg)" and "process_message E msg a s = (a', s')" and "sm_mid msg2 = sm_mid msg"
  shows "process_message E msg2 a' t = (a', t) \<and> (map_of (sh_responses a) (sm_mid msg) = None \<longrightarrow> a' = a \<and> s' = s)"
proof -
  have "map_of (sh_responses a') (sm_mid msg) = None"
    using assms(1,2)
    by (auto simp: process_message_def map_of_eq_None_iff Let_def split: option.splits prod.splits)
  then show ?thesis using assms by (auto simp: process_message_def split: option.splits)
qed

end
