(* ===== verification/WebSocket_Apps.thy ===== *)
theory WebSocket_Apps
  imports Mixed_Layer Pollset_Updater Actor_Shell
begin

text \<open>
  What the applications of \<open>examples/net\<close> have in common: an actor shell inside of a WebSocket
  application. The callbacks \<open>prepare_send\<close> and \<open>done_sending\<close> are the same in all of them; the fallback
  handler comes from \<open>socket_manager::make_actor_shell\<close>. The state \<open>'l\<close> are the layers below, on which the
  behaviors of the shell act through the pointer that they capture.
\<close>

section \<open>The layers below\<close>

text \<open>The layer pointer of an application: WebSocket framing on a stream transport of a manager.\<close>

abbreviation ws_ptr ::
  "'w mpx_env \<Rightarrow> nat \<Rightarrow> mgr \<Rightarrow> ('g \<Rightarrow> u32 \<times> 'g) \<Rightarrow>
   ('g, 'w multiplexer transport_stack) framing_stack mixed_message_oriented_layer_ptr" where
  "ws_ptr E self m nxt \<equiv> make_mixed_message_oriented_layer_ptr (make_stream_oriented_layer_ptr (manager_ptr E self m)) nxt"

interpretation ws: mixed_lower
  "make_mixed_message_oriented_layer_ptr (make_stream_oriented_layer_ptr (manager_ptr E self m)) nxt"
  framing_ready "framing_wrote (make_stream_oriented_layer_ptr (manager_ptr E self m))" for E self m nxt
  by (rule stream_lower.mixed_lower_framing [OF manager.transport.stream_lower_axioms])

section \<open>Callbacks\<close>

text \<open>The fallback handler: an unexpected message aborts the application.\<close>

definition default_fallback :: "'l mixed_message_oriented_layer_ptr \<Rightarrow> ('p \<Rightarrow> string) \<Rightarrow> 'p \<Rightarrow> 'l \<Rightarrow> 'l" where
  "default_fallback P show_msg msg l = mm_set_abort_reason P (Sec_error sec_unexpected_message (show_msg msg)) l"

partial_function (option) app_prepare_send ::
  "('p, 'r, 'q) mailbox \<Rightarrow> ('p, 'h, 'l, 'x) shell_env \<Rightarrow> 'l mixed_message_oriented_layer_ptr \<Rightarrow>
   ('q, 'h) actor_shell \<Rightarrow> 'l \<Rightarrow> (bool \<times> ('q, 'h) actor_shell \<times> 'l) option" where
  "app_prepare_send M S P a l =
     (case consume_message M S a l of
        (consumed, a', l') \<Rightarrow>
          if \<not> consumed then Some (True, a', l')
          else if mm_abort_reason P l' \<noteq> None then Some (False, a', l')
          else app_prepare_send M S P a' l')"

definition app_done_sending :: "('p, 'r, 'q) mailbox \<Rightarrow> ('q, 'h) actor_shell \<Rightarrow> bool \<times> ('q, 'h) actor_shell" where
  "app_done_sending M a = try_block_mailbox M a"

text \<open>The results of \<open>caf_main\<close>.\<close>

datatype exit_code = EXIT_SUCCESS | EXIT_FAILURE

section \<open>What the loop does\<close>

text \<open>The waiting messages processed one after the other, until one of them sets the abort reason.\<close>

fun process_all ::
  "('p, 'h, 'l, 'x) shell_env \<Rightarrow> 'l mixed_message_oriented_layer_ptr \<Rightarrow> ('p, 'r) shell_msg list \<Rightarrow>
   ('q, 'h) actor_shell \<Rightarrow> 'l \<Rightarrow> bool \<times> ('p, 'r) shell_msg list \<times> ('q, 'h) actor_shell \<times> 'l" where
  "process_all S P [] a l = (True, [], a, l)"
| "process_all S P (m # ms) a l =
     (let (a', l') = process_message S m a l
      in if mm_abort_reason P l' \<noteq> None then (False, ms, a', l') else process_all S P ms a' l')"

text \<open>
  What the loop relies on: \<open>content\<close> is what is left in the mailbox, in order; a blocked mailbox is empty;
  fetching keeps the content and tells whether there is any; the next message is its first.
\<close>

definition mailbox_reads :: "('p, 'r, 'q) mailbox \<Rightarrow> ('q \<Rightarrow> ('p, 'r) shell_msg list) \<Rightarrow> bool" where
  "mailbox_reads M content \<longleftrightarrow>
     (\<forall>q. mb_blocked M q \<longrightarrow> content q = []) \<and>
     (\<forall>q. content (mb_fetch_more M q) = content q \<and>
          (mb_total_task_size M (mb_fetch_more M q) > 0 \<longleftrightarrow> content q \<noteq> [])) \<and>
     (\<forall>q m ms. content q = m # ms \<longrightarrow> (\<exists>q'. mb_next M q = (Some m, q') \<and> content q' = ms))"

lemma next_message_content:
  assumes "mailbox_reads M content"
  shows "case content (sh_mailbox a) of
      [] \<Rightarrow> \<exists>q. shell_next_message M a = (None, a\<lparr>sh_mailbox := q\<rparr>) \<and> content q = []
    | m # ms \<Rightarrow> \<exists>q. shell_next_message M a = (Some m, a\<lparr>sh_mailbox := q\<rparr>) \<and> content q = ms"
proof -
  let ?q = "mb_fetch_more M (sh_mailbox a)"
  have b: "mb_blocked M (sh_mailbox a) \<longrightarrow> content (sh_mailbox a) = []"
    and f: "content ?q = content (sh_mailbox a)" "mb_total_task_size M ?q > 0 \<longleftrightarrow> content (sh_mailbox a) \<noteq> []"
    and n: "\<And>m ms. content ?q = m # ms \<Longrightarrow> \<exists>q'. mb_next M ?q = (Some m, q') \<and> content q' = ms"
    using assms unfolding mailbox_reads_def by blast+
  have same: "a\<lparr>sh_mailbox := sh_mailbox a\<rparr> = a" by simp
  show ?thesis
  proof (cases "content (sh_mailbox a)")
    case Nil
    then show ?thesis
      using f same by (cases "mb_blocked M (sh_mailbox a)") (auto simp: shell_next_message_def Let_def intro: exI [of _ "sh_mailbox a"])
  next
    case (Cons m ms)
    then show ?thesis using b f n by (auto simp: shell_next_message_def Let_def)
  qed
qed

lemma process_message_mailbox:
  "process_message S m (a\<lparr>sh_mailbox := q\<rparr>) l = (let (a', l') = process_message S m a l in (a'\<lparr>sh_mailbox := q\<rparr>, l'))"
  by (auto simp: process_message_def Let_def split: option.splits prod.splits)

lemma process_all_mailbox:
  "process_all S P ms (a\<lparr>sh_mailbox := q\<rparr>) l =
   (let (b, rest, a', l') = process_all S P ms a l in (b, rest, a'\<lparr>sh_mailbox := q\<rparr>, l'))"
  by (induction ms arbitrary: a l) (simp_all add: process_message_mailbox split: prod.split)

lemma app_prepare_send_spec:
  assumes "mailbox_reads M content"
  shows "\<exists>b rest a' l' q. process_all S P (content (sh_mailbox a)) a l = (b, rest, a', l') \<and>
    app_prepare_send M S P a l = Some (b, a'\<lparr>sh_mailbox := q\<rparr>, l') \<and> content q = rest"
proof (induction "content (sh_mailbox a)" arbitrary: a l)
  case Nil
  obtain q where n: "shell_next_message M a = (None, a\<lparr>sh_mailbox := q\<rparr>)" "content q = []"
    using next_message_content [OF assms, of a] Nil.hyps [symmetric] by auto
  have "app_prepare_send M S P a l = Some (True, a\<lparr>sh_mailbox := q\<rparr>, l)"
    by (subst app_prepare_send.simps) (simp add: consume_message_def n)
  then show ?case using n(2) Nil.hyps [symmetric] by auto
next
  case (Cons m ms)
  obtain q where n: "shell_next_message M a = (Some m, a\<lparr>sh_mailbox := q\<rparr>)" "content q = ms"
    using next_message_content [OF assms, of a] Cons.hyps(2) [symmetric] by auto
  obtain a1 l1 where p: "process_message S m a l = (a1, l1)" by fastforce
  let ?a = "a1\<lparr>sh_mailbox := q\<rparr>"
  have c: "consume_message M S a l = (True, ?a, l1)"
    by (simp add: consume_message_def n process_message_mailbox p)
  show ?case
  proof (cases "mm_abort_reason P l1 = None")
    case True
    have "app_prepare_send M S P a l = app_prepare_send M S P ?a l1"
      by (subst app_prepare_send.simps) (simp add: c True)
    moreover have "ms = content (sh_mailbox ?a)" using n(2) by simp
    from Cons.hyps(1) [OF this, of l1] obtain b rest a' l' q' where
      r: "process_all S P ms ?a l1 = (b, rest, a', l')" "app_prepare_send M S P ?a l1 = Some (b, a'\<lparr>sh_mailbox := q'\<rparr>, l')"
        "content q' = rest" using n(2) by auto
    obtain b2 rest2 a2 l2 where s: "process_all S P ms a1 l1 = (b2, rest2, a2, l2)" by (metis prod_cases4)
    then have "b = b2" "rest = rest2" "a' = a2\<lparr>sh_mailbox := q\<rparr>" "l' = l2"
      using r(1) by (simp_all add: process_all_mailbox)
    ultimately show ?thesis
      using r Cons.hyps(2) [symmetric] p True s by auto
  next
    case False
    have "app_prepare_send M S P a l = Some (False, ?a, l1)"
      by (subst app_prepare_send.simps) (simp add: c False)
    then show ?thesis using n(2) Cons.hyps(2) [symmetric] p False by auto
  qed
qed

lemma list_mailbox_reads: "mailbox_reads list_mailbox fst"
  by (auto simp: mailbox_reads_def list_mailbox_def)

text \<open>Messages for a behavior that sends one message for each of them.\<close>

context mixed_lower
begin

lemma process_sends:
  assumes "\<And>m l. m \<in> set ms \<Longrightarrow> process_message S m a l = (a, send_message P (f m) l)"
    and "ready l" and "mm_abort_reason P l = None"
  shows "\<exists>l'. process_all S P ms a l = (True, [], a, l') \<and> ready l' \<and> mm_abort_reason P l' = None \<and> wrote l (map f ms) l'"
  using assms
proof (induction ms arbitrary: l)
  case (Cons m ms)
  let ?l = "send_message P (f m) l"
  obtain l' where r: "process_all S P ms a ?l = (True, [], a, l')" "ready l'" "mm_abort_reason P l' = None" "wrote ?l (map f ms) l'"
    using Cons.IH [of ?l] Cons.prems by auto
  have "wrote l ([f m] @ map f ms) l'" using wrote_trans [OF send_wrote r(4)] Cons.prems(2) by blast
  then show ?case using r Cons.prems by simp
qed simp

end

text \<open>A new WebSocket layer on a new transport of the sample multiplexer.\<close>

abbreviation sample_layers :: "(u32, byte list multiplexer transport_stack) framing_stack" where
  "sample_layers \<equiv> (framing_new 0, (stream_transport_new, sample_mpx))"

lemma sample_layers_ready:
  "framing_ready sample_layers" "mm_abort_reason (ws_ptr pipe_env 0 1 nxt) sample_layers = None"
  by (simp_all add: framing_ready_def framing_new_def make_mixed_message_oriented_layer_ptr_def
      make_stream_oriented_layer_ptr_def manager_ptr_def sample_mpx_def mpx_init_def pipe_env_def multiplexer_new_def
      idle_manager_def add_mgr_def)

end
