(* ===== verification/Calculator.thy ===== *)
theory Calculator
  imports WebSocket_Apps
begin

text \<open>
  The calculator server (\<open>examples/net/web-socket-calculator.cpp\<close>): clients send JSON objects, one per line,
  in WebSocket text messages; the application turns them into requests to a worker actor and answers with
  the results. The JSON reader and writer, the printing of errors and the numbering of requests belong to
  the CAF core library: they are operations of an environment. Text is a list of bytes.
\<close>

section \<open>The worker\<close>

datatype calc_op = Add_atom | Sub_atom

fun json_name :: "calc_op \<Rightarrow> string" where
  "json_name Add_atom = ''addition''"
| "json_name Sub_atom = ''subtraction''"

text \<open>
  The arithmetic is on \<open>int32_t\<close>: a result outside of its range is undefined in C++, here \<open>None\<close>.
\<close>

definition int32_ok :: "int \<Rightarrow> bool" where
  "int32_ok v \<longleftrightarrow> - (2 ^ 31) \<le> v \<and> v < 2 ^ 31"

fun calculate :: "calc_op \<Rightarrow> int \<Rightarrow> int \<Rightarrow> int option" where
  "calculate Add_atom x y = (if int32_ok (x + y) then Some (x + y) else None)"
| "calculate Sub_atom x y = (if int32_ok (x - y) then Some (x - y) else None)"

section \<open>The environment\<close>

text \<open>What a message for the application holds: a result, an error, or something else.\<close>

datatype calc_payload = Calc_result int | Calc_error caf_error | Calc_other string

text \<open>
  \<open>js_load\<close> parses a line or yields the error of the reader, \<open>js_object_name\<close> is the name that
  \<open>assert_next_object_name\<close> compares, \<open>js_field\<close> reads an integer field, \<open>js_write\<close> prints a result.
  \<open>msg_context\<close> is a message as the context of an error.
  \<open>rq_new_id\<close> yields the ID of a request from the previous one, \<open>rq_response_id\<close> the ID of its response.
\<close>

record 'j calc_env =
  js_load :: "byte list \<Rightarrow> caf_error + 'j"
  js_object_name :: "'j \<Rightarrow> string"
  js_field :: "string \<Rightarrow> 'j \<Rightarrow> int option"
  js_write :: "int \<Rightarrow> caf_error + byte list"
  err_to_string :: "caf_error \<Rightarrow> byte list"
  msg_context :: "calc_payload \<Rightarrow> string"
  rq_new_id :: "u64 \<Rightarrow> u64"
  rq_response_id :: "u64 \<Rightarrow> u64"
  id_is_response :: "u64 \<Rightarrow> bool"
  id_is_request :: "u64 \<Rightarrow> bool"

definition adapter_read :: "'j calc_env \<Rightarrow> calc_op \<Rightarrow> 'j \<Rightarrow> (int \<times> int) option" where
  "adapter_read J opr j =
     (if js_object_name J j \<noteq> json_name opr then None
      else case js_field J ''x'' j of
             None \<Rightarrow> None
           | Some x \<Rightarrow> (case js_field J ''y'' j of None \<Rightarrow> None | Some y \<Rightarrow> Some (x, y)))"

definition adapter_write :: "'j calc_env \<Rightarrow> int \<Rightarrow> caf_error + byte list" where
  "adapter_write J result = js_write J result"

section \<open>The application\<close>

abbreviation (input) max_buf_size :: nat where "max_buf_size \<equiv> 1024 * 1024"

abbreviation newline :: byte where "newline \<equiv> 10"

datatype calc_handler = No_behavior | Calc_response

record 'q calc_app =
  ca_buf :: "byte list"
  ca_shell :: "('q, calc_handler) actor_shell"
  ca_last_id :: u64
  ca_requests :: "(u64 \<times> calc_op \<times> int \<times> int) list"

definition calc_app_new :: "('q, calc_handler) actor_shell \<Rightarrow> 'q calc_app" where
  "calc_app_new shell = \<lparr>ca_buf = [], ca_shell = shell, ca_last_id = 0, ca_requests = []\<rparr>"

definition calc_app_init :: "(calc_payload, 'r, 'q) mailbox \<Rightarrow> 'q \<Rightarrow> 'q calc_app \<Rightarrow> 'q calc_app" where
  "calc_app_init M q a = a\<lparr>ca_shell := make_actor_shell M q No_behavior No_behavior\<rparr>"

definition send_error :: "'j calc_env \<Rightarrow> 'l mixed_message_oriented_layer_ptr \<Rightarrow> caf_error \<Rightarrow> 'l \<Rightarrow> 'l" where
  "send_error J P err l = send_message P (Text_message (err_to_string J err)) l"

text \<open>The two callbacks for the response of the worker.\<close>

definition on_result :: "'j calc_env \<Rightarrow> 'l mixed_message_oriented_layer_ptr \<Rightarrow> int \<Rightarrow> 'l \<Rightarrow> 'l" where
  "on_result J P result l =
     (case adapter_write J result of
        Inl _ \<Rightarrow> mm_set_abort_reason P (Sec_error sec_runtime_error []) l
      | Inr str_response \<Rightarrow> send_message P (Text_message str_response) l)"

definition on_error :: "'j calc_env \<Rightarrow> 'l mixed_message_oriented_layer_ptr \<Rightarrow> caf_error \<Rightarrow> 'l \<Rightarrow> 'l" where
  "on_error J P err l = mm_set_abort_reason P err (send_error J P err l)"

text \<open>The shell has no behavior of its own: every message that is not a response is unexpected.\<close>

definition calc_shell_env ::
  "'j calc_env \<Rightarrow> 'l mixed_message_oriented_layer_ptr \<Rightarrow> (calc_payload, calc_handler, 'l, unit) shell_env" where
  "calc_shell_env J P =
     \<lparr>is_response = id_is_response J, is_request = id_is_request J,
      run_behavior = (\<lambda>h p l. case (h, p) of
          (Calc_response, Calc_result v) \<Rightarrow> (Some (), on_result J P v l)
        | (Calc_response, Calc_error e) \<Rightarrow> (Some (), on_error J P e l)
        | _ \<Rightarrow> (None, l)),
      run_fallback = (\<lambda>h p l. ((), default_fallback P (msg_context J) p l)),
      visit_result = (\<lambda>x l. l),
      unexpected_response = (\<lambda>p. Calc_error (Sec_error sec_unexpected_response []))\<rparr>"

text \<open>
  \<open>self->request\<close>: a new ID, a message to the worker and a handler for the response. The timeout of one
  second is left to CAF: it arrives as an error response.
\<close>

definition calc_request :: "'j calc_env \<Rightarrow> calc_op \<Rightarrow> int \<Rightarrow> int \<Rightarrow> 'q calc_app \<Rightarrow> 'q calc_app" where
  "calc_request J opr x y a =
     (let i = rq_new_id J (ca_last_id a) in
      a\<lparr>ca_last_id := i, ca_requests := ca_requests a @ [(i, opr, x, y)],
        ca_shell := add_multiplexed_response_handler (rq_response_id J i) Calc_response (ca_shell a)\<rparr>)"

text \<open>\<open>mtl.try_request\<close>: the first signature of the worker whose arguments the adapter can read.\<close>

definition try_request :: "'j calc_env \<Rightarrow> 'j \<Rightarrow> 'q calc_app \<Rightarrow> 'q calc_app option" where
  "try_request J j a =
     (case adapter_read J Add_atom j of
        Some (x, y) \<Rightarrow> Some (calc_request J Add_atom x y a)
      | None \<Rightarrow>
          (case adapter_read J Sub_atom j of
             Some (x, y) \<Rightarrow> Some (calc_request J Sub_atom x y a)
           | None \<Rightarrow> None))"

definition handle_line ::
  "'j calc_env \<Rightarrow> 'l mixed_message_oriented_layer_ptr \<Rightarrow> byte list \<Rightarrow> 'q calc_app \<times> 'l \<Rightarrow> 'q calc_app \<times> 'l" where
  "handle_line J P line = (\<lambda>(a, l).
     case js_load J line of
       Inr j \<Rightarrow>
         (case try_request J j a of
            Some a' \<Rightarrow> (a', l)
          | None \<Rightarrow> (a, send_error J P (Sec_error sec_runtime_error ''found no matching handler'') l))
     | Inl err \<Rightarrow> (a, send_error J P err l))"

text \<open>The loop over the complete lines in the buffer; \<open>takeWhile\<close> is the search for the newline.\<close>

function calc_lines ::
  "'j calc_env \<Rightarrow> 'l mixed_message_oriented_layer_ptr \<Rightarrow> 'q calc_app \<times> 'l \<Rightarrow> 'q calc_app \<times> 'l" where
  "calc_lines J P (a, l) =
     (let line = takeWhile (\<lambda>c. c \<noteq> newline) (ca_buf a) in
      if length line = length (ca_buf a) then (a, l)
      else if line = [] then calc_lines J P (a\<lparr>ca_buf := drop 1 (ca_buf a)\<rparr>, l)
      else
        let (a', l') = handle_line J P line (a, l)
        in calc_lines J P (a'\<lparr>ca_buf := drop (length line + 1) (ca_buf a)\<rparr>, l'))"
  by pat_completeness auto
termination
  by (relation "measure (\<lambda>(J, P, a, l). length (ca_buf a))")
    (auto intro!: diff_less)

declare calc_lines.simps [simp del]

definition calc_consume_text ::
  "'j calc_env \<Rightarrow> 'l mixed_message_oriented_layer_ptr \<Rightarrow> byte list \<Rightarrow> 'q calc_app \<Rightarrow> 'l \<Rightarrow> 'q calc_app \<times> 'l \<times> int" where
  "calc_consume_text J P txt a l =
     (if length (ca_buf a) + length txt > max_buf_size then
        (a, mm_set_abort_reason P (Sec_error sec_runtime_error ''exceeded max text buffer size'') l, -1)
      else
        let (a', l') = calc_lines J P (a\<lparr>ca_buf := ca_buf a @ txt\<rparr>, l) in (a', l', int (length txt)))"

definition calc_consume_binary ::
  "'l mixed_message_oriented_layer_ptr \<Rightarrow> byte list \<Rightarrow> 'q calc_app \<Rightarrow> 'l \<Rightarrow> 'q calc_app \<times> 'l \<times> int" where
  "calc_consume_binary P bytes a l =
     (a, mm_set_abort_reason P (Sec_error sec_runtime_error ''received binary WebSocket frame (unsupported)'') l, -1)"

definition calc_prepare_send ::
  "'j calc_env \<Rightarrow> (calc_payload, 'r, 'q) mailbox \<Rightarrow> 'l mixed_message_oriented_layer_ptr \<Rightarrow> 'q calc_app \<Rightarrow> 'l \<Rightarrow>
   ('q calc_app \<times> 'l \<times> bool) option" where
  "calc_prepare_send J M P a l =
     (case app_prepare_send M (calc_shell_env J P) P (ca_shell a) l of
        None \<Rightarrow> None
      | Some (b, shell, l') \<Rightarrow> Some (a\<lparr>ca_shell := shell\<rparr>, l', b))"

definition calc_done_sending :: "(calc_payload, 'r, 'q) mailbox \<Rightarrow> 'q calc_app \<Rightarrow> 'q calc_app \<times> bool" where
  "calc_done_sending M a = (let (b, shell) = app_done_sending M (ca_shell a) in (a\<lparr>ca_shell := shell\<rparr>, b))"

section \<open>Lines\<close>

text \<open>The complete lines of a text and what is left, independent of the application.\<close>

fun split_lines :: "byte list \<Rightarrow> byte list list \<times> byte list" where
  "split_lines [] = ([], [])"
| "split_lines (c # cs) =
     (let (ls, rest) = split_lines cs in
      if c = newline then ([] # ls, rest)
      else case ls of [] \<Rightarrow> ([], c # rest) | l # ls' \<Rightarrow> ((c # l) # ls', rest))"

text \<open>Non-empty lines are handled, empty ones skipped.\<close>

definition handle_lines ::
  "'j calc_env \<Rightarrow> 'l mixed_message_oriented_layer_ptr \<Rightarrow> byte list list \<Rightarrow> 'q calc_app \<times> 'l \<Rightarrow> 'q calc_app \<times> 'l" where
  "handle_lines J P ls s = fold (\<lambda>line s. if line = [] then s else handle_line J P line s) ls s"

lemma split_lines_no_newline: "newline \<notin> set xs \<Longrightarrow> split_lines xs = ([], xs)"
  by (induction xs) auto

lemma split_lines_line: "newline \<notin> set xs \<Longrightarrow> split_lines (xs @ newline # ys) = (xs # fst (split_lines ys), snd (split_lines ys))"
  by (induction xs) (auto split: prod.split)

lemma split_lines_append:
  "split_lines (xs @ ys) =
   (fst (split_lines xs) @ fst (split_lines (snd (split_lines xs) @ ys)), snd (split_lines (snd (split_lines xs) @ ys)))"
proof (induction xs rule: length_induct)
  case (1 xs)
  show ?case
  proof (cases "newline \<in> set xs")
    case False
    then show ?thesis by (simp add: split_lines_no_newline)
  next
    case True
    then obtain us vs where xs: "xs = us @ newline # vs" "newline \<notin> set us" by (metis split_list_first)
    then have "length vs < length xs" by simp
    with 1 have "split_lines (vs @ ys) = (fst (split_lines vs) @ fst (split_lines (snd (split_lines vs) @ ys)),
      snd (split_lines (snd (split_lines vs) @ ys)))" by blast
    then show ?thesis using split_lines_line [OF xs(2)] by (simp add: xs(1))
  qed
qed

lemma split_lines_rest: "newline \<notin> set (snd (split_lines xs))" "length (snd (split_lines xs)) \<le> length xs"
  by (induction xs) (auto split: prod.splits list.splits)

text \<open>Handling a line neither reads nor changes the buffer.\<close>

lemma handle_line_buf:
  "handle_line J P line (a\<lparr>ca_buf := b\<rparr>, l) = (let (a', l') = handle_line J P line (a, l) in (a'\<lparr>ca_buf := b\<rparr>, l'))"
  by (auto simp: handle_line_def try_request_def calc_request_def Let_def split: sum.split option.split)

lemma handle_lines_simps [simp]:
  "handle_lines J P [] s = s"
  "handle_lines J P (line # ls) s = handle_lines J P ls (if line = [] then s else handle_line J P line s)"
  by (simp_all add: handle_lines_def)

lemma handle_lines_append [simp]: "handle_lines J P (ls @ ms) s = handle_lines J P ms (handle_lines J P ls s)"
  by (simp add: handle_lines_def)

lemma handle_lines_buf:
  "handle_lines J P ls (a\<lparr>ca_buf := b\<rparr>, l) = (let (a', l') = handle_lines J P ls (a, l) in (a'\<lparr>ca_buf := b\<rparr>, l'))"
proof (induction ls arbitrary: a l)
  case (Cons line ls)
  show ?case
  proof (cases "line = []")
    case True
    then show ?thesis using Cons by simp
  next
    case False
    obtain a1 l1 where h: "handle_line J P line (a, l) = (a1, l1)" by fastforce
    then have "handle_line J P line (a\<lparr>ca_buf := b\<rparr>, l) = (a1\<lparr>ca_buf := b\<rparr>, l1)" by (simp add: handle_line_buf)
    then show ?thesis using False h Cons [of a1 l1] by simp
  qed
qed simp

lemma calc_lines_spec:
  fixes a :: "'q calc_app"
  shows "calc_lines J P (a, l) =
   (let (a', l') = handle_lines J P (fst (split_lines (ca_buf a))) (a, l)
    in (a'\<lparr>ca_buf := snd (split_lines (ca_buf a))\<rparr>, l'))"
proof (induction "length (ca_buf a)" arbitrary: a l rule: less_induct)
  case less
  let ?line = "takeWhile (\<lambda>c. c \<noteq> newline) (ca_buf a)"
  show ?case
  proof (cases "newline \<in> set (ca_buf a)")
    case False
    then have line: "?line = ca_buf a" by (auto simp: takeWhile_eq_all_conv)
    show ?thesis
      using False by (subst calc_lines.simps) (simp add: line split_lines_no_newline)
  next
    case True
    then obtain us vs where b: "ca_buf a = us @ newline # vs" "newline \<notin> set us" by (metis split_list_first)
    then have line: "?line = us" "length us \<noteq> length (ca_buf a)" by (simp_all add: takeWhile_append takeWhile_eq_all_conv [THEN iffD2])
    have IH: "calc_lines J P (x\<lparr>ca_buf := vs\<rparr>, y) =
        (let (a', l') = handle_lines J P (fst (split_lines vs)) (x, y) in (a'\<lparr>ca_buf := snd (split_lines vs)\<rparr>, l'))"
      for x :: "'q calc_app" and y
      using less [of "x\<lparr>ca_buf := vs\<rparr>" y] b by (simp add: handle_lines_buf split: prod.split)
    show ?thesis
      using line b split_lines_line [OF b(2), of vs]
      by (subst calc_lines.simps) (simp add: Let_def IH split: prod.split)
  qed
qed

section \<open>Sequences of text messages\<close>

fun calc_consume_all ::
  "'j calc_env \<Rightarrow> 'l mixed_message_oriented_layer_ptr \<Rightarrow> byte list list \<Rightarrow> 'q calc_app \<Rightarrow> 'l \<Rightarrow> 'q calc_app \<times> 'l \<times> bool" where
  "calc_consume_all J P [] a l = (a, l, True)"
| "calc_consume_all J P (t # ts) a l =
     (let (a', l', r) = calc_consume_text J P t a l
      in if r \<ge> 0 then calc_consume_all J P ts a' l' else (a', l', False))"

text \<open>No text makes the incomplete line exceed the buffer.\<close>

fun within_limit :: "byte list \<Rightarrow> byte list list \<Rightarrow> bool" where
  "within_limit b [] = True"
| "within_limit b (t # ts) \<longleftrightarrow> length b + length t \<le> max_buf_size \<and> within_limit (snd (split_lines (b @ t))) ts"

lemma consume_text_within:
  assumes "length (ca_buf a) + length t \<le> max_buf_size"
  shows "calc_consume_text J P t a l =
    (let (a', l') = handle_lines J P (fst (split_lines (ca_buf a @ t))) (a, l)
     in (a'\<lparr>ca_buf := snd (split_lines (ca_buf a @ t))\<rparr>, l', int (length t)))"
  using assms by (simp add: calc_consume_text_def calc_lines_spec handle_lines_buf split: prod.split)

lemma consume_all_within:
  assumes "newline \<notin> set (ca_buf a)" and "within_limit (ca_buf a) ts"
  shows "calc_consume_all J P ts a l =
    (let (a', l') = handle_lines J P (fst (split_lines (ca_buf a @ concat ts))) (a, l)
     in (a'\<lparr>ca_buf := snd (split_lines (ca_buf a @ concat ts))\<rparr>, l', True))"
  using assms
proof (induction ts arbitrary: a l)
  case Nil
  then show ?case by (simp add: split_lines_no_newline)
next
  case (Cons t ts)
  let ?s = "split_lines (ca_buf a @ t)"
  obtain a1 l1 where h: "handle_lines J P (fst ?s) (a, l) = (a1, l1)" by fastforce
  let ?a = "a1\<lparr>ca_buf := snd ?s\<rparr>"
  have step: "calc_consume_text J P t a l = (?a, l1, int (length t))"
    using Cons.prems h by (simp add: consume_text_within)
  have IH: "calc_consume_all J P ts ?a l1 =
      (let (a', l') = handle_lines J P (fst (split_lines (snd ?s @ concat ts))) (?a, l1)
       in (a'\<lparr>ca_buf := snd (split_lines (snd ?s @ concat ts))\<rparr>, l', True))"
    using Cons.IH [of ?a l1] Cons.prems(2) split_lines_rest(1) by simp
  have "split_lines (ca_buf a @ concat (t # ts)) =
      (fst ?s @ fst (split_lines (snd ?s @ concat ts)), snd (split_lines (snd ?s @ concat ts)))"
    using split_lines_append [of "ca_buf a @ t" "concat ts"] by simp
  then show ?case
    using step IH h by (simp add: handle_lines_buf split: prod.split)
qed

lemma consume_all_exceeds:
  assumes "mixed_lower P ready wrote" and "\<not> within_limit (ca_buf a) ts"
  shows "\<exists>a' l'. calc_consume_all J P ts a l = (a', l', False) \<and> mm_abort_reason P l' \<noteq> None"
  using assms(2)
proof (induction ts arbitrary: a l)
  case (Cons t ts)
  show ?case
  proof (cases "length (ca_buf a) + length t \<le> max_buf_size")
    case True
    obtain a1 l1 where "handle_lines J P (fst (split_lines (ca_buf a @ t))) (a, l) = (a1, l1)" by fastforce
    then show ?thesis
      using True Cons.prems Cons.IH [of "a1\<lparr>ca_buf := snd (split_lines (ca_buf a @ t))\<rparr>" l1]
      by (simp add: consume_text_within)
  next
    case False
    then show ?thesis
      using mixed_lower.abort_reason_set [OF assms(1)] by (simp add: calc_consume_text_def)
  qed
qed simp

section \<open>Requests and answers\<close>

text \<open>The request that a line stands for.\<close>

definition parse_request :: "'j calc_env \<Rightarrow> byte list \<Rightarrow> (calc_op \<times> int \<times> int) option" where
  "parse_request J line =
     (case js_load J line of
        Inl _ \<Rightarrow> None
      | Inr j \<Rightarrow>
          (case adapter_read J Add_atom j of
             Some xy \<Rightarrow> Some (Add_atom, xy)
           | None \<Rightarrow> map_option (Pair Sub_atom) (adapter_read J Sub_atom j)))"

definition handlers_ok :: "'j calc_env \<Rightarrow> 'q calc_app \<Rightarrow> bool" where
  "handlers_ok J a \<longleftrightarrow>
     (\<forall>h \<in> ran (map_of (sh_responses (ca_shell a))). h = Calc_response) \<and>
     (\<forall>r \<in> set (ca_requests a). map_of (sh_responses (ca_shell a)) (rq_response_id J (fst r)) = Some Calc_response)"

lemma handle_line_request:
  assumes "parse_request J line = Some (opr, x, y)"
  shows "handle_line J P line (a, l) = (calc_request J opr x y a, l)"
  using assms by (auto simp: parse_request_def handle_line_def try_request_def split: sum.splits option.splits)

lemma map_of_emplace: "map_of (emplace k v m) i = (if i = k \<and> map_of m k = None then Some v else map_of m i)"
  by (auto simp: emplace_def map_add_def split: option.split)

lemma calc_request_ok: "handlers_ok J a \<Longrightarrow> handlers_ok J (calc_request J opr x y a)"
  by (auto simp: handlers_ok_def calc_request_def add_multiplexed_response_handler_def Let_def map_of_emplace ran_def
      split: if_splits)

text \<open>Requests with the IDs that they get.\<close>

fun number_requests :: "'j calc_env \<Rightarrow> u64 \<Rightarrow> (calc_op \<times> int \<times> int) list \<Rightarrow> (u64 \<times> calc_op \<times> int \<times> int) list" where
  "number_requests J i [] = []"
| "number_requests J i (r # rs) = (rq_new_id J i, r) # number_requests J (rq_new_id J i) rs"

lemma handle_lines_requests:
  assumes "map (parse_request J) (filter (\<lambda>l. l \<noteq> []) ls) = map Some rs" and "handlers_ok J a"
  shows "\<exists>a'. handle_lines J P ls (a, l) = (a', l) \<and> ca_requests a' = ca_requests a @ number_requests J (ca_last_id a) rs \<and>
    handlers_ok J a'"
  using assms
proof (induction ls arbitrary: a rs)
  case (Cons line ls)
  show ?case
  proof (cases "line = []")
    case True
    then show ?thesis using Cons by simp
  next
    case False
    then obtain opr x y rs' where r: "parse_request J line = Some (opr, x, y)" "rs = (opr, x, y) # rs'"
      "map (parse_request J) (filter (\<lambda>l. l \<noteq> []) ls) = map Some rs'"
      using Cons.prems(1) by (cases rs) auto
    note h = handle_line_request [OF r(1), of P a l]
    show ?thesis
      using Cons.IH [OF r(3) calc_request_ok [OF Cons.prems(2), of opr x y]] False h r(2)
      by (auto simp: calc_request_def add_multiplexed_response_handler_def Let_def)
  qed
qed simp

text \<open>Messages of the worker: results of requests, at most one for each.\<close>

definition answers :: "'j calc_env \<Rightarrow> (u64 \<times> calc_op \<times> int \<times> int) list \<Rightarrow> (calc_payload, 'r) shell_msg list \<Rightarrow> bool" where
  "answers J rs ms \<longleftrightarrow>
     distinct (map sm_mid ms) \<and>
     (\<forall>m \<in> set ms. id_is_response J (sm_mid m) \<and>
        (\<exists>(i, opr, x, y) \<in> set rs. sm_mid m = rq_response_id J i \<and>
           (\<exists>v txt. calculate opr x y = Some v \<and> sm_payload m = Calc_result v \<and> js_write J v = Inr txt)))"

definition answer_text :: "'j calc_env \<Rightarrow> (calc_payload, 'r) shell_msg \<Rightarrow> byte list" where
  "answer_text J m =
     (case sm_payload m of Calc_result v \<Rightarrow> (case js_write J v of Inr s \<Rightarrow> s | Inl _ \<Rightarrow> []) | _ \<Rightarrow> [])"

definition is_answer :: "'j calc_env \<Rightarrow> (calc_payload, 'r) shell_msg \<Rightarrow> bool" where
  "is_answer J m \<longleftrightarrow> id_is_response J (sm_mid m) \<and> (\<exists>v txt. sm_payload m = Calc_result v \<and> js_write J v = Inr txt)"

lemma process_answer:
  assumes "is_answer J m" and "map_of (sh_responses a) (sm_mid m) = Some Calc_response"
  shows "process_message (calc_shell_env J P) m a l =
    (a\<lparr>sh_responses := filter (\<lambda>p. fst p \<noteq> sm_mid m) (sh_responses a)\<rparr>, send_message P (Text_message (answer_text J m)) l)"
  using assms
  by (auto simp: is_answer_def process_message_def calc_shell_env_def on_result_def adapter_write_def answer_text_def Let_def)

lemma map_of_filter_key: "map_of (filter (\<lambda>p. fst p \<noteq> k) xs) i = (if i = k then None else map_of xs i)"
  by (induction xs) auto

context mixed_lower
begin

lemma process_answers:
  assumes "distinct (map sm_mid ms)"
    and "\<forall>m \<in> set ms. is_answer J m \<and> map_of (sh_responses a) (sm_mid m) = Some Calc_response"
    and "ready l" and "mm_abort_reason P l = None"
  shows "\<exists>a' l'. process_all (calc_shell_env J P) P ms a l = (True, [], a', l') \<and> ready l' \<and>
    mm_abort_reason P l' = None \<and> wrote l (map (\<lambda>m. Text_message (answer_text J m)) ms) l'"
  using assms
proof (induction ms arbitrary: a l)
  case (Cons m ms)
  let ?a = "a\<lparr>sh_responses := filter (\<lambda>p. fst p \<noteq> sm_mid m) (sh_responses a)\<rparr>"
  let ?l = "send_message P (Text_message (answer_text J m)) l"
  have p: "process_message (calc_shell_env J P) m a l = (?a, ?l)" using Cons.prems(2) by (simp add: process_answer)
  have "\<forall>n \<in> set ms. is_answer J n \<and> map_of (sh_responses ?a) (sm_mid n) = Some Calc_response"
    using Cons.prems(1,2) by (auto simp: map_of_filter_key) (metis image_eqI)
  then obtain a' l' where r: "process_all (calc_shell_env J P) P ms ?a ?l = (True, [], a', l')" "ready l'"
      "mm_abort_reason P l' = None" "wrote ?l (map (\<lambda>m. Text_message (answer_text J m)) ms) l'"
    using Cons.IH [of ?a ?l] Cons.prems by auto
  have "wrote l ([Text_message (answer_text J m)] @ map (\<lambda>m. Text_message (answer_text J m)) ms) l'"
    using wrote_trans [OF send_wrote r(4)] Cons.prems(3) by blast
  then show ?case using p r Cons.prems(3,4) by simp
qed simp

end

section \<open>Properties\<close>

lemma within_limit_rest:
  "within_limit b ts \<Longrightarrow> newline \<notin> set b \<Longrightarrow> length b \<le> max_buf_size \<Longrightarrow>
   length (snd (split_lines (b @ concat ts))) \<le> max_buf_size"
proof (induction ts arbitrary: b)
  case (Cons t ts)
  have "length (snd (split_lines (b @ t))) \<le> max_buf_size"
    using Cons.prems(1) split_lines_rest(2) [of "b @ t"] by simp
  then show ?case
    using Cons.IH [of "snd (split_lines (b @ t))"] Cons.prems split_lines_rest(1)
      split_lines_append [of "b @ t" "concat ts"] by simp
qed (simp add: split_lines_no_newline)

text \<open>
  C29: The calculator handles exactly the complete lines of the text it receives, each once and in order,
  however the text is cut into WebSocket messages; what follows the last newline stays in the buffer, which
  never holds a complete line and never more than one megabyte. Text that would exceed the buffer aborts
  the connection.
\<close>

theorem calculator_reads_lines:
  assumes "newline \<notin> set (ca_buf a)" and "length (ca_buf a) \<le> max_buf_size"
  shows "if within_limit (ca_buf a) ts
    then calc_consume_all J (ws_ptr E self m nxt) ts a l =
        (let (a', l') = handle_lines J (ws_ptr E self m nxt) (fst (split_lines (ca_buf a @ concat ts))) (a, l)
         in (a'\<lparr>ca_buf := snd (split_lines (ca_buf a @ concat ts))\<rparr>, l', True)) \<and>
      newline \<notin> set (snd (split_lines (ca_buf a @ concat ts))) \<and>
      length (snd (split_lines (ca_buf a @ concat ts))) \<le> max_buf_size
    else \<exists>a' l'. calc_consume_all J (ws_ptr E self m nxt) ts a l = (a', l', False) \<and>
      mm_abort_reason (ws_ptr E self m nxt) l' \<noteq> None"
proof (cases "within_limit (ca_buf a) ts")
  case True
  then show ?thesis
    using consume_all_within [OF assms(1) True] within_limit_rest [OF True assms] split_lines_rest(1) by simp
next
  case False
  then show ?thesis using consume_all_exceeds [OF ws.mixed_lower_axioms False] by simp
qed

text \<open>A toy JSON: a line of three bytes, the operation and two operands.\<close>

definition sample_json :: "byte list calc_env" where
  "sample_json =
     \<lparr>js_load = (\<lambda>b. if length b = 3 then Inr b else Inl (Pec_error pec_unexpected_character [])),
      js_object_name = (\<lambda>b. if b ! 0 = 43 then ''addition'' else ''subtraction''),
      js_field = (\<lambda>f b. Some (uint (if f = ''x'' then b ! 1 else b ! 2))),
      js_write = (\<lambda>v. Inr [of_int v]), err_to_string = (\<lambda>e. [63]), msg_context = (\<lambda>p. []),
      rq_new_id = (\<lambda>i. i + 1), rq_response_id = (\<lambda>i. i + 100), id_is_response = (\<lambda>i. i > 100),
      id_is_request = (\<lambda>i. i \<le> 100)\<rparr>"

abbreviation sample_shell :: "(((calc_payload, nat) shell_msg list \<times> bool), calc_handler) actor_shell" where
  "sample_shell \<equiv> \<lparr>sh_mailbox = ([], False), sh_owner = True, sh_bhvr = No_behavior, sh_fallback = No_behavior, sh_responses = []\<rparr>"

abbreviation sample_answers :: "(calc_payload, nat) shell_msg list \<times> bool" where
  "sample_answers \<equiv> ([\<lparr>sm_mid = 102, sm_sender = None, sm_payload = Calc_result 6\<rparr>, \<lparr>sm_mid = 101, sm_sender = None, sm_payload = Calc_result 5\<rparr>],
     False)"

theorem calculator_reads_lines_witness:
  "\<exists>a' l'. calc_consume_all sample_json (ws_ptr pipe_env 0 1 (\<lambda>g. (g, g))) [[43, 2], [3, 10, 45, 9]]
      (calc_app_new sample_shell) sample_layers = (a', l', True) \<and>
     ca_buf a' = [45, 9]"
  using calculator_reads_lines [of "calc_app_new sample_shell" "[[43, 2], [3, 10, 45, 9]]" sample_json pipe_env 0 1
      "\<lambda>g. (g, g)" "sample_layers"]
  by (auto simp: calc_app_new_def split: prod.splits)

text \<open>
  C36: A session of the calculator: the lines of a text become requests to the worker, in order, and
  nothing is written until it answers. When results of the worker wait in the mailbox, in whatever order,
  the next write event writes one text message for each of them, in the order of their arrival.
\<close>

theorem calculator_session:
  assumes "mailbox_reads M content" and "length t \<le> max_buf_size"
    and "map (parse_request J) (filter (\<lambda>l. l \<noteq> []) (fst (split_lines t))) = map Some rs"
    and "sh_responses shell = []" and "framing_ready l" and "mm_abort_reason (ws_ptr E self m nxt) l = None"
  shows "\<exists>a1. calc_consume_text J (ws_ptr E self m nxt) t (calc_app_new shell) l = (a1, l, int (length t)) \<and>
    ca_requests a1 = number_requests J 0 rs \<and>
    (\<forall>q. answers J (ca_requests a1) (content q) \<longrightarrow>
      (\<exists>a2 l2. calc_prepare_send J M (ws_ptr E self m nxt) (a1\<lparr>ca_shell := (ca_shell a1)\<lparr>sh_mailbox := q\<rparr>\<rparr>) l = Some (a2, l2, True) \<and>
        framing_wrote (make_stream_oriented_layer_ptr (manager_ptr E self m)) l
          (map (\<lambda>m. Text_message (answer_text J m)) (content q)) l2 \<and>
        content (sh_mailbox (ca_shell a2)) = []))"
proof -
  let ?P = "ws_ptr E self m nxt" and ?L = "make_stream_oriented_layer_ptr (manager_ptr E self m)"
  have "handlers_ok J (calc_app_new shell)" using assms(4) by (simp add: handlers_ok_def calc_app_new_def)
  from handle_lines_requests [OF assms(3) this, of ?P l] obtain a' where
    h: "handle_lines J ?P (fst (split_lines t)) (calc_app_new shell, l) = (a', l)"
       "ca_requests a' = number_requests J 0 rs" "handlers_ok J a'" by (auto simp: calc_app_new_def)
  let ?a = "a'\<lparr>ca_buf := snd (split_lines t)\<rparr>"
  have c: "calc_consume_text J ?P t (calc_app_new shell) l = (?a, l, int (length t))"
    using consume_text_within [of "calc_app_new shell" t J ?P l] assms(2) h(1) by (simp add: calc_app_new_def)
  moreover have "\<exists>a2 l2. calc_prepare_send J M ?P (?a\<lparr>ca_shell := (ca_shell ?a)\<lparr>sh_mailbox := q\<rparr>\<rparr>) l = Some (a2, l2, True) \<and>
      framing_wrote ?L l (map (\<lambda>m. Text_message (answer_text J m)) (content q)) l2 \<and> content (sh_mailbox (ca_shell a2)) = []"
    if q: "answers J (ca_requests ?a) (content q)" for q
  proof -
    let ?s = "(ca_shell a')\<lparr>sh_mailbox := q\<rparr>"
    have "distinct (map sm_mid (content q))"
      "\<forall>m \<in> set (content q). is_answer J m \<and> map_of (sh_responses ?s) (sm_mid m) = Some Calc_response"
      using q h(3) by (fastforce simp: answers_def is_answer_def handlers_ok_def)+
    from ws.process_answers [OF this assms(5,6)] obtain s' l' where
      p: "process_all (calc_shell_env J ?P) ?P (content q) ?s l = (True, [], s', l')"
        "framing_wrote ?L l (map (\<lambda>m. Text_message (answer_text J m)) (content q)) l'" by blast
    from app_prepare_send_spec [OF assms(1), of "calc_shell_env J ?P" ?P ?s l] p(1) obtain q' where
      "app_prepare_send M (calc_shell_env J ?P) ?P ?s l = Some (True, s'\<lparr>sh_mailbox := q'\<rparr>, l')" "content q' = []" by auto
    then show ?thesis using p(2) by (simp add: calc_prepare_send_def)
  qed
  ultimately show ?thesis using h(2) by (intro exI [of _ ?a]) simp
qed

theorem calculator_session_witness:
  "\<exists>a1. calc_consume_text sample_json (ws_ptr pipe_env 0 1 (\<lambda>g. (g, g))) [43, 2, 3, 10, 10, 45, 9, 3, 10]
        (calc_app_new sample_shell) sample_layers =
        (a1, sample_layers, 9) \<and>
     ca_requests a1 = [(1, Add_atom, 2, 3), (2, Sub_atom, 9, 3)] \<and>
     (\<exists>a2 l2. calc_prepare_send sample_json list_mailbox (ws_ptr pipe_env 0 1 (\<lambda>g. (g, g)))
        (a1\<lparr>ca_shell := (ca_shell a1)\<lparr>sh_mailbox := sample_answers\<rparr>\<rparr>)
        sample_layers = Some (a2, l2, True) \<and>
        framing_wrote (make_stream_oriented_layer_ptr (manager_ptr pipe_env 0 1)) sample_layers
          [Text_message [6], Text_message [5]] l2)"
proof -
  let ?t = "[43, 2, 3, 10, 10, 45, 9, 3, 10] :: byte list"
  have rs: "map (parse_request sample_json) (filter (\<lambda>l. l \<noteq> []) (fst (split_lines ?t))) = map Some [(Add_atom, 2, 3), (Sub_atom, 9, 3)]"
    by (simp add: parse_request_def sample_json_def adapter_read_def)
  have n: "number_requests sample_json 0 [(Add_atom, 2, 3), (Sub_atom, 9, 3)] = [(1, Add_atom, 2, 3), (2, Sub_atom, 9, 3)]"
    by (simp add: sample_json_def)
  have a: "answers sample_json [(1, Add_atom, 2, 3), (2, Sub_atom, 9, 3)] (fst sample_answers)"
    by (simp add: answers_def sample_json_def int32_ok_def)
  obtain a1 where a1: "calc_consume_text sample_json (ws_ptr pipe_env 0 1 (\<lambda>g. (g, g))) ?t (calc_app_new sample_shell) sample_layers = (a1, sample_layers, int (length ?t))"
    "ca_requests a1 = [(1, Add_atom, 2, 3), (2, Sub_atom, 9, 3)]"
    "\<forall>q. answers sample_json (ca_requests a1) (fst q) \<longrightarrow>
      (\<exists>a2 l2. calc_prepare_send sample_json list_mailbox (ws_ptr pipe_env 0 1 (\<lambda>g. (g, g))) (a1\<lparr>ca_shell := (ca_shell a1)\<lparr>sh_mailbox := q\<rparr>\<rparr>) sample_layers = Some (a2, l2, True) \<and>
        framing_wrote (make_stream_oriented_layer_ptr (manager_ptr pipe_env 0 1)) sample_layers (map (\<lambda>m. Text_message (answer_text sample_json m)) (fst q)) l2 \<and>
        fst (sh_mailbox (ca_shell a2)) = [])"
    using calculator_session [OF list_mailbox_reads _ rs _ sample_layers_ready, of sample_shell "\<lambda>g. (g, g)"] n by auto
  have "map (\<lambda>m. Text_message (answer_text sample_json m)) (fst sample_answers) = [Text_message [6], Text_message [5]]"
    by (simp add: answer_text_def sample_json_def)
  moreover have "answers sample_json (ca_requests a1) (fst sample_answers)" using a a1(2) by simp
  from a1(3) [rule_format, OF this] obtain a2 l2 where
    "calc_prepare_send sample_json list_mailbox (ws_ptr pipe_env 0 1 (\<lambda>g. (g, g))) (a1\<lparr>ca_shell := (ca_shell a1)\<lparr>sh_mailbox := sample_answers\<rparr>\<rparr>) sample_layers = Some (a2, l2, True)"
    "framing_wrote (make_stream_oriented_layer_ptr (manager_ptr pipe_env 0 1)) sample_layers (map (\<lambda>m. Text_message (answer_text sample_json m)) (fst sample_answers)) l2"
    by blast
  ultimately show ?thesis using a1(1,2) by (intro exI [of _ a1] conjI exI [of _ a2] exI [of _ l2]) simp_all
qed

end
