(* ===== verification/Client.thy ===== *)
theory Client
  imports WebSocket_Apps WebSocket_Endpoint Sockets
begin

text \<open>
  The interactive client (\<open>examples/net/web-socket-client.cpp\<close>): a WebSocket application that forwards lines
  to the server, a terminal actor that prints what the server sends, and the loop that reads the standard
  input. Text is a list of bytes; what the program prints is a part of the state of the terminal. Actor
  handles have a type \<open>'a\<close>; the printing of errors, locators and sockets belongs to the libraries.
\<close>

section \<open>The application\<close>

text \<open>Messages to the terminal actor.\<close>

datatype 'a terminal_msg =
    Attach 'a
  | Detach
  | Binary_data "byte list"
  | Status "byte list"
  | Text_data "byte list"
  | Input "byte list"

datatype client_payload = Client_line "byte list" | Client_other string

datatype client_handler = Client_no_behavior | Line_behavior

record client_env =
  ce_error_to_string :: "caf_error \<Rightarrow> byte list"
  ce_int_to_string :: "int \<Rightarrow> byte list"
  ce_context :: "client_payload \<Rightarrow> string"
  ce_unexpected :: "client_payload \<Rightarrow> client_payload"
  ce_is_response :: "u64 \<Rightarrow> bool"
  ce_is_request :: "u64 \<Rightarrow> bool"

definition client_shell_env ::
  "client_env \<Rightarrow> 'l mixed_message_oriented_layer_ptr \<Rightarrow> (client_payload, client_handler, 'l, unit) shell_env" where
  "client_shell_env C P =
     \<lparr>is_response = ce_is_response C, is_request = ce_is_request C,
      run_behavior = (\<lambda>h p l. case (h, p) of
          (Line_behavior, Client_line line) \<Rightarrow> (Some (), send_message P (Text_message line) l)
        | _ \<Rightarrow> (None, l)),
      run_fallback = (\<lambda>h p l. ((), default_fallback P (ce_context C) p l)),
      visit_result = (\<lambda>x l. l),
      unexpected_response = ce_unexpected C\<rparr>"

text \<open>The shell, and the messages for the terminal.\<close>

definition client_app_init ::
  "client_env \<Rightarrow> (client_payload, 'r, 'q) mailbox \<Rightarrow> 'q \<Rightarrow> 'a \<Rightarrow> int \<Rightarrow>
   ('q, client_handler) actor_shell \<times> 'a terminal_msg list" where
  "client_app_init C M q self_hdl socket_id =
     (set_behavior Line_behavior (make_actor_shell M q Client_no_behavior Client_no_behavior),
      [Attach self_hdl, Status (bytes_of ''established new connection on socket '' @ ce_int_to_string C socket_id)])"

definition client_prepare_send ::
  "client_env \<Rightarrow> (client_payload, 'r, 'q) mailbox \<Rightarrow> 'l mixed_message_oriented_layer_ptr \<Rightarrow>
   ('q, client_handler) actor_shell \<Rightarrow> 'l \<Rightarrow> (bool \<times> ('q, client_handler) actor_shell \<times> 'l) option" where
  "client_prepare_send C M P a l = app_prepare_send M (client_shell_env C P) P a l"

definition client_done_sending ::
  "(client_payload, 'r, 'q) mailbox \<Rightarrow> ('q, client_handler) actor_shell \<Rightarrow> bool \<times> ('q, client_handler) actor_shell" where
  "client_done_sending M a = app_done_sending M a"

definition client_app_abort :: "client_env \<Rightarrow> caf_error \<Rightarrow> 'a terminal_msg list" where
  "client_app_abort C err = [Status (bytes_of ''app::abort called: '' @ ce_error_to_string C err), Detach]"

definition client_consume_text :: "byte list \<Rightarrow> 'a terminal_msg list \<times> int" where
  "client_consume_text txt = ([Text_data txt], int (length txt))"

definition client_consume_binary :: "byte list \<Rightarrow> 'a terminal_msg list \<times> int" where
  "client_consume_binary bytes = ([Binary_data bytes], int (length bytes))"

section \<open>The terminal actor\<close>

record 'a terminal_state =
  ts_client :: "'a option"
  ts_stdout :: "byte list"
  ts_quit :: bool
  ts_monitored :: "'a list"

definition terminal_new :: "'a terminal_state" where
  "terminal_new = \<lparr>ts_client = None, ts_stdout = [], ts_quit = False, ts_monitored = []\<rparr>"

abbreviation nl :: byte where "nl \<equiv> 10"

definition fputs :: "byte list \<Rightarrow> 'a terminal_state \<Rightarrow> 'a terminal_state" where
  "fputs s t = t\<lparr>ts_stdout := ts_stdout t @ s\<rparr>"

text \<open>\<open>puts\<close> on the characters of a \<open>std::string\<close> stops at the first null character.\<close>

definition c_str :: "byte list \<Rightarrow> byte list" where
  "c_str s = takeWhile (\<lambda>b. b \<noteq> 0) s"

definition render_text :: "byte list \<Rightarrow> 'a terminal_state \<Rightarrow> 'a terminal_state" where
  "render_text s t = fputs (c_str s @ [nl]) t"

text \<open>\<open>printf("%02x", byte)\<close>\<close>

definition hex_digit :: "nat \<Rightarrow> byte" where
  "hex_digit n = byte_of_char (''0123456789abcdef'' ! (n mod 16))"

definition hex_byte :: "byte \<Rightarrow> byte list" where
  "hex_byte b = [hex_digit (unat b div 16), hex_digit (unat b mod 16)]"

definition render_binary :: "byte list \<Rightarrow> 'a terminal_state \<Rightarrow> 'a terminal_state" where
  "render_binary buf t = fputs (concat (map hex_byte buf) @ [nl]) t"

definition terminal_detach :: "'a terminal_state \<Rightarrow> 'a terminal_state" where
  "terminal_detach t = (fputs (bytes_of ''*** server disconnected, bye!'' @ [nl]) t)\<lparr>ts_quit := True\<rparr>"

definition terminal_down :: "'a option \<Rightarrow> 'a terminal_state \<Rightarrow> 'a terminal_state" where
  "terminal_down source t = (if source = ts_client t then terminal_detach t else t)"

text \<open>The behavior, for a message with a sender. The result contains the lines for the attached actor.\<close>

fun terminal_behavior :: "'a option \<Rightarrow> 'a terminal_msg \<Rightarrow> 'a terminal_state \<Rightarrow> ('a \<times> byte list) list \<times> 'a terminal_state" where
  "terminal_behavior sender (Attach new_client) t =
     ([], (render_text (bytes_of ''client up and running'') (fputs (bytes_of ''[MSG] '') t))
        \<lparr>ts_client := Some new_client, ts_monitored := new_client # ts_monitored t\<rparr>)"
| "terminal_behavior sender Detach t = ([], if sender = ts_client t then terminal_detach t else t)"
| "terminal_behavior sender (Binary_data buf) t = ([], render_binary buf (fputs (bytes_of ''[BIN] '') t))"
| "terminal_behavior sender (Status line) t = ([], render_text line (fputs (bytes_of ''[MSG] '') t))"
| "terminal_behavior sender (Text_data line) t = ([], render_text line (fputs (bytes_of ''[TXT] '') t))"
| "terminal_behavior sender (Input out) t =
     (case ts_client t of
        Some client \<Rightarrow> ([(client, out)], t)
      | None \<Rightarrow> ([], fputs (bytes_of ''[ERR] not connected to a server'' @ [nl]) t))"

text \<open>What the actor receives; an actor that has quit handles nothing any more.\<close>

datatype 'a terminal_event = Terminal_msg "'a option" "'a terminal_msg" | Terminal_down "'a option"

fun terminal_handle :: "'a terminal_event \<Rightarrow> 'a terminal_state \<Rightarrow> ('a \<times> byte list) list \<times> 'a terminal_state" where
  "terminal_handle (Terminal_msg sender m) t = (if ts_quit t then ([], t) else terminal_behavior sender m t)"
| "terminal_handle (Terminal_down source) t = ([], if ts_quit t then t else terminal_down source t)"

fun terminal_run :: "'a terminal_event list \<Rightarrow> 'a terminal_state \<Rightarrow> ('a \<times> byte list) list \<times> 'a terminal_state" where
  "terminal_run [] t = ([], t)"
| "terminal_run (e # es) t =
     (let (out, t1) = terminal_handle e t; (out', t2) = terminal_run es t1 in (out @ out', t2))"

section \<open>The main loop\<close>

text \<open>
  The lines of the standard input, each with the messages that the terminal handles before the input
  request for that line. A request to an actor that has quit fails.
\<close>

fun main_loop ::
  "('a terminal_event list \<times> byte list) list \<Rightarrow> 'a terminal_state \<Rightarrow> exit_code \<times> ('a \<times> byte list) list \<times> 'a terminal_state" where
  "main_loop [] t = (EXIT_SUCCESS, [], t)"
| "main_loop ((es, line) # rest) t =
     (let (out, t1) = terminal_run es t in
      if ts_quit t1 then (EXIT_FAILURE, out, t1)
      else
        let (out', t2) = terminal_handle (Terminal_msg None (Input (line @ [nl]))) t1;
            (code, out'', t3) = main_loop rest t2
        in (code, out @ out' @ out'', t3))"

section \<open>The program\<close>

text \<open>The parts of a locator that the program reads; an empty string is an empty part.\<close>

record 'a locator =
  lo_empty :: bool
  lo_scheme :: string
  lo_authority :: "'a authority option"
  lo_path :: string
  lo_query :: "(string \<times> string) list"
  lo_fragment :: string

definition client_handshake ::
  "('a authority \<Rightarrow> string) \<Rightarrow> 'a authority \<Rightarrow> string \<Rightarrow> string option \<Rightarrow> string option \<Rightarrow> handshake" where
  "client_handshake show_authority authority path protocols extensions =
     (let hs = set_host (show_authority authority) handshake_new;
          hs = set_endpoint (if path = [] then ''/'' else path) hs;
          hs = (case protocols of Some v \<Rightarrow> set_protocols v hs | None \<Rightarrow> hs)
      in case extensions of Some v \<Rightarrow> set_extensions v hs | None \<Rightarrow> hs)"

text \<open>
  \<open>caf_main\<close>: the checks of the locator, the connection, the handshake, the initialization of the manager
  and the loop. What goes to the standard error output is the second result.
\<close>

record ('k, 'a) client_main_env =
  cm_posix :: "'k posix"
  cm_ip :: "'a ip_ops"
  cm_ip_sys :: ip_sys
  cm_show_authority :: "'a authority \<Rightarrow> string"
  cm_show_error :: "caf_error \<Rightarrow> string"
  cm_manager_init :: "socket_id \<Rightarrow> handshake \<Rightarrow> 'k \<Rightarrow> caf_error option \<times> 'k"
  cm_main_loop :: "'k \<Rightarrow> exit_code \<times> 'k"

definition client_main ::
  "('k, 'a) client_main_env \<Rightarrow> 'a locator \<Rightarrow> string option \<Rightarrow> string option \<Rightarrow> 'k \<Rightarrow> exit_code \<times> string \<times> 'k" where
  "client_main E locator protocols extensions k =
     (if lo_empty locator then (EXIT_FAILURE, ''*** mandatory option 'server' missing, use -h for help'', k)
      else if lo_scheme locator \<noteq> ''ws'' then (EXIT_FAILURE, ''*** expected a WebSocket URI (ws://...), use -h for help'', k)
      else if lo_fragment locator \<noteq> [] then
        (EXIT_FAILURE, ''*** sorry: query and fragment components are not supported'', k)
      else case lo_authority locator of
        None \<Rightarrow> (EXIT_FAILURE, ''*** authority component missing in URI'', k)
      | Some authority \<Rightarrow>
          (case connect_authority (cm_posix E) (cm_ip E) (cm_ip_sys E) authority k of
             (Inl err, k) \<Rightarrow>
               (EXIT_FAILURE, ''*** failed to connect to '' @ cm_show_authority E authority @ '': '' @ cm_show_error E err, k)
           | (Inr sock, k) \<Rightarrow>
               let hs = client_handshake (cm_show_authority E) authority (lo_path locator) protocols extensions in
               (case cm_manager_init E sock hs k of
                  (Some err, k) \<Rightarrow> (EXIT_FAILURE, ''*** failed to initialize the WebSocket client: '' @ cm_show_error E err, k)
                | (None, k) \<Rightarrow> let (code, k) = cm_main_loop E k in (code, [], k))))"

text \<open>
  The query is dropped: locators that differ in it only are not told apart, although the error message
  announces that queries are not supported.
\<close>

lemma client_main_drops_query: "client_main E (locator\<lparr>lo_query := q\<rparr>) protocols extensions k = client_main E locator protocols extensions k"
  by (simp add: client_main_def cong: option.case_cong sum.case_cong prod.case_cong)

text \<open>The handshake always has its mandatory fields, so the WebSocket layer accepts it.\<close>

lemma client_handshake_mandatory: "has_mandatory_fields (client_handshake sa a path protocols extensions)"
  by (simp add: client_handshake_def has_mandatory_fields_def set_host_def set_endpoint_def set_protocols_def
      set_extensions_def Let_def split: option.split)

lemma client_init_succeeds:
  assumes "cl_handshake c = Some (client_handshake sa a path protocols extensions)"
  shows "snd (snd (client_init E L randomize c d)) = None"
  using assms client_handshake_mandatory by (simp add: client_init_def Let_def)

section \<open>Sessions\<close>

text \<open>Messages that leave the terminal attached to the actor \<open>me\<close>, and what the terminal shows for them.\<close>

fun keeps_session :: "'a \<Rightarrow> 'a terminal_event \<Rightarrow> bool" where
  "keeps_session me (Terminal_msg sender m) =
     (case m of Attach _ \<Rightarrow> False | Detach \<Rightarrow> sender \<noteq> Some me | Input _ \<Rightarrow> False | _ \<Rightarrow> True)"
| "keeps_session me (Terminal_down source) \<longleftrightarrow> source \<noteq> Some me"

fun ends_session :: "'a \<Rightarrow> 'a terminal_event \<Rightarrow> bool" where
  "ends_session me (Terminal_msg sender m) \<longleftrightarrow> m = Detach \<and> sender = Some me"
| "ends_session me (Terminal_down source) \<longleftrightarrow> source = Some me"

fun shown :: "'a terminal_event \<Rightarrow> byte list" where
  "shown (Terminal_msg _ (Binary_data buf)) = bytes_of ''[BIN] '' @ concat (map hex_byte buf) @ [nl]"
| "shown (Terminal_msg _ (Status line)) = bytes_of ''[MSG] '' @ c_str line @ [nl]"
| "shown (Terminal_msg _ (Text_data line)) = bytes_of ''[TXT] '' @ c_str line @ [nl]"
| "shown _ = []"

definition in_session :: "'a \<Rightarrow> 'a terminal_state \<Rightarrow> bool" where
  "in_session me t \<longleftrightarrow> ts_client t = Some me \<and> \<not> ts_quit t"

lemma fputs_simps [simp]:
  "fputs [] t = t" "fputs s (fputs r t) = fputs (r @ s) t" "in_session me (fputs s t) = in_session me t"
  by (simp_all add: fputs_def in_session_def)

lemma handle_keeps:
  assumes "in_session me t" and "keeps_session me e"
  shows "terminal_handle e t = ([], fputs (shown e) t)"
proof (cases e)
  case (Terminal_msg sender m)
  then show ?thesis
    using assms by (cases m) (auto simp: in_session_def render_text_def render_binary_def)
next
  case (Terminal_down source)
  then show ?thesis using assms by (auto simp: in_session_def terminal_down_def)
qed

lemma run_keeps:
  "in_session me t \<Longrightarrow> list_all (keeps_session me) es \<Longrightarrow> terminal_run es t = ([], fputs (concat (map shown es)) t)"
  by (induction es arbitrary: t) (simp_all add: handle_keeps)

lemma run_quit: "ts_quit t \<Longrightarrow> terminal_run es t = ([], t)"
proof (induction es)
  case (Cons e es)
  then show ?case by (cases e) simp_all
qed simp

lemma run_ends:
  assumes "in_session me t" and "list_all (keeps_session me) es" and "ends_session me e"
  shows "terminal_run (es @ e # es') t = ([], terminal_detach (fputs (concat (map shown es)) t))"
  using assms
proof (induction es arbitrary: t)
  case Nil
  have "terminal_handle e t = ([], terminal_detach t)"
    using Nil.prems(1,3) by (cases e) (auto simp: in_session_def terminal_down_def)
  moreover have "ts_quit (terminal_detach t)" by (simp add: terminal_detach_def)
  ultimately show ?case using run_quit by simp
qed (simp add: handle_keeps)

text \<open>The bytes that a session shows, and its lines.\<close>

abbreviation session_shown :: "('a terminal_event list \<times> byte list) list \<Rightarrow> byte list" where
  "session_shown xs \<equiv> concat (map shown (concat (map fst xs)))"

abbreviation session_lines :: "'a \<Rightarrow> ('a terminal_event list \<times> byte list) list \<Rightarrow> ('a \<times> byte list) list" where
  "session_lines me xs \<equiv> map (\<lambda>(es, line). (me, line @ [nl])) xs"

lemma main_loop_session:
  assumes "in_session me t" and "list_all (\<lambda>(es, line). list_all (keeps_session me) es) xs"
  shows "main_loop (xs @ ys) t =
    (let (code, out, t') = main_loop ys (fputs (session_shown xs) t) in (code, session_lines me xs @ out, t'))"
  using assms
proof (induction xs arbitrary: t)
  case (Cons x xs)
  obtain es line where x: "x = (es, line)" by (cases x)
  then have r: "terminal_run es t = ([], fputs (concat (map shown es)) t)" using run_keeps [OF Cons.prems(1), of es] Cons.prems(2) by simp
  let ?t = "fputs (concat (map shown es)) t"
  have "in_session me ?t" using Cons.prems(1) by simp
  moreover from this have "terminal_handle (Terminal_msg None (Input (line @ [nl]))) ?t = ([(me, line @ [nl])], ?t)" "\<not> ts_quit ?t"
    by (auto simp: in_session_def)
  ultimately show ?case using Cons r x by (simp add: Let_def split: prod.split)
qed simp

section \<open>Properties\<close>

text \<open>Lines as messages in the mailbox of the application.\<close>

definition line_msgs :: "client_env \<Rightarrow> byte list list \<Rightarrow> (client_payload, 'r) shell_msg list \<Rightarrow> bool" where
  "line_msgs C ls ms \<longleftrightarrow> map sm_payload ms = map Client_line ls \<and> list_all (\<lambda>m. \<not> ce_is_response C (sm_mid m)) ms"

context mixed_lower
begin

lemma process_lines:
  assumes "line_msgs C ls ms" and "sh_bhvr a = Line_behavior" and "ready l" and "mm_abort_reason P l = None"
  shows "\<exists>l'. process_all (client_shell_env C P) P ms a l = (True, [], a, l') \<and> wrote l (map Text_message ls) l'"
proof -
  let ?f = "\<lambda>m. Text_message (case sm_payload m of Client_line x \<Rightarrow> x | _ \<Rightarrow> [])"
  have m: "map sm_payload ms = map Client_line ls" "list_all (\<lambda>m. \<not> ce_is_response C (sm_mid m)) ms"
    using assms(1) by (auto simp: line_msgs_def)
  have "process_message (client_shell_env C P) m a l = (a, send_message P (?f m) l)" if "m \<in> set ms" for m l
  proof -
    have "sm_payload m \<in> Client_line ` set ls" using that m(1) by (metis image_eqI list.set_map)
    moreover have "\<not> ce_is_response C (sm_mid m)" using that m(2) by (auto simp: list_all_iff)
    ultimately show ?thesis using assms(2) by (auto simp: process_message_def client_shell_env_def)
  qed
  from process_sends [OF this assms(3,4)] obtain l' where
    "process_all (client_shell_env C P) P ms a l = (True, [], a, l')" "wrote l (map ?f ms) l'" by blast
  moreover have "map ?f ms = map (\<lambda>p. Text_message (case p of Client_line x \<Rightarrow> x | _ \<Rightarrow> [])) (map sm_payload ms)" by simp
  then have "map ?f ms = map Text_message ls" unfolding m(1) by (simp add: comp_def)
  ultimately show ?thesis by auto
qed

end

text \<open>The terminal after the messages of the application's \<open>init\<close>.\<close>

definition connected_terminal ::
  "client_env \<Rightarrow> (client_payload, 'r, 'q) mailbox \<Rightarrow> 'q \<Rightarrow> 'a \<Rightarrow> int \<Rightarrow> 'a terminal_state" where
  "connected_terminal C M q me sock =
     snd (terminal_run (map (Terminal_msg (Some me)) (snd (client_app_init C M q me sock))) terminal_new)"

lemma connected_in_session: "in_session me (connected_terminal C M q me sock)"
  by (simp add: connected_terminal_def client_app_init_def terminal_new_def in_session_def render_text_def fputs_def)

lemma client_prepare_send_lines:
  assumes "mailbox_reads M content" and "line_msgs C ls (content q')" and "framing_ready l"
    and "mm_abort_reason (ws_ptr E self m nxt) l = None"
  shows "\<exists>a l'. client_prepare_send C M (ws_ptr E self m nxt) ((fst (client_app_init C M q me sock))\<lparr>sh_mailbox := q'\<rparr>) l = Some (True, a, l') \<and>
    content (sh_mailbox a) = [] \<and> framing_wrote (make_stream_oriented_layer_ptr (manager_ptr E self m)) l (map Text_message ls) l'"
proof -
  let ?P = "ws_ptr E self m nxt" and ?a = "(fst (client_app_init C M q me sock))\<lparr>sh_mailbox := q'\<rparr>"
  have "sh_bhvr ?a = Line_behavior" by (simp add: client_app_init_def set_behavior_def)
  from ws.process_lines [OF assms(2) this assms(3,4)] obtain l' where
    p: "process_all (client_shell_env C ?P) ?P (content q') ?a l = (True, [], ?a, l')"
      "framing_wrote (make_stream_oriented_layer_ptr (manager_ptr E self m)) l (map Text_message ls) l'" by blast
  from app_prepare_send_spec [OF assms(1), of "client_shell_env C ?P" ?P ?a l] p(1) obtain q'' where
    "app_prepare_send M (client_shell_env C ?P) ?P ?a l = Some (True, ?a\<lparr>sh_mailbox := q''\<rparr>, l')" "content q'' = []" by auto
  then show ?thesis using p(2) by (simp add: client_prepare_send_def)
qed

text \<open>
  C30: A session of the interactive client. As long as the server does not disconnect, every line that the
  user types is handed to the application once and in order, with its newline, the application writes one
  text message for each of them, in order, and the terminal shows the messages of the server in the order
  of their arrival. After a disconnect the next line ends the program with a failure.
\<close>

theorem client_session:
  assumes "mailbox_reads M content" and "list_all (\<lambda>(es, line). list_all (keeps_session me) es) xs"
    and "line_msgs C (map snd (session_lines me xs)) (content q')"
    and "framing_ready l" and "mm_abort_reason (ws_ptr E self m nxt) l = None"
    and "list_all (keeps_session me) es" and "ends_session me e"
  shows "main_loop xs (connected_terminal C M q me sock) =
      (EXIT_SUCCESS, session_lines me xs, fputs (session_shown xs) (connected_terminal C M q me sock)) \<and>
    (\<exists>a l'. client_prepare_send C M (ws_ptr E self m nxt) ((fst (client_app_init C M q me sock))\<lparr>sh_mailbox := q'\<rparr>) l = Some (True, a, l') \<and>
      content (sh_mailbox a) = [] \<and>
      framing_wrote (make_stream_oriented_layer_ptr (manager_ptr E self m)) l (map (\<lambda>(es, line). Text_message (line @ [nl])) xs) l') \<and>
    (\<exists>t. main_loop (xs @ (es @ e # es', line) # rest) (connected_terminal C M q me sock) = (EXIT_FAILURE, session_lines me xs, t) \<and> ts_quit t)"
proof (intro conjI)
  let ?t = "connected_terminal C M q me sock" and ?P = "ws_ptr E self m nxt"
  have t: "in_session me ?t" by (rule connected_in_session)
  note loop = main_loop_session [OF t assms(2)]
  show "main_loop xs ?t = (EXIT_SUCCESS, session_lines me xs, fputs (session_shown xs) ?t)" using loop [of "[]"] by simp
  have "terminal_run (es @ e # es') (fputs (session_shown xs) ?t) = ([], terminal_detach (fputs (concat (map shown es)) (fputs (session_shown xs) ?t)))"
    using run_ends [OF _ assms(6,7)] t by simp
  then show "\<exists>t. main_loop (xs @ (es @ e # es', line) # rest) ?t = (EXIT_FAILURE, session_lines me xs, t) \<and> ts_quit t"
    using loop [of "(es @ e # es', line) # rest"] by (simp add: terminal_detach_def)
  show "\<exists>a l'. client_prepare_send C M ?P ((fst (client_app_init C M q me sock))\<lparr>sh_mailbox := q'\<rparr>) l = Some (True, a, l') \<and>
      content (sh_mailbox a) = [] \<and>
      framing_wrote (make_stream_oriented_layer_ptr (manager_ptr E self m)) l (map (\<lambda>(es, line). Text_message (line @ [nl])) xs) l'"
    using client_prepare_send_lines [OF assms(1,3-5), of q me sock] by (simp add: comp_def case_prod_unfold)
qed

definition sample_client :: client_env where
  "sample_client = \<lparr>ce_error_to_string = (\<lambda>e. [63]), ce_int_to_string = (\<lambda>i. [of_int i]), ce_context = (\<lambda>p. []),
     ce_unexpected = (\<lambda>p. p), ce_is_response = (\<lambda>i. i > 100), ce_is_request = (\<lambda>i. i \<le> 100)\<rparr>"

abbreviation sample_lines :: "(client_payload, nat) shell_msg list \<times> bool" where
  "sample_lines \<equiv> ([\<lparr>sm_mid = 0, sm_sender = None, sm_payload = Client_line [72, 10]\<rparr>,
     \<lparr>sm_mid = 0, sm_sender = None, sm_payload = Client_line [10]\<rparr>], False)"

theorem client_session_witness:
  "\<exists>t a l'. main_loop [([], [72]), ([Terminal_msg (Some 7) (Text_data [79, 0, 75])], []), ([Terminal_down (Some 7)], [66])]
      (connected_terminal sample_client list_mailbox ([] :: (client_payload, nat) shell_msg list, False) (7 :: nat) 3) =
      (EXIT_FAILURE, [(7, [72, 10]), (7, [10])], t) \<and>
     client_prepare_send sample_client list_mailbox (ws_ptr pipe_env 0 1 (\<lambda>g. (g, g)))
       ((fst (client_app_init sample_client list_mailbox ([], False) (7 :: nat) 3))\<lparr>sh_mailbox := sample_lines\<rparr>) sample_layers =
       Some (True, a, l') \<and>
     framing_wrote (make_stream_oriented_layer_ptr (manager_ptr pipe_env 0 1)) sample_layers [Text_message [72, 10], Text_message [10]] l'"
proof -
  let ?xs = "[([], [72]), ([Terminal_msg (Some 7) (Text_data [79, 0, 75])], [])] :: (nat terminal_event list \<times> byte list) list"
  have "line_msgs sample_client (map snd (session_lines 7 ?xs)) (fst sample_lines)"
    by (simp add: line_msgs_def sample_client_def)
  then show ?thesis
    using client_session [OF list_mailbox_reads _ _ sample_layers_ready, where me = 7 and xs = ?xs and C = sample_client and
        q' = sample_lines and es = "[]" and e = "Terminal_down (Some 7)" and nxt = "\<lambda>g. (g, g)" and q = "([], False)" and
        sock = 3 and es' = "[]" and line = "[66]" and rest = "[]"]
    by auto
qed

end
