(* ===== verification/Calculator_Client.thy ===== *)
theory Calculator_Client
  imports Calculator Client
begin

text \<open>
  The interactive client and the calculator server together: what a user types reaches the worker of the
  server, across the WebSocket layers of both sides.
\<close>

declare send_message.simps [simp del]

section \<open>The calculator on the framing layer\<close>

text \<open>
  The application as the upper layer of the framing layer. \<open>prepare_send\<close> returns for every mailbox that
  satisfies \<open>mailbox_reads\<close>.
\<close>

definition calc_upper ::
  "'j calc_env \<Rightarrow> (calc_payload, 'r, 'q) mailbox \<Rightarrow> 'q \<Rightarrow> 'l mixed_message_oriented_layer_ptr \<Rightarrow> ('q calc_app, 'l) mixed_upper" where
  "calc_upper J M q P =
     \<lparr>mu_init = (\<lambda>a l. (calc_app_init M q a, l, None)),
      mu_prepare_send = (\<lambda>a l. case calc_prepare_send J M P a l of Some r \<Rightarrow> r | None \<Rightarrow> (a, l, False)),
      mu_done_sending = (\<lambda>a l. let (a', b) = calc_done_sending M a in (a', l, b)),
      mu_abort = (\<lambda>e a l. (a, l)),
      mu_consume_text = (\<lambda>txt a l. calc_consume_text J P txt a l),
      mu_consume_binary = (\<lambda>bytes a l. calc_consume_binary P bytes a l)\<rparr>"

text \<open>
  Whatever relation between states of the lower layers the operations of the layer pointer keep, the calculator
  keeps, and what it does itself does not depend on the lower layers.
\<close>

lemma handle_line_rel:
  assumes "\<And>m l l2. R l l2 \<Longrightarrow> R (send_message P m l) (send_message P m l2)" and "R l l2"
  shows "fst (handle_line J P line (a, l)) = fst (handle_line J P line (a, l2)) \<and>
    R (snd (handle_line J P line (a, l))) (snd (handle_line J P line (a, l2)))"
  using assms by (simp add: handle_line_def send_error_def split: sum.split option.split)

lemma handle_lines_rel:
  assumes "\<And>m l l2. R l l2 \<Longrightarrow> R (send_message P m l) (send_message P m l2)" and "R l l2"
  shows "fst (handle_lines J P ls (a, l)) = fst (handle_lines J P ls (a, l2)) \<and>
    R (snd (handle_lines J P ls (a, l))) (snd (handle_lines J P ls (a, l2)))"
  using assms(2)
proof (induction ls arbitrary: a l l2)
  case (Cons line ls)
  show ?case
  proof (cases "line = []")
    case False
    obtain a' l' b' l2' where h: "handle_line J P line (a, l) = (a', l')" "handle_line J P line (a, l2) = (b', l2')" by fastforce
    then have "b' = a'" "R l' l2'" using handle_line_rel [of R P l l2 J line a] assms(1) Cons.prems by simp_all
    then show ?thesis using Cons.IH False h by simp
  qed (use Cons in simp)
qed simp

lemma deliver_rel:
  assumes "\<And>m l l2. R l l2 \<Longrightarrow> R (send_message P m l) (send_message P m l2)"
    and "\<And>e l l2. R l l2 \<Longrightarrow> R (mm_set_abort_reason P e l) (mm_set_abort_reason P e l2)" and "R l l2"
    and "deliver_message (calc_upper J M q P) m a l = (a', l', r)" and "deliver_message (calc_upper J M q P) m a l2 = (b', l2', r2)"
  shows "b' = a' \<and> R l' l2' \<and> r2 = r"
proof (cases m)
  case (Text_message bs)
  then show ?thesis
    using assms handle_lines_rel [of R P l l2 J "fst (split_lines (ca_buf a @ bs))" "a\<lparr>ca_buf := ca_buf a @ bs\<rparr>"]
    by (auto simp: calc_upper_def calc_consume_text_def calc_lines_spec case_prod_unfold Let_def split: if_splits)
next
  case (Binary_message bs)
  then show ?thesis using assms by (auto simp: calc_upper_def calc_consume_binary_def)
qed

lemma ship_frame_assembly:
  "cur_opcode (fst (ship_frame L nxt asm p f d)) = cur_opcode f"
  "payload_buf (fst (ship_frame L nxt asm p f d)) = payload_buf f"
  by (auto simp: ship_frame_def draw_key_def split: prod.splits)

lemma send_message_assembly:
  "cur_opcode (fst (send_message (make_mixed_message_oriented_layer_ptr L nxt) m l)) = cur_opcode (fst l)"
  "payload_buf (fst (send_message (make_mixed_message_oriented_layer_ptr L nxt) m l)) = payload_buf (fst l)"
  by (cases m; simp add: send_message.simps make_mixed_message_oriented_layer_ptr_def end_text_message_def
      end_binary_message_def Let_def case_prod_unfold ship_frame_assembly)+

lemma framing_ptr_abort:
  "mm_set_abort_reason (make_mixed_message_oriented_layer_ptr L nxt) e l = (fst l, set_abort_reason L e (snd l))"
  by (simp add: make_mixed_message_oriented_layer_ptr_def case_prod_unfold)

lemma calc_upper_keeps_assembly: "keeps_assembly (calc_upper J M q (make_mixed_message_oriented_layer_ptr L nxt))"
  unfolding keeps_assembly_def
proof (intro allI impI)
  fix m u f d u' f' d' res
  let ?P = "make_mixed_message_oriented_layer_ptr L nxt"
  assume "deliver_message (calc_upper J M q ?P) m u (f, d) = (u', (f', d'), res)"
  from deliver_rel [of "\<lambda>l l2. cur_opcode (fst l) = cur_opcode f \<and> payload_buf (fst l) = payload_buf f", OF _ _ _ this this]
  show "cur_opcode f' = cur_opcode f \<and> payload_buf f' = payload_buf f"
    by (simp add: send_message_assembly framing_ptr_abort)
qed

section \<open>Text messages delivered to the calculator\<close>

lemma deliver_texts:
  "deliver_messages (calc_upper J M q P) (map Text_message ts) a f d =
   (let (a', l', ok) = calc_consume_all J P ts a (f, d) in (a', fst l', snd l', ok))"
  by (induction ts arbitrary: a f d) (auto simp: calc_upper_def Let_def split: prod.splits)

text \<open>Lines that end with a newline leave nothing in the buffer.\<close>

lemma split_lines_lines:
  assumes "list_all (\<lambda>l. newline \<notin> set l) ls"
  shows "split_lines (concat (map (\<lambda>l. l @ [newline]) ls)) = (ls, [])"
  using assms by (induction ls) (simp_all add: split_lines_line)

lemma within_limit_lines:
  assumes "list_all (\<lambda>l. newline \<notin> set l \<and> length l < max_buf_size) ls"
  shows "within_limit [] (map (\<lambda>l. l @ [newline]) ls)"
  using assms
proof (induction ls)
  case (Cons l ls)
  then show ?case using split_lines_line [of l "[]"] by simp
qed simp

section \<open>The lines of a session\<close>

lemma calculator_consumes_lines:
  assumes "map snd kms = map (\<lambda>l. Text_message (l @ [newline])) ls" and "ls \<noteq> []"
    and "list_all (\<lambda>l. newline \<notin> set l \<and> length l < max_buf_size) ls"
    and "map (parse_request J) (filter (\<lambda>l. l \<noteq> []) ls) = map Some rs"
    and "handlers_ok J a" "ca_buf a = []" "ca_requests a = []" "ca_last_id a = 0" and "cur_opcode f = nil_code"
  shows "\<exists>a' f' d'. framing_consume L (calc_upper J M q (make_mixed_message_oriented_layer_ptr L nxt)) nxt (keyed_frames kms) delta
      (a, f) d = ((a', f'), d', int (length (keyed_frames kms))) \<and>
    ca_requests a' = number_requests J 0 rs \<and> ca_buf a' = []"
proof -
  let ?P = "make_mixed_message_oriented_layer_ptr L nxt" and ?ts = "map (\<lambda>l. l @ [newline]) ls"
  have split: "split_lines (concat ?ts) = (ls, [])" using assms(3) by (intro split_lines_lines) (auto simp: list_all_iff)
  from handle_lines_requests [OF assms(4,5), of ?P "(f, d)"] obtain a' where
    h: "handle_lines J ?P ls (a, (f, d)) = (a', (f, d))" "ca_requests a' = number_requests J 0 rs"
    using assms(7,8) by auto
  have all: "calc_consume_all J ?P ?ts a (f, d) = (a'\<lparr>ca_buf := []\<rparr>, (f, d), True)"
    using consume_all_within [of a ?ts J ?P "(f, d)"] within_limit_lines [OF assms(3)] split h(1) assms(6) by simp
  have "kms \<noteq> []" "map snd kms = map Text_message ?ts" using assms(1,2) by auto
  moreover have "fits_frame m" if "(k, m) \<in> set kms" for k m
  proof -
    have "m \<in> set (map snd kms)" using that by force
    then show ?thesis using assms(1,3) by (auto simp: fits_frame_def list_all_iff)
  qed
  ultimately have "consume_frames L (calc_upper J M q ?P) nxt (keyed_frames kms) 0 a (f) d =
      (let (u', f', d', ok) = deliver_messages (calc_upper J M q ?P) (map snd kms) a (f) d
       in if ok then (u', f', configure_read L (policy_up_to 2048) d', int (0 + length (keyed_frames kms))) else (u', f', d', -1))"
    by (intro consume_keyed_frames [OF calc_upper_keeps_assembly]) (use assms(9) in auto)
  moreover have "deliver_messages (calc_upper J M q ?P) (map snd kms) a (f) d = (a'\<lparr>ca_buf := []\<rparr>, f, d, True)"
    unfolding \<open>map snd kms = map Text_message ?ts\<close> deliver_texts all by simp
  ultimately show ?thesis using h(2) by (simp add: framing_consume_def)
qed

text \<open>What the client writes for the lines that a user has typed.\<close>

lemma typed_lines_are_written:
  assumes "mailbox_reads M content" and "line_msgs C (map snd (session_lines me xs)) (content q')"
    and "write_buf t = []" and "mm_abort_reason (ws_ptr E self m nxt) (framing_new g, (t, X)) = None"
  shows "\<exists>a f t' X' kms. client_prepare_send C M (ws_ptr E self m nxt) ((fst (client_app_init C M q me sock))\<lparr>sh_mailbox := q'\<rparr>)
      (framing_new g, (t, X)) = Some (True, a, (f, (t', X'))) \<and>
    write_buf t' = keyed_frames kms \<and> map snd kms = map (\<lambda>l. Text_message (l @ [newline])) (map snd xs)"
proof -
  have "framing_ready (framing_new g, (t, X))" by (simp add: framing_ready_def framing_new_def)
  from client_prepare_send_lines [OF assms(1,2) this assms(4), of q me sock] obtain a l' where
    p: "client_prepare_send C M (ws_ptr E self m nxt) ((fst (client_app_init C M q me sock))\<lparr>sh_mailbox := q'\<rparr>)
        (framing_new g, (t, X)) = Some (True, a, l')"
      "framing_wrote (make_stream_oriented_layer_ptr (manager_ptr E self m)) (framing_new g, (t, X))
        (map Text_message (map snd (session_lines me xs))) l'" by blast
  obtain f t' X' where l': "l' = (f, (t', X'))" by (metis surj_pair)
  obtain kms where "map snd kms = map Text_message (map snd (session_lines me xs))" "write_buf t' = keyed_frames kms"
    using p(2) assms(3) by (auto simp: framing_wrote_def l' make_stream_oriented_layer_ptr_def)
  then show ?thesis using p(1) unfolding l' by (auto simp: comp_def case_prod_unfold)
qed

end
