(* ===== verification/Segmented_Sessions.thy ===== *)
theory Segmented_Sessions
  imports Server_Streams Calculator_Client
begin

text \<open>
  The calculator server on a connection that cuts the stream into segments of any size. The application does
  not look at the transport, so the framing layer below it offers the interface \<open>chunked_consumer\<close>: neither the
  segments nor the pauses between them change what the server does.
\<close>

section \<open>The calculator does not look at the transport\<close>

lemma ship_frame_blind: "fst (ship_frame L nxt asm b f d) = fst (ship_frame L nxt asm b f d2)"
  by (simp add: ship_frame_def case_prod_unfold Let_def)

lemma ship_frame_keeps_reading:
  assumes "parent_keeps P h"
  shows "keeps_reading h d (snd (ship_frame (make_stream_oriented_layer_ptr P) nxt asm b f d))"
  using transport_keeps_reading(4) [OF assms] by (simp add: ship_frame_def case_prod_unfold Let_def)

lemma send_message_blind:
  assumes "fst l = fst l2"
  shows "fst (send_message (make_mixed_message_oriented_layer_ptr L nxt) m l)
    = fst (send_message (make_mixed_message_oriented_layer_ptr L nxt) m l2)"
  using assms ship_frame_blind [of L nxt _ _ _ "snd l" "snd l2"]
  by (cases m) (simp_all add: send_message.simps make_mixed_message_oriented_layer_ptr_def end_text_message_def
      end_binary_message_def Let_def case_prod_unfold)

lemma send_message_keeps_reading:
  assumes "parent_keeps P h"
  shows "keeps_reading h (snd l)
    (snd (send_message (make_mixed_message_oriented_layer_ptr (make_stream_oriented_layer_ptr P) nxt) m l))"
  using ship_frame_keeps_reading [OF assms, of "snd l" nxt]
  by (cases m) (simp_all add: send_message.simps make_mixed_message_oriented_layer_ptr_def end_text_message_def
      end_binary_message_def Let_def case_prod_unfold)

lemma calc_upper_blind:
  assumes P: "parent_keeps P h"
  shows "blind_app h (calc_upper J M q (make_mixed_message_oriented_layer_ptr (make_stream_oriented_layer_ptr P) nxt))"
proof -
  let ?P = "make_mixed_message_oriented_layer_ptr (make_stream_oriented_layer_ptr P) nxt"
  have "outcome3 (deliver_message (calc_upper J M q ?P) m u (f, d)) = outcome3 (deliver_message (calc_upper J M q ?P) m u (f, d2))"
    for m u f d d2
  proof -
    obtain a l r a2 l2 r2 where d: "deliver_message (calc_upper J M q ?P) m u (f, d) = (a, l, r)"
      "deliver_message (calc_upper J M q ?P) m u (f, d2) = (a2, l2, r2)" by (metis prod_cases3)
    have "a2 = a \<and> fst l = fst l2 \<and> r2 = r"
      by (rule deliver_rel [of "\<lambda>l l2. fst l = fst l2", OF send_message_blind _ _ d]) (simp_all add: framing_ptr_abort)
    then show ?thesis unfolding d by (simp add: outcome3_def case_prod_unfold)
  qed
  moreover have "keeps_reading h d (lower3 (deliver_message (calc_upper J M q ?P) m u (f, d)))" for m u f d
  proof -
    obtain a l r where d: "deliver_message (calc_upper J M q ?P) m u (f, d) = (a, l, r)" by (metis prod_cases3)
    have s: "keeps_reading h d (snd l) \<Longrightarrow> keeps_reading h d (snd (send_message ?P m l))" for m l
      by (rule keeps_reading_trans [OF _ send_message_keeps_reading [OF P]])
    have e: "keeps_reading h d (snd l) \<Longrightarrow> keeps_reading h d (snd (mm_set_abort_reason ?P e l))" for e l
      unfolding framing_ptr_abort snd_conv by (rule keeps_reading_trans [OF _ transport_keeps_reading(1) [OF P]])
    from deliver_rel [of "\<lambda>l l2. keeps_reading h d (snd l)", OF s e _ d d] show ?thesis
      unfolding d by (simp add: lower3_def case_prod_unfold)
  qed
  ultimately show ?thesis by (simp add: blind_app_def)
qed

section \<open>A multiplexer with a connection\<close>

text \<open>
  The socket of a connection is not the pipe of the pollset updater: the world of the multiplexer is a pair, and
  waking up the multiplexer writes to the first component only.
\<close>

definition apart :: "('w \<times> 'c) mpx_env \<Rightarrow> (int \<Rightarrow> byte list \<Rightarrow> 'w \<Rightarrow> 'w \<times> int) \<Rightarrow> ('w \<times> 'c) mpx_env" where
  "apart E pw = E\<lparr>pipe_write := (\<lambda>h bs (w, c). let (w', r) = pw h bs w in ((w', c), r))\<rparr>"

lemma pipe_write_apart: "snd (fst (pipe_write (apart E pw) h bs w)) = snd w"
  by (simp add: apart_def split: prod.split)

lemma write_to_pipe_apart: "snd (world (write_to_pipe (apart E pw) code m X)) = snd (world X)"
  using pipe_write_apart [of E pw "write_handle X" "pipe_message code m" "world X"]
  by (auto simp: write_to_pipe_def Let_def split: prod.splits)

lemma world_registered: "world (add_mgr m X) = world X" "world (set_events i ev X) = world X" "world (fst (mask_add op m X)) = world X"
  by (simp_all add: add_mgr_def set_events_def mask_add_def set_mask_def Let_def)

lemma register_op_apart: "snd (world (register_op (apart E pw) op bits code self m X)) = snd (world X)"
  by (simp add: register_op_def write_to_pipe_apart world_registered Let_def case_prod_unfold split: option.split)

lemma apart_keeps: "parent_keeps (manager_ptr (apart E pw) self m) (\<lambda>X. h (snd (world X)))"
  by (simp add: parent_keeps_def manager_ptr_def sm_register_reading_def sm_register_writing_def
      mpx_register_reading_def mpx_register_writing_def sm_set_abort_reason_def register_op_apart)

text \<open>The layers of the calculator server above the stream transport.\<close>

abbreviation calc_stack ::
  "'p io_parent \<Rightarrow> 'j calc_env \<Rightarrow> (calc_payload, 'r, 'q) mailbox \<Rightarrow> 'q \<Rightarrow> ('g \<Rightarrow> u32 \<times> 'g) \<Rightarrow> 'g \<Rightarrow>
   ('q calc_app \<times> 'g framing, 'p transport_stack) stream_upper" where
  "calc_stack P J M q nxt seeded \<equiv> framing_layer (make_stream_oriented_layer_ptr P)
     (calc_upper J M q (make_mixed_message_oriented_layer_ptr (make_stream_oriented_layer_ptr P) nxt)) nxt seeded"

abbreviation calc_server ::
  "'f ws_env \<Rightarrow> 'p io_parent \<Rightarrow> 'j calc_env \<Rightarrow> (calc_payload, 'r, 'q) mailbox \<Rightarrow> 'q \<Rightarrow> ('g \<Rightarrow> u32 \<times> 'g) \<Rightarrow> 'g \<Rightarrow>
   'f ws_settings \<Rightarrow> (('q calc_app \<times> 'g framing, 'f) ws_server, 'p transport_stack) stream_upper" where
  "calc_server H P J M q nxt seeded c \<equiv> server_layer H (make_stream_oriented_layer_ptr P) (calc_stack P J M q nxt seeded)
     (\<lambda>c. su_init (calc_stack P J M q nxt seeded)) c"

lemma calc_plain_init: "plain_init (calc_upper J M q P) (calc_app_init M q)"
  by (simp add: plain_init_def calc_upper_def)

interpretation calculator: server_stream
  "calc_stack (manager_ptr (apart E pw) self m) J M q nxt seeded" "\<lambda>X. recvd (snd (world X))" "\<lambda>v. v" "\<lambda>v lo hi. True"
  "framing_run (manager_ptr (apart E pw) self m) (calc_upper J M q (ws_ptr (apart E pw) self m nxt)) nxt d" s0
  H "manager_ptr (apart E pw) self m" "\<lambda>c. su_init (calc_stack (manager_ptr (apart E pw) self m) J M q nxt seeded)"
  "framing_setup (calc_app_init M q) seeded"
  for E pw self m J M q nxt seeded recvd d s0 and H :: "'f ws_env"
  by (rule server_framing_stream [OF calc_upper_blind [OF apart_keeps] calc_plain_init apart_keeps])

section \<open>Properties\<close>

lemma calculator_reads_segments:
  assumes P: "parent_keeps P (\<lambda>p. (recvd p, feed p, pace p))" and S: "reads_well S recvd" "feeds S feed pace"
    and t: "unread_transport t" "min_read_size t = 1" "max_read_size t = 2048" "max_consecutive_reads t \<noteq> 0"
    and p: "recvd p = []" "pace p < n"
    and H: "settings_sound H" "base64_sound H" "base64_codes_keys H" "clean_request H hs" "length (http_1_request H hs) \<le> max_http_size"
    and kms: "map snd kms = map (\<lambda>l. Text_message (l @ [newline])) ls" "ls \<noteq> []"
      "feed p = bytes_of (http_1_request H hs) @ keyed_frames kms"
    and ls: "list_all (\<lambda>l. newline \<notin> set l \<and> length l < max_buf_size) ls"
      "map (parse_request J) (filter (\<lambda>l. l \<noteq> []) ls) = map Some rs"
  shows "\<exists>s' t' p'. read_events P S (calc_server H P J M q nxt seeded c) n (server_new (calc_app_new shell, framing_new g) cs) t p
      = (s', (t', p'), Returned True) \<and>
    srv_complete s' \<and> ws_request_uri (srv_cfg s') = lookup ''_endpoint'' hs \<and>
    ca_requests (fst (srv_upper s')) = number_requests J 0 rs \<and> ca_buf (fst (srv_upper s')) = [] \<and> pending_input t' = []"
proof -
  let ?L = "make_stream_oriented_layer_ptr P" and ?a = "calc_app_init M q (calc_app_new shell)"
  let ?U = "calc_upper J M q (make_mixed_message_oriented_layer_ptr ?L nxt)"
  let ?f = "(framing_new g)\<lparr>mask_outgoing_frames := False\<rparr>" and ?s = "server_new (calc_app_new shell, framing_new g) cs"
  have a: "handlers_ok J ?a" "ca_buf ?a = []" "ca_requests ?a = []" "ca_last_id ?a = 0"
    and f: "cur_opcode (?f\<lparr>rng := seeded\<rparr>) = nil_code" and s: "\<not> srv_complete ?s" "srv_upper ?s = (calc_app_new shell, ?f)"
    by (simp_all add: handlers_ok_def calc_app_init_def calc_app_new_def make_actor_shell_def set_fallback_def
        shell_new_def framing_new_def server_new_def)
  from calculator_consumes_lines [OF kms(1,2) ls a f, of ?L M q nxt "[]" "(t, p)"] obtain a' f' d' where
    "framing_consume ?L ?U nxt (keyed_frames kms) [] (?a, ?f\<lparr>rng := seeded\<rparr>) (t, p) = ((a', f'), d', int (length (keyed_frames kms)))"
    and a': "ca_requests a' = number_requests J 0 rs" "ca_buf a' = []" by blast
  then have "consume_frames ?L ?U nxt (keyed_frames kms) 0 ?a (?f\<lparr>rng := seeded\<rparr>) (t, p)
      = (a', f', d', int (length (keyed_frames kms)))"
    by (auto simp: framing_consume_def split: prod.splits)
  from server_read_events [OF calc_upper_blind [OF P] calc_plain_init P S t p s H kms(3) this, of c] a' show ?thesis by fastforce
qed

text \<open>
  C20: The interactive client and the calculator server. Every non-empty line that the user types becomes one
  request to the worker of the server, with the operation and the operands of the line, in the order of
  typing: the terminal hands the lines to the application, which writes them as text messages with whatever
  masking keys it draws, and the server has completed the opening handshake and read all messages after
  finitely many read events, no matter in which segments and with which pauses the bytes of the request and of
  these messages arrive.
\<close>

theorem typed_lines_become_requests:
  assumes "mailbox_reads M content" and "xs \<noteq> []"
    and "\<forall>(es, line) \<in> set xs. list_all (keeps_session me) es \<and> newline \<notin> set line \<and> length line < max_buf_size"
    and "line_msgs C (map snd (session_lines me xs)) (content q')"
    and "map (parse_request J) (filter (\<lambda>l. l \<noteq> []) (map snd xs)) = map Some rs"
    and "write_buf t = []" and "mm_abort_reason (ws_ptr E self m nxt) (framing_new g, (t, X)) = None"
    and "parent_keeps P (\<lambda>Y. (recvd Y, feed Y, pace Y))" and "reads_well S recvd" and "feeds S feed pace"
    and "unread_transport r" and "min_read_size r = 1" and "max_read_size r = 2048" and "max_consecutive_reads r \<noteq> 0"
    and "recvd Y = []" and "pace Y < n"
    and "settings_sound H" and "base64_sound H" and "base64_codes_keys H"
    and "clean_request H hs" and "length (http_1_request H hs) \<le> max_http_size"
  shows "fst (main_loop xs (connected_terminal C M q me sock)) = EXIT_SUCCESS \<and>
    fst (snd (main_loop xs (connected_terminal C M q me sock))) = session_lines me xs \<and>
    (\<exists>a f t' X'. Client.client_prepare_send C M (ws_ptr E self m nxt) ((fst (client_app_init C M q me sock))\<lparr>sh_mailbox := q'\<rparr>)
        (framing_new g, (t, X)) = Some (True, a, (f, (t', X'))) \<and>
      (feed Y = bytes_of (http_1_request H hs) @ write_buf t' \<longrightarrow>
        (\<exists>s r' Y'. read_events P S (calc_server H P J M' q'' nxt' seeded c) n
              (server_new (calc_app_new shell, framing_new h) cs) r Y
            = (s, (r', Y'), Returned True) \<and>
          srv_complete s \<and> ws_request_uri (srv_cfg s) = lookup ''_endpoint'' hs \<and>
          ca_requests (fst (srv_upper s)) = number_requests J 0 rs \<and> ca_buf (fst (srv_upper s)) = [] \<and>
          pending_input r' = [])))"
proof (intro conjI)
  have ls: "list_all (\<lambda>(es, line). list_all (keeps_session me) es) xs" using assms(3) by (auto simp: list_all_iff)
  note loop = main_loop_session [OF connected_in_session ls, where ys = "[]", of C M q sock]
  show "fst (main_loop xs (connected_terminal C M q me sock)) = EXIT_SUCCESS"
    "fst (snd (main_loop xs (connected_terminal C M q me sock))) = session_lines me xs" using loop by simp_all
  from typed_lines_are_written [OF assms(1,4,6,7), of q sock] obtain a f t' X' kms where
    w: "Client.client_prepare_send C M (ws_ptr E self m nxt) ((fst (client_app_init C M q me sock))\<lparr>sh_mailbox := q'\<rparr>)
      (framing_new g, (t, X)) = Some (True, a, (f, (t', X')))"
    "write_buf t' = keyed_frames kms" "map snd kms = map (\<lambda>l. Text_message (l @ [newline])) (map snd xs)" by blast
  have "list_all (\<lambda>l. newline \<notin> set l \<and> length l < max_buf_size) (map snd xs)" "map snd xs \<noteq> []"
    using assms(2,3) by (auto simp: list_all_iff)
  note calculator_reads_segments [OF assms(8-21) w(3) this(2) _ this(1) assms(5), folded w(2), where c = c and M = M' and
      q = q'' and nxt = nxt' and seeded = seeded and shell = shell and g = h and cs = cs]
  with w(1) show "\<exists>a f t' X'. Client.client_prepare_send C M (ws_ptr E self m nxt) ((fst (client_app_init C M q me sock))\<lparr>sh_mailbox := q'\<rparr>)
        (framing_new g, (t, X)) = Some (True, a, (f, (t', X'))) \<and>
      (feed Y = bytes_of (http_1_request H hs) @ write_buf t' \<longrightarrow>
        (\<exists>s r' Y'. read_events P S (calc_server H P J M' q'' nxt' seeded c) n
              (server_new (calc_app_new shell, framing_new h) cs) r Y
            = (s, (r', Y'), Returned True) \<and>
          srv_complete s \<and> ws_request_uri (srv_cfg s) = lookup ''_endpoint'' hs \<and>
          ca_requests (fst (srv_upper s)) = number_requests J 0 rs \<and> ca_buf (fst (srv_upper s)) = [] \<and>
          pending_input r' = []))"
    by blast
qed

abbreviation no_settings :: "(string \<Rightarrow> string option) ws_settings" where
  "no_settings \<equiv> \<lparr>ws_method = [], ws_request_uri = [], ws_http_version = [], ws_fields = Map.empty\<rparr>"

lemma sample_request_fits: "length (http_1_request sample_env sample_handshake) \<le> max_http_size"
  by (simp add: http_1_request_def http_field_def user_fields_def lookup_def sample_env_def sample_handshake_def
      set_origin_def set_host_def set_endpoint_def handshake_new_def)

theorem typed_lines_become_requests_witness:
  "\<exists>a f t' X'. Client.client_prepare_send sample_client list_mailbox (ws_ptr pipe_env 0 1 (\<lambda>g. (g, g)))
      ((fst (client_app_init sample_client list_mailbox ([], False) (7 :: nat) 3))\<lparr>sh_mailbox :=
         ([\<lparr>sm_mid = 0, sm_sender = None :: nat option, sm_payload = Client_line [43, 2, 3, 10]\<rparr>,
           \<lparr>sm_mid = 0, sm_sender = None, sm_payload = Client_line [45, 9, 3, 10]\<rparr>], False)\<rparr>)
      sample_layers = Some (True, a, (f, (t', X'))) \<and>
    (\<exists>s r' Y'. read_events connection_parent paced_sys
        (calc_server sample_env connection_parent sample_json list_mailbox ([] :: (calc_payload, nat) shell_msg list, False)
           (\<lambda>g. (g, g)) 0 no_settings)
        (length (bytes_of (http_1_request sample_env sample_handshake) @ write_buf t') + 4)
        (server_new (calc_app_new sample_shell, framing_new (0 :: u32)) no_settings) (idle_transport 2 1 2048)
        (fresh_connection [bytes_of (http_1_request sample_env sample_handshake) @ take 3 (write_buf t'), [], drop 3 (write_buf t')])
      = (s, (r', Y'), Returned True) \<and>
      ca_requests (fst (srv_upper s)) = [(1, Add_atom, 2, 3), (2, Sub_atom, 9, 3)])"
proof -
  let ?xs = "[([], [43, 2, 3]), ([], [45, 9, 3])] :: (nat terminal_event list \<times> byte list) list"
  let ?q = "([\<lparr>sm_mid = 0, sm_sender = None :: nat option, sm_payload = Client_line [43, 2, 3, 10]\<rparr>,
           \<lparr>sm_mid = 0, sm_sender = None, sm_payload = Client_line [45, 9, 3, 10]\<rparr>], False)"
  let ?req = "bytes_of (http_1_request sample_env sample_handshake)" and ?r = "idle_transport 2 1 2048"
  have m: "line_msgs sample_client (map snd (session_lines 7 ?xs)) (fst ?q)" by (simp add: line_msgs_def sample_client_def)
  have p: "map (parse_request sample_json) (filter (\<lambda>l. l \<noteq> []) (map snd ?xs)) = map Some [(Add_atom, 2, 3), (Sub_atom, 9, 3)]"
    by (simp add: parse_request_def sample_json_def adapter_read_def)
  have n: "number_requests sample_json 0 [(Add_atom, 2, 3), (Sub_atom, 9, 3)] = [(1, Add_atom, 2, 3), (2, Sub_atom, 9, 3)]"
    by (simp add: sample_json_def)
  have x: "?xs \<noteq> []" "\<forall>(es, line) \<in> set ?xs. list_all (keeps_session 7) es \<and> newline \<notin> set line \<and> length line < max_buf_size" by simp_all
  have w: "write_buf stream_transport_new = []" by (simp add: stream_transport_new_def)
  have r: "unread_transport ?r" "min_read_size ?r = 1" "max_read_size ?r = 2048" "max_consecutive_reads ?r \<noteq> 0"
    using idle_unread [of 2048 1 2] by (simp_all add: idle_transport_def)
  have c: "received (fresh_connection bs) = []" "segments_left (fresh_connection bs) < length (concat bs) + length bs + 1" for bs
    by (simp_all add: fresh_connection_def segments_left_def)
  note T = typed_lines_become_requests [OF list_mailbox_reads x m p w sample_layers_ready(2) connection_parent_keeps
      paced_reads_well paced_feeds r c sample_env_sound(3,1,2) sample_request_clean sample_request_fits, where q = "([], False)" and
      sock = 3 and M' = list_mailbox and q'' = "([] :: (calc_payload, nat) shell_msg list, False)" and nxt = "\<lambda>g. (g, g)" and
      nxt' = "\<lambda>g. (g, g :: u32)" and seeded = 0 and h = 0 and shell = sample_shell and c = no_settings and cs = no_settings,
      THEN conjunct2, THEN conjunct2, unfolded n]
  from T [of "[]"] obtain a f t' X' where a:
    "Client.client_prepare_send sample_client list_mailbox (ws_ptr pipe_env 0 1 (\<lambda>g. (g, g)))
      ((fst (client_app_init sample_client list_mailbox ([], False) (7 :: nat) 3))\<lparr>sh_mailbox := ?q\<rparr>) sample_layers
     = Some (True, a, (f, (t', X')))"
    by blast
  let ?bs = "[?req @ take 3 (write_buf t'), [], drop 3 (write_buf t')]"
  have "concat (chunks (fresh_connection ?bs)) = ?req @ write_buf t'"
    "length (concat ?bs) + length ?bs + 1 = length (?req @ write_buf t') + 4"
    by (simp_all add: fresh_connection_def)
  from T [of ?bs, unfolded this] a show ?thesis by auto
qed

text \<open>The socket of the connection in the world of the multiplexer.\<close>

definition on_world :: "'c stream_sys \<Rightarrow> ('w \<times> 'c) multiplexer stream_sys" where
  "on_world S =
     \<lparr>sys_read = (\<lambda>n X. let (c, r) = sys_read S n (snd (world X)) in (X\<lparr>world := (fst (world X), c)\<rparr>, r)),
      sys_write = (\<lambda>bs X. let (c, r) = sys_write S bs (snd (world X)) in (X\<lparr>world := (fst (world X), c)\<rparr>, r)),
      sys_nodelay = (\<lambda>X. let (c, r) = sys_nodelay S (snd (world X)) in (X\<lparr>world := (fst (world X), c)\<rparr>, r)),
      sys_send_buffer_size = (\<lambda>X. let (c, r) = sys_send_buffer_size S (snd (world X)) in (X\<lparr>world := (fst (world X), c)\<rparr>, r))\<rparr>"

lemma on_world_reads_well:
  fixes S :: "'c stream_sys"
  assumes "reads_well S recvd"
  shows "reads_well (on_world S :: ('w \<times> 'c) multiplexer stream_sys) (\<lambda>X. recvd (snd (world X)))"
  unfolding reads_well_def
proof (intro allI)
  fix n and X :: "('w \<times> 'c) multiplexer"
  show "case sys_read (on_world S) n X of
      (X', Read_some bs) \<Rightarrow> bs \<noteq> [] \<and> length bs \<le> n \<and> recvd (snd (world X')) = recvd (snd (world X)) @ bs
    | (X', _) \<Rightarrow> recvd (snd (world X')) = recvd (snd (world X))"
    using reads_well_case [OF assms, of n "snd (world X)"]
    by (simp add: on_world_def split: prod.splits read_result.splits)
qed

text \<open>A multiplexer on whose only connection the start of a request arrives in two segments.\<close>

definition idle_env :: "(byte list \<times> connection) mpx_env" where
  "idle_env =
     \<lparr>handle_read_event = (\<lambda>m M. (M, False)), handle_write_event = (\<lambda>m M. (M, False)), handle_error = (\<lambda>m c M. M),
      manager_init = (\<lambda>m M. (M, None)), pipe_write = (\<lambda>h bs w. (w, 0)), pipe_read = (\<lambda>n w. (w, Read_failed True)),
      pipe_open = (\<lambda>w. (w, Inr (3, 4))), pipe_nonblocking = (\<lambda>h w. (w, None)), close_socket = (\<lambda>h w. w),
      poll_sockets = (\<lambda>ps b w. (w, Poll_timeout))\<rparr>"

definition segmented_mpx :: "(byte list \<times> connection) multiplexer" where
  "segmented_mpx =
     multiplexer_new (\<lambda>m. idle_manager (int (unat m))) ([], fresh_connection [[71], [69, 84, 32]])"

lemma read_events_cases:
  fixes r :: "'s \<times> ('t \<times> 'x) \<times> outcome"
  obtains s t x out where "r = (s, (t, x), out)"
  by (cases r) auto

text \<open>
  C39: The calculator server does not depend on the segments in which its input arrives. Whatever bytes the
  peer sends, a valid handshake and valid frames or not, and however many read events handle them, the
  transport never reads out of bounds, and while the connection is up, the server, the framing layer and the
  application are in the state after a single call of \<open>consume\<close> with all bytes received so far; what that
  call leaves over is in the buffer of the transport.
\<close>

theorem calculator_ignores_segments:
  assumes "reads_well S (\<lambda>X. recvd (snd (world X)))" and "recvd (snd (world X)) = []"
    and "unread_transport t" and "min_read_size t = 1" and "max_read_size t = 2048" and "\<not> srv_complete s"
    and "P = manager_ptr (apart E pw) self m"
    and "read_events P S (calc_server H P J M q nxt seeded c) n s t X = (s', (t', X'), out)"
  shows "out \<noteq> Out_of_bounds \<and>
    (out = Returned True \<longrightarrow>
      (\<exists>d'. server_consume H (make_stream_oriented_layer_ptr P) (calc_stack P J M q nxt seeded)
         (\<lambda>c. su_init (calc_stack P J M q nxt seeded)) (recvd (snd (world X'))) delta s d
       = (s', d', int (length (recvd (snd (world X'))) - length (pending_input t')))))"
proof -
  let ?L = "make_stream_oriented_layer_ptr P" and ?F = "calc_stack P J M q nxt seeded" and ?bytes = "recvd (snd (world X'))"
  let ?run = "framing_run P (calc_upper J M q (make_mixed_message_oriented_layer_ptr ?L nxt)) nxt d"
  let ?init = "framing_setup (calc_app_init M q) seeded"
  have keeps: "parent_keeps P (\<lambda>X. recvd (snd (world X)))" unfolding assms(7) by (rule apart_keeps)
  have "chunked_consumer.idle (\<lambda>X. recvd (snd (world X))) (server_state (\<lambda>v. v)) (server_stream.server_cfg (\<lambda>v lo hi. True))
      (server_run H ?run ?init) s s t X"
    unfolding assms(7) calculator.server.idle_def using assms(2-6)
    by (auto simp: server_state_id calculator.server_cfg_def calculator.server_run_Nil)
  note run = calculator.server.read_events_run [OF assms(1) this [unfolded assms(7)] assms(8) [unfolded assms(7)], folded assms(7)]
  have "\<exists>d'. server_consume H ?L ?F (\<lambda>c. su_init ?F) ?bytes delta s d = (s', d', int (length ?bytes - length (pending_input t')))"
    if "out = Returned True"
  proof -
    note r = run(2) [OF that]
    obtain s1 d1 k where call: "server_consume H ?L ?F (\<lambda>c. su_init ?F) ?bytes delta s d = (s1, d1, k)" by (metis surj_pair)
    have short: "length (fst (split_http_1_header ?bytes)) \<le> max_http_size"
      using r assms(6) by (auto simp: server_run_def server_state_id split: if_splits)
    have upper: "?run bytes v = (v', k)" if "su_consume ?F bytes delta v d2 = (v', d', k)" for bytes delta v d2 v' d' k
    proof -
      from that have "consume_frames ?L (calc_upper J M q (make_mixed_message_oriented_layer_ptr ?L nxt)) nxt bytes 0 (fst v) (snd v) d2
          = (fst v', snd v', d', k)" by (auto simp: framing_layer_def framing_consume_def split: prod.splits)
      from framing_run_blind [OF calc_upper_blind [OF keeps] keeps this] show ?thesis by simp
    qed
    have "server_run H ?run ?init ?bytes (server_state (\<lambda>v. v) s) = (server_state (\<lambda>v. v) s1, k)"
      unfolding assms(7) by (rule calculator.server_consume_run [OF upper [unfolded assms(7)] call [unfolded assms(7)]]) (use short in auto)
    with r show ?thesis using call by (simp add: server_state_id)
  qed
  with run(1) show ?thesis by blast
qed

theorem calculator_ignores_segments_witness:
  "let P = manager_ptr (apart idle_env (pipe_write pipe_env)) 0 1;
       q = ([] :: (calc_payload, nat) shell_msg list, False);
       s = server_new (calc_app_new sample_shell, framing_new (0 :: u32)) no_settings;
       (s', (t', X'), out) = read_events P (on_world connection_sys)
         (calc_server sample_env P sample_json list_mailbox q (\<lambda>g. (g, g)) 0 no_settings) 2 s (idle_transport 2 1 2048) segmented_mpx
   in out \<noteq> Out_of_bounds \<and>
     (out = Returned True \<longrightarrow>
       (\<exists>d'. server_consume sample_env (make_stream_oriented_layer_ptr P) (calc_stack P sample_json list_mailbox q (\<lambda>g. (g, g)) 0)
          (\<lambda>c. su_init (calc_stack P sample_json list_mailbox q (\<lambda>g. (g, g)) 0)) (received (snd (world X'))) [] s
          (idle_transport 2 1 2048, segmented_mpx)
        = (s', d', int (length (received (snd (world X'))) - length (pending_input t')))))"
proof -
  define P where "P = manager_ptr (apart idle_env (pipe_write pipe_env)) 0 1"
  define s where "s = server_new (calc_app_new sample_shell, framing_new (0 :: u32)) no_settings"
  have e: "received (snd (world segmented_mpx)) = []" "unread_transport (idle_transport 2 1 2048)"
    "min_read_size (idle_transport 2 1 2048) = 1" "max_read_size (idle_transport 2 1 2048) = 2048" "\<not> srv_complete s"
    using idle_unread [of 2048 1 2]
    by (simp_all add: segmented_mpx_def multiplexer_new_def fresh_connection_def idle_transport_def s_def server_new_def)
  obtain s' t' X' out where r: "read_events P (on_world connection_sys)
      (calc_server sample_env P sample_json list_mailbox ([] :: (calc_payload, nat) shell_msg list, False) (\<lambda>g. (g, g)) 0 no_settings)
      2 s (idle_transport 2 1 2048) segmented_mpx = (s', (t', X'), out)"
    by (rule read_events_cases)
  note calculator_ignores_segments [OF on_world_reads_well [OF connection_reads_well] e P_def r,
      where delta = "[]" and d = "(idle_transport 2 1 2048, segmented_mpx)"]
  then show ?thesis unfolding Let_def P_def [symmetric] s_def [symmetric] r prod.case .
qed

end
