(* ===== verification/Feed.thy ===== *)
theory Feed
  imports WebSocket_Apps Handshake
begin

text \<open>
  The stock feed (\<open>examples/net/web-socket-feed.cpp\<close>): an actor that changes the price of a random stock
  every second and publishes it to its listeners, and the WebSocket application that is such a listener and
  forwards every info to its client. Random numbers and floating-point numbers are operations of an
  environment: prices have a type \<open>'v\<close> with a linear order, since no price is NaN. Messages that the actor
  sends are effects.
\<close>

section \<open>Stocks\<close>

record 'v info =
  si_symbol :: string
  si_currency :: string
  si_current :: 'v
  si_open :: 'v
  si_high :: 'v
  si_low :: 'v

text \<open>What \<open>inspect\<close> writes and reads: the current price is not among the fields.\<close>

definition inspect_info :: "'v info \<Rightarrow> string \<times> string \<times> 'v \<times> 'v \<times> 'v" where
  "inspect_info x = (si_symbol x, si_currency x, si_open x, si_high x, si_low x)"

lemma inspect_drops_current: "inspect_info (x\<lparr>si_current := v\<rparr>) = inspect_info x"
  by (simp add: inspect_info_def)

text \<open>The three distributions on the state \<open>'g\<close> of the generator; \<open>price n\<close> is \<open>n / 100.0\<close>.\<close>

record ('v, 'g) feed_env =
  char_dist :: "'g \<Rightarrow> char \<times> 'g"
  val_dist :: "'g \<Rightarrow> int \<times> 'g"
  index_dist :: "'g \<Rightarrow> nat \<times> 'g"
  price :: "int \<Rightarrow> 'v"

record ('v, 'a, 'g) random_feed_state =
  fs_infos :: "'v info list"
  fs_listeners :: "'a list"
  fs_rng :: 'g

definition next_value :: "('v, 'g) feed_env \<Rightarrow> 'g \<Rightarrow> 'v \<times> 'g" where
  "next_value R g = (let (n, g') = val_dist R g in (price R n, g'))"

fun make_symbol :: "('v, 'g) feed_env \<Rightarrow> nat \<Rightarrow> 'g \<Rightarrow> string \<times> 'g" where
  "make_symbol R 0 g = ([], g)"
| "make_symbol R (Suc n) g = (let (c, g1) = char_dist R g; (s, g2) = make_symbol R n g1 in (c # s, g2))"

fun fill_infos :: "('v, 'g) feed_env \<Rightarrow> nat \<Rightarrow> 'g \<Rightarrow> 'v info list \<times> 'g" where
  "fill_infos R 0 g = ([], g)"
| "fill_infos R (Suc n) g =
     (let (symbol, g1) = make_symbol R 5 g; (val, g2) = next_value R g1; (xs, g3) = fill_infos R n g2
      in (\<lparr>si_symbol = symbol, si_currency = ''USD'', si_current = val, si_open = val, si_high = val, si_low = val\<rparr> # xs, g3))"

definition random_feed_state_new :: "('v, 'g) feed_env \<Rightarrow> 'g \<Rightarrow> ('v, 'a, 'g) random_feed_state" where
  "random_feed_state_new R seed =
     (let (xs, g) = fill_infos R 20 seed in \<lparr>fs_infos = xs, fs_listeners = [], fs_rng = g\<rparr>)"

text \<open>\<open>None\<close> stands for an access outside of the vector, which is undefined in C++.\<close>

definition feed_update ::
  "('v :: linorder, 'g) feed_env \<Rightarrow> ('v, 'a, 'g) random_feed_state \<Rightarrow> ('v info \<times> ('v, 'a, 'g) random_feed_state) option" where
  "feed_update R st =
     (let (i, g1) = index_dist R (fs_rng st) in
      if i < length (fs_infos st) then
        let x = fs_infos st ! i;
            (val, g2) = next_value R g1;
            x1 = x\<lparr>si_current := val\<rparr>;
            x2 = x1\<lparr>si_high := max (si_high x1) val\<rparr>;
            x3 = x2\<lparr>si_low := min (si_high x2) val\<rparr>
        in Some (x3, st\<lparr>fs_infos := (fs_infos st)[i := x3], fs_rng := g2\<rparr>)
      else None)"

section \<open>The feed actor\<close>

datatype ('v, 'a) feed_effect = Send_info 'a "'v info" | Delayed_update | Monitor 'a

datatype 'a feed_event = Update_atom | Subscribe_atom 'a | Down_msg 'a

definition feed_impl :: "('v, 'g) feed_env \<Rightarrow> 'g \<Rightarrow> ('v, 'a, 'g) random_feed_state \<times> ('v, 'a) feed_effect list" where
  "feed_impl R seed = (random_feed_state_new R seed, [Delayed_update])"

definition on_update ::
  "('v :: linorder, 'g) feed_env \<Rightarrow> ('v, 'a, 'g) random_feed_state \<Rightarrow>
   (('v, 'a) feed_effect list \<times> ('v, 'a, 'g) random_feed_state) option" where
  "on_update R st =
     (case feed_update R st of
        None \<Rightarrow> None
      | Some (x, st') \<Rightarrow> Some (map (\<lambda>l. Send_info l x) (fs_listeners st') @ [Delayed_update], st'))"

definition on_subscribe ::
  "'a \<Rightarrow> ('v, 'a, 'g) random_feed_state \<Rightarrow> ('v, 'a) feed_effect list \<times> ('v, 'a, 'g) random_feed_state" where
  "on_subscribe hdl st =
     (Monitor hdl # map (Send_info hdl) (fs_infos st), st\<lparr>fs_listeners := fs_listeners st @ [hdl]\<rparr>)"

definition on_down :: "'a \<Rightarrow> ('v, 'a, 'g) random_feed_state \<Rightarrow> ('v, 'a, 'g) random_feed_state" where
  "on_down source st = st\<lparr>fs_listeners := filter (\<lambda>hdl. hdl \<noteq> source) (fs_listeners st)\<rparr>"

fun feed_handle ::
  "('v :: linorder, 'g) feed_env \<Rightarrow> 'a feed_event \<Rightarrow> ('v, 'a, 'g) random_feed_state \<Rightarrow>
   (('v, 'a) feed_effect list \<times> ('v, 'a, 'g) random_feed_state) option" where
  "feed_handle R Update_atom st = on_update R st"
| "feed_handle R (Subscribe_atom hdl) st = Some (on_subscribe hdl st)"
| "feed_handle R (Down_msg source) st = Some ([], on_down source st)"

text \<open>The actor handles one message after the other.\<close>

fun feed_run ::
  "('v :: linorder, 'g) feed_env \<Rightarrow> 'a feed_event list \<Rightarrow> ('v, 'a, 'g) random_feed_state \<Rightarrow>
   (('v, 'a) feed_effect list \<times> ('v, 'a, 'g) random_feed_state) option" where
  "feed_run R [] st = Some ([], st)"
| "feed_run R (e # es) st =
     (case feed_handle R e st of
        None \<Rightarrow> None
      | Some (eff, st') \<Rightarrow> map_option (\<lambda>(effs, st''). (eff @ effs, st'')) (feed_run R es st'))"

section \<open>The WebSocket application\<close>

datatype 'v feed_payload = Feed_info "'v info" | Feed_other string

datatype feed_handler = Feed_no_behavior | Info_behavior

text \<open>
  Printing of numbers, the classification of message IDs, a message as the context of an error and the
  error for an unexpected response belong to the standard library and to CAF.
\<close>

record 'v feed_app_env =
  fa_to_string :: "'v \<Rightarrow> byte list"
  fa_context :: "'v feed_payload \<Rightarrow> string"
  fa_unexpected :: "'v feed_payload \<Rightarrow> 'v feed_payload"
  fa_is_response :: "u64 \<Rightarrow> bool"
  fa_is_request :: "u64 \<Rightarrow> bool"

definition render_info :: "'v feed_app_env \<Rightarrow> 'v info \<Rightarrow> byte list" where
  "render_info A x =
     (let quote = [byte_of_char (CHR 0x22)]; nl = [byte_of_char (CHR 0x0A)]; comma = bytes_of '','' in
      bytes_of ''{'' @ nl @
      bytes_of ''  symbol: '' @ quote @ bytes_of (si_symbol x) @ quote @ comma @ nl @
      bytes_of ''  currency: '' @ quote @ bytes_of (si_currency x) @ quote @ comma @ nl @
      bytes_of ''  current: '' @ fa_to_string A (si_current x) @ comma @ nl @
      bytes_of ''  open: '' @ fa_to_string A (si_open x) @ comma @ nl @
      bytes_of ''  high: '' @ fa_to_string A (si_high x) @ comma @ nl @
      bytes_of ''  low: '' @ fa_to_string A (si_low x) @ nl @
      bytes_of ''}'' @ nl)"

definition feed_shell_env ::
  "'v feed_app_env \<Rightarrow> 'l mixed_message_oriented_layer_ptr \<Rightarrow> ('v feed_payload, feed_handler, 'l, unit) shell_env" where
  "feed_shell_env A P =
     \<lparr>is_response = fa_is_response A, is_request = fa_is_request A,
      run_behavior = (\<lambda>h p l. case (h, p) of
          (Info_behavior, Feed_info x) \<Rightarrow> (Some (), send_message P (Text_message (render_info A x)) l)
        | _ \<Rightarrow> (None, l)),
      run_fallback = (\<lambda>h p l. ((), default_fallback P (fa_context A) p l)),
      visit_result = (\<lambda>x l. l),
      unexpected_response = fa_unexpected A\<rparr>"

text \<open>The shell of the application and the message for the feed.\<close>

definition feed_app_init ::
  "('v feed_payload, 'r, 'q) mailbox \<Rightarrow> 'q \<Rightarrow> 'a \<Rightarrow> ('q, feed_handler) actor_shell \<times> 'a feed_event" where
  "feed_app_init M q self_hdl =
     (set_behavior Info_behavior (make_actor_shell M q Feed_no_behavior Feed_no_behavior), Subscribe_atom self_hdl)"

definition feed_prepare_send ::
  "'v feed_app_env \<Rightarrow> ('v feed_payload, 'r, 'q) mailbox \<Rightarrow> 'l mixed_message_oriented_layer_ptr \<Rightarrow>
   ('q, feed_handler) actor_shell \<Rightarrow> 'l \<Rightarrow> (bool \<times> ('q, feed_handler) actor_shell \<times> 'l) option" where
  "feed_prepare_send A M P a l = app_prepare_send M (feed_shell_env A P) P a l"

definition feed_done_sending ::
  "('v feed_payload, 'r, 'q) mailbox \<Rightarrow> ('q, feed_handler) actor_shell \<Rightarrow> bool \<times> ('q, feed_handler) actor_shell" where
  "feed_done_sending M a = app_done_sending M a"

definition feed_consume_text :: "byte list \<Rightarrow> int" where
  "feed_consume_text txt = int (length txt)"

definition feed_consume_binary :: "byte list \<Rightarrow> int" where
  "feed_consume_binary bytes = int (length bytes)"

section \<open>The invariant\<close>

text \<open>What the source relies on: the distributions stay within the bounds they were created with.\<close>

definition upper_case :: "char \<Rightarrow> bool" where
  "upper_case c \<longleftrightarrow> of_char CHR ''A'' \<le> (of_char c :: nat) \<and> of_char c \<le> (of_char CHR ''Z'' :: nat)"

definition dists_ok :: "('v, 'g) feed_env \<Rightarrow> bool" where
  "dists_ok R \<longleftrightarrow>
     (\<forall>g. upper_case (fst (char_dist R g))) \<and>
     (\<forall>g. fst (val_dist R g) \<in> {0..100000}) \<and> (\<forall>g. fst (index_dist R g) \<in> {0..19})"

definition info_ok :: "('v :: linorder, 'g) feed_env \<Rightarrow> 'v info \<Rightarrow> bool" where
  "info_ok R x \<longleftrightarrow>
     length (si_symbol x) = 5 \<and> list_all upper_case (si_symbol x) \<and> si_currency x = ''USD'' \<and>
     {si_current x, si_open x, si_high x, si_low x} \<subseteq> price R ` {0..100000} \<and>
     si_open x \<le> si_high x \<and> si_current x \<le> si_high x \<and> si_low x \<le> si_high x"

definition feed_inv :: "('v :: linorder, 'g) feed_env \<Rightarrow> ('v, 'a, 'g) random_feed_state \<Rightarrow> bool" where
  "feed_inv R st \<longleftrightarrow> length (fs_infos st) = 20 \<and> list_all (info_ok R) (fs_infos st)"

lemma index_dist_range: "dists_ok R \<Longrightarrow> fst (index_dist R g) < 20"
  by (auto simp: dists_ok_def dest!: spec [of _ g])

lemma next_value_range: "dists_ok R \<Longrightarrow> fst (next_value R g) \<in> price R ` {0..100000}"
  by (auto simp: dists_ok_def next_value_def split: prod.split) (metis fst_conv image_eqI atLeastAtMost_iff)

lemma make_symbol_ok:
  assumes "dists_ok R"
  shows "length (fst (make_symbol R n g)) = n \<and> list_all upper_case (fst (make_symbol R n g))"
proof (induction n arbitrary: g)
  case (Suc n)
  have "upper_case (fst (char_dist R g))" using assms unfolding dists_ok_def by blast
  then show ?case using Suc [of "snd (char_dist R g)"] by (simp add: case_prod_unfold Let_def)
qed simp

lemma fill_infos_ok:
  assumes "dists_ok R"
  shows "length (fst (fill_infos R n g)) = n \<and> list_all (info_ok R) (fst (fill_infos R n g))"
proof (induction n arbitrary: g)
  case (Suc n)
  obtain s g1 where s: "make_symbol R 5 g = (s, g1)" by fastforce
  obtain v g2 where v: "next_value R g1 = (v, g2)" by fastforce
  have "length s = 5 \<and> list_all upper_case s" using make_symbol_ok [OF assms, of 5 g] s by simp
  moreover have "v \<in> price R ` {0..100000}" using next_value_range [OF assms, of g1] v by simp
  ultimately have "info_ok R \<lparr>si_symbol = s, si_currency = ''USD'', si_current = v, si_open = v, si_high = v, si_low = v\<rparr>"
    unfolding info_ok_def by simp
  then show ?case using Suc [of g2] s v by (simp add: case_prod_unfold Let_def)
qed simp

text \<open>An update in terms of the drawn index and price: \<open>std::min(x.high, val)\<close> is the new price.\<close>

lemma feed_update_eq:
  "feed_update R st =
     (let i = fst (index_dist R (fs_rng st)); (val, g) = next_value R (snd (index_dist R (fs_rng st)));
          x = (fs_infos st ! i)\<lparr>si_current := val, si_high := max (si_high (fs_infos st ! i)) val, si_low := val\<rparr>
      in if i < length (fs_infos st) then Some (x, st\<lparr>fs_infos := (fs_infos st)[i := x], fs_rng := g\<rparr>) else None)"
  by (simp add: feed_update_def Let_def min_def max_def case_prod_unfold)

lemma feed_update_ok:
  assumes "dists_ok R" and "feed_inv R st"
  shows "\<exists>x st'. feed_update R st = Some (x, st') \<and> feed_inv R st' \<and> fs_listeners st' = fs_listeners st"
proof -
  let ?i = "fst (index_dist R (fs_rng st))"
  obtain v g where v: "next_value R (snd (index_dist R (fs_rng st))) = (v, g)" by fastforce
  let ?x = "(fs_infos st ! ?i)\<lparr>si_current := v, si_high := max (si_high (fs_infos st ! ?i)) v, si_low := v\<rparr>"
  have i: "?i < length (fs_infos st)"
    using assms index_dist_range [OF assms(1), of "fs_rng st"] by (simp add: feed_inv_def)
  have "info_ok R (fs_infos st ! ?i)" using assms(2) i by (simp add: feed_inv_def list_all_length)
  moreover have "v \<in> price R ` {0..100000}" using next_value_range [OF assms(1)] v by (metis fst_conv)
  ultimately have "info_ok R ?x" by (auto simp: info_ok_def max_def)
  then have "list_all (info_ok R) ((fs_infos st)[?i := ?x])"
    using assms(2) by (auto simp: feed_inv_def list_all_iff dest: set_update_subset_insert [THEN subsetD])
  then show ?thesis using i v assms(2) by (simp add: feed_update_eq feed_inv_def Let_def)
qed

lemma feed_handle_ok:
  assumes "dists_ok R" and "feed_inv R st"
  shows "\<exists>eff st'. feed_handle R e st = Some (eff, st') \<and> feed_inv R st' \<and>
    count_list eff Delayed_update = count_list [e] Update_atom"
proof (cases e)
  case Update_atom
  obtain x st' where u: "feed_update R st = Some (x, st')" "feed_inv R st'" using feed_update_ok [OF assms] by blast
  have "count_list (map (\<lambda>l. Send_info l x) ls) Delayed_update = 0" for ls :: "'c list" by (induction ls) auto
  with u show ?thesis using Update_atom by (simp add: on_update_def)
next
  case (Subscribe_atom hdl)
  have "count_list (map (Send_info hdl) xs) Delayed_update = 0" for xs :: "'a info list" by (induction xs) auto
  then show ?thesis using Subscribe_atom assms(2) by (simp add: on_subscribe_def feed_inv_def)
next
  case (Down_msg source)
  then show ?thesis using assms(2) by (simp add: on_down_def feed_inv_def)
qed

lemma feed_run_ok:
  assumes "dists_ok R" and "feed_inv R st"
  shows "\<exists>effs st'. feed_run R es st = Some (effs, st') \<and> feed_inv R st' \<and>
    count_list effs Delayed_update = count_list es Update_atom"
  using assms(2)
proof (induction es arbitrary: st)
  case (Cons e es)
  obtain eff st1 where h: "feed_handle R e st = Some (eff, st1)" "feed_inv R st1"
    "count_list eff Delayed_update = count_list [e] Update_atom" using feed_handle_ok [OF assms(1) Cons.prems] by blast
  from Cons.IH [OF h(2)] obtain effs st' where "feed_run R es st1 = Some (effs, st')" "feed_inv R st'"
    "count_list effs Delayed_update = count_list es Update_atom" by blast
  then show ?case using h by simp
qed simp

lemma feed_impl_infos [simp]: "fs_infos (fst (feed_impl R seed)) = fst (fill_infos R 20 seed)"
  by (simp add: feed_impl_def random_feed_state_new_def case_prod_unfold Let_def)

lemma feed_impl_inv: "dists_ok R \<Longrightarrow> feed_inv R (fst (feed_impl R seed))"
  using fill_infos_ok [of R 20 seed] by (simp add: feed_inv_def)

section \<open>The prices of a stock\<close>

text \<open>The prices that the updates of a run assign to the stock \<open>i\<close>.\<close>

fun feed_prices :: "('v :: linorder, 'g) feed_env \<Rightarrow> nat \<Rightarrow> 'a feed_event list \<Rightarrow> ('v, 'a, 'g) random_feed_state \<Rightarrow> 'v list" where
  "feed_prices R i [] st = []"
| "feed_prices R i (e # es) st =
     (case feed_handle R e st of
        None \<Rightarrow> []
      | Some (_, st') \<Rightarrow>
          (if e = Update_atom \<and> fst (index_dist R (fs_rng st)) = i
           then [fst (next_value R (snd (index_dist R (fs_rng st))))] else []) @ feed_prices R i es st')"

text \<open>How a list of new prices changes a stock.\<close>

definition reprice :: "'v :: linorder list \<Rightarrow> 'v info \<Rightarrow> 'v info" where
  "reprice ps x = fold (\<lambda>v x. x\<lparr>si_current := v, si_high := max (si_high x) v, si_low := v\<rparr>) ps x"

lemma reprice_append [simp]: "reprice (ps @ qs) x = reprice qs (reprice ps x)"
  by (simp add: reprice_def)

lemma feed_handle_reprice:
  assumes "feed_handle R e st = Some (eff, st')" and "i < length (fs_infos st)"
  shows "length (fs_infos st') = length (fs_infos st) \<and>
    fs_infos st' ! i = reprice (if e = Update_atom \<and> fst (index_dist R (fs_rng st)) = i
      then [fst (next_value R (snd (index_dist R (fs_rng st))))] else []) (fs_infos st ! i)"
  using assms
  by (cases e)
    (auto simp: reprice_def on_update_def on_subscribe_def on_down_def feed_update_eq Let_def case_prod_unfold
      split: option.splits if_splits)

lemma feed_run_reprice:
  assumes "feed_run R es st = Some (effs, st')" and "i < length (fs_infos st)"
  shows "fs_infos st' ! i = reprice (feed_prices R i es st) (fs_infos st ! i)"
  using assms
proof (induction es arbitrary: st effs)
  case (Cons e es)
  obtain eff st1 effs1 where h: "feed_handle R e st = Some (eff, st1)" "feed_run R es st1 = Some (effs1, st')"
    using Cons.prems(1) by (auto split: option.splits)
  note f = feed_handle_reprice [OF h(1) Cons.prems(2)]
  show ?case using Cons.IH [OF h(2)] Cons.prems(2) f h(1) by simp
qed (simp add: reprice_def)

lemma reprice_fields:
  "si_open (reprice ps x) = si_open x" "si_high (reprice ps x) = fold max ps (si_high x)"
  "si_current (reprice ps x) = last (si_current x # ps)" "si_low (reprice ps x) = last (si_low x # ps)"
  by (induction ps arbitrary: x) (simp_all add: reprice_def max.commute)

lemma fill_infos_constant:
  "list_all (\<lambda>x. si_current x = si_open x \<and> si_high x = si_open x \<and> si_low x = si_open x) (fst (fill_infos R n g))"
  by (induction n arbitrary: g) (simp_all add: case_prod_unfold Let_def)

section \<open>From the feed to the client\<close>

text \<open>The infos that the actor sends to a listener, and those that updates publish.\<close>

definition infos_for :: "'a \<Rightarrow> ('v, 'a) feed_effect list \<Rightarrow> 'v info list" where
  "infos_for a effs = [x. Send_info b x \<leftarrow> effs, b = a]"

fun feed_updates :: "('v :: linorder, 'g) feed_env \<Rightarrow> 'a feed_event list \<Rightarrow> ('v, 'a, 'g) random_feed_state \<Rightarrow> 'v info list" where
  "feed_updates R [] st = []"
| "feed_updates R (e # es) st =
     (case feed_handle R e st of
        None \<Rightarrow> []
      | Some (_, st') \<Rightarrow> (if e = Update_atom then map fst (case feed_update R st of None \<Rightarrow> [] | Some u \<Rightarrow> [u]) else []) @ feed_updates R es st')"

lemma infos_for_simps [simp]:
  "infos_for a [] = []"
  "infos_for a (Send_info b x # effs) = (if b = a then [x] else []) @ infos_for a effs"
  "infos_for a (Delayed_update # effs) = infos_for a effs"
  "infos_for a (Monitor b # effs) = infos_for a effs"
  "infos_for a (effs @ effs') = infos_for a effs @ infos_for a effs'"
  by (simp_all add: infos_for_def)

lemma infos_for_map_listener: "infos_for a (map (Send_info a) xs) = xs"
  by (induction xs) simp_all

lemma infos_for_publish: "infos_for a (map (\<lambda>l. Send_info l x) ls) = replicate (count_list ls a) x"
  by (induction ls) (auto simp: replicate_append_same)

lemma count_list_filter_other: "b \<noteq> a \<Longrightarrow> count_list (filter (\<lambda>h. h \<noteq> b) ls) a = count_list ls a"
  by (induction ls) auto

lemma infos_for_other: "b \<noteq> a \<Longrightarrow> infos_for a (map (Send_info b) xs) = []"
  by (induction xs) simp_all

lemma feed_handle_infos:
  assumes "feed_handle R e st = Some (eff, st')" and "count_list (fs_listeners st) a = 1"
    and "e \<noteq> Subscribe_atom a" and "e \<noteq> Down_msg a"
  shows "count_list (fs_listeners st') a = 1 \<and>
    infos_for a eff = (if e = Update_atom then map fst (case feed_update R st of None \<Rightarrow> [] | Some u \<Rightarrow> [u]) else [])"
proof (cases e)
  case Update_atom
  then obtain x where u: "feed_update R st = Some (x, st')" "eff = map (\<lambda>l. Send_info l x) (fs_listeners st') @ [Delayed_update]"
    using assms(1) by (auto simp: on_update_def split: option.splits)
  moreover have "fs_listeners st' = fs_listeners st"
    using u(1) by (auto simp: feed_update_eq Let_def case_prod_unfold split: if_splits)
  ultimately show ?thesis using Update_atom assms(2) by (simp add: infos_for_publish)
qed (use assms in \<open>auto simp: on_subscribe_def on_down_def count_list_filter_other infos_for_other\<close>)

lemma feed_run_infos:
  assumes "feed_run R es st = Some (effs, st')" and "count_list (fs_listeners st) a = 1"
    and "Subscribe_atom a \<notin> set es" and "Down_msg a \<notin> set es"
  shows "infos_for a effs = feed_updates R es st"
  using assms
proof (induction es arbitrary: st effs)
  case (Cons e es)
  obtain eff st1 effs1 where h: "feed_handle R e st = Some (eff, st1)" "feed_run R es st1 = Some (effs1, st')" "effs = eff @ effs1"
    using Cons.prems(1) by (auto split: option.splits)
  have "e \<noteq> Subscribe_atom a" "e \<noteq> Down_msg a" using Cons.prems(3,4) by auto
  from feed_handle_infos [OF h(1) Cons.prems(2) this] show ?case
    using Cons.IH [OF h(2)] Cons.prems(3,4) h(1,3) by simp
qed simp

text \<open>Infos as messages in the mailbox of the application.\<close>

definition info_msgs :: "'v feed_app_env \<Rightarrow> 'v info list \<Rightarrow> ('v feed_payload, 'r) shell_msg list \<Rightarrow> bool" where
  "info_msgs A xs ms \<longleftrightarrow> map sm_payload ms = map Feed_info xs \<and> list_all (\<lambda>m. \<not> fa_is_response A (sm_mid m)) ms"

context mixed_lower
begin

lemma process_infos:
  assumes "info_msgs A xs ms" and "sh_bhvr a = Info_behavior" and "ready l" and "mm_abort_reason P l = None"
  shows "\<exists>l'. process_all (feed_shell_env A P) P ms a l = (True, [], a, l') \<and> wrote l (map (\<lambda>x. Text_message (render_info A x)) xs) l'"
proof -
  let ?f = "\<lambda>m. Text_message (case sm_payload m of Feed_info x \<Rightarrow> render_info A x | _ \<Rightarrow> [])"
  have m: "map sm_payload ms = map Feed_info xs" "list_all (\<lambda>m. \<not> fa_is_response A (sm_mid m)) ms"
    using assms(1) by (auto simp: info_msgs_def)
  have "process_message (feed_shell_env A P) m a l = (a, send_message P (?f m) l)" if "m \<in> set ms" for m l
  proof -
    have "sm_payload m \<in> Feed_info ` set xs" using that m(1) by (metis image_eqI list.set_map)
    moreover have "\<not> fa_is_response A (sm_mid m)" using that m(2) by (auto simp: list_all_iff)
    ultimately show ?thesis using assms(2) by (auto simp: process_message_def feed_shell_env_def)
  qed
  from process_sends [OF this assms(3,4)] obtain l' where
    "process_all (feed_shell_env A P) P ms a l = (True, [], a, l')" "wrote l (map ?f ms) l'" by blast
  moreover have "map ?f ms = map (\<lambda>p. Text_message (case p of Feed_info x \<Rightarrow> render_info A x | _ \<Rightarrow> [])) (map sm_payload ms)"
    by simp
  then have "map ?f ms = map (\<lambda>x. Text_message (render_info A x)) xs" unfolding m(1) by (simp add: comp_def)
  ultimately show ?thesis by auto
qed

end

section \<open>Properties\<close>

text \<open>A generator that counts: stock and price follow from the number of draws.\<close>

definition counting_dists :: "(int, nat) feed_env" where
  "counting_dists = \<lparr>char_dist = (\<lambda>g. (CHR ''A'', g + 1)), val_dist = (\<lambda>g. (int (g mod 7), g + 1)),
     index_dist = (\<lambda>g. (0, g + 1)), price = (\<lambda>n. n)\<rparr>"

lemma counting_dists_ok: "dists_ok counting_dists"
  by (auto simp: dists_ok_def counting_dists_def upper_case_def intro: order_trans [OF less_imp_le])

text \<open>
  C24: Whatever messages the feed actor receives, in whatever order: it never accesses a stock outside of
  its vector, it always has twenty stocks with symbols of five upper-case letters and prices within the
  range of the distribution, the highest price of a stock bounds its other prices, and exactly one update
  message to itself is pending for the next second.
\<close>

theorem feed_state_ok:
  assumes "dists_ok R"
  shows "\<exists>effs st. feed_run R es (fst (feed_impl R seed)) = Some (effs, st) \<and> feed_inv R st \<and>
    count_list (snd (feed_impl R seed) @ effs) Delayed_update = 1 + count_list es Update_atom"
proof -
  obtain effs st where "feed_run R es (fst (feed_impl R seed)) = Some (effs, st)" "feed_inv R st"
    "count_list effs Delayed_update = count_list es Update_atom"
    using feed_run_ok [OF assms feed_impl_inv [OF assms]] by blast
  then show ?thesis by (intro exI [of _ effs] exI [of _ st]) (simp add: feed_impl_def)
qed

theorem feed_state_ok_witness:
  "\<exists>effs st. feed_run counting_dists [Subscribe_atom (), Update_atom, Down_msg (), Update_atom] (fst (feed_impl counting_dists 3)) = Some (effs, st) \<and>
     feed_inv counting_dists st"
  using feed_state_ok [OF counting_dists_ok, of "[Subscribe_atom (), Update_atom, Down_msg (), Update_atom]" 3] by blast

text \<open>
  C33: After any sequence of messages, the highest price of a stock is the maximum of all prices it has
  ever had. The lowest price is not their minimum: because \<open>update\<close> compares the new price with the highest
  price instead of the lowest one, it is always the current price.
\<close>

theorem feed_low_is_current:
  assumes "dists_ok R" and "feed_run R es (fst (feed_impl R seed)) = Some (effs, st)" and "i < 20"
  shows "let x = fs_infos st ! i; prices = si_open x # feed_prices R i es (fst (feed_impl R seed))
    in si_high x = Max (set prices) \<and> si_current x = last prices \<and> si_low x = last prices"
proof -
  let ?x = "fst (fill_infos R 20 seed) ! i" and ?ps = "feed_prices R i es (fst (feed_impl R seed))"
  have len: "length (fst (fill_infos R 20 seed)) = 20" using fill_infos_ok [OF assms(1)] by blast
  then have "si_current ?x = si_open ?x" "si_high ?x = si_open ?x" "si_low ?x = si_open ?x"
    using fill_infos_constant [of R 20 seed] assms(3) by (auto simp: list_all_length)
  moreover have "fs_infos st ! i = reprice ?ps ?x" using feed_run_reprice [OF assms(2), of i] assms(3) len by simp
  ultimately show ?thesis by (simp add: Let_def reprice_fields Max.set_eq_fold del: list.set)
qed

theorem feed_low_is_current_witness:
  "\<exists>effs st. feed_run counting_dists [Update_atom, Update_atom] (fst (feed_impl counting_dists 0)) =
      Some (effs, st :: (int, unit, nat) random_feed_state) \<and>
     (let x = fs_infos st ! 0 in (si_open x, si_high x, si_current x, si_low x) = (5, 5, 4, 4))"
proof -
  have "\<exists>effs st. feed_run counting_dists [Update_atom, Update_atom] (fst (feed_impl counting_dists 0)) =
      Some (effs, st :: (int, unit, nat) random_feed_state)"
    using feed_run_ok [OF counting_dists_ok feed_impl_inv [OF counting_dists_ok]] by blast
  then obtain effs st where r: "feed_run counting_dists [Update_atom, Update_atom] (fst (feed_impl counting_dists 0)) =
      Some (effs, st :: (int, unit, nat) random_feed_state)" by blast
  have p: "feed_prices counting_dists 0 [Update_atom, Update_atom :: unit feed_event] (fst (feed_impl counting_dists 0)) = [2, 4]"
    by code_simp
  have "si_open (fst (fill_infos counting_dists 20 0) ! 0) = 5" and "length (fst (fill_infos counting_dists 20 0)) = 20"
    by code_simp+
  then have "si_open (fs_infos st ! 0) = 5"
    using feed_run_reprice [OF r, of 0] by (simp add: reprice_fields)
  moreover note feed_low_is_current [OF counting_dists_ok r, of 0, unfolded p Let_def]
  ultimately show ?thesis using r by (intro exI [of _ effs] exI [of _ st]) (simp add: Let_def)
qed

text \<open>
  C21: A client of the feed gets everything that is published while it is connected: after its subscription
  the actor sends it all stocks as they are and then the stock of every update, in order, and the
  application writes one text message for each of these infos, in the same order.
\<close>

theorem feed_reaches_client:
  assumes "mailbox_reads M content" and "me \<notin> set (fs_listeners st)"
    and "feed_run R (snd (feed_app_init M q me) # es) st = Some (effs, st')"
    and "Subscribe_atom me \<notin> set es" and "Down_msg me \<notin> set es"
    and "info_msgs A (infos_for me effs) (content q')"
    and "framing_ready l" and "mm_abort_reason (ws_ptr E self m nxt) l = None"
  shows "infos_for me effs = fs_infos st @ feed_updates R es (snd (on_subscribe me st)) \<and>
    (\<exists>a l'. feed_prepare_send A M (ws_ptr E self m nxt) ((fst (feed_app_init M q me))\<lparr>sh_mailbox := q'\<rparr>) l = Some (True, a, l') \<and>
      content (sh_mailbox a) = [] \<and>
      framing_wrote (make_stream_oriented_layer_ptr (manager_ptr E self m)) l
        (map (\<lambda>x. Text_message (render_info A x)) (infos_for me effs)) l')"
proof -
  let ?P = "ws_ptr E self m nxt" and ?L = "make_stream_oriented_layer_ptr (manager_ptr E self m)"
  let ?a = "(fst (feed_app_init M q me))\<lparr>sh_mailbox := q'\<rparr>" and ?st = "snd (on_subscribe me st)"
  obtain effs' where e: "feed_run R es ?st = Some (effs', st')" "effs = fst (on_subscribe me st) @ effs'"
    using assms(3) by (auto simp: feed_app_init_def split: prod.splits)
  have "count_list (fs_listeners ?st) me = 1" using assms(2) by (simp add: on_subscribe_def count_list_0_iff)
  from feed_run_infos [OF e(1) this assms(4,5)] have i: "infos_for me effs = fs_infos st @ feed_updates R es ?st"
    by (simp add: e(2) on_subscribe_def infos_for_map_listener)
  have "sh_bhvr ?a = Info_behavior" by (simp add: feed_app_init_def set_behavior_def)
  from ws.process_infos [OF assms(6) this assms(7,8)] obtain l' where
    p: "process_all (feed_shell_env A ?P) ?P (content q') ?a l = (True, [], ?a, l')"
      "framing_wrote ?L l (map (\<lambda>x. Text_message (render_info A x)) (infos_for me effs)) l'" by blast
  from app_prepare_send_spec [OF assms(1), of "feed_shell_env A ?P" ?P ?a l] p(1) obtain q'' where
    "app_prepare_send M (feed_shell_env A ?P) ?P ?a l = Some (True, ?a\<lparr>sh_mailbox := q''\<rparr>, l')" "content q'' = []" by auto
  then show ?thesis using p(2) i by (simp add: feed_prepare_send_def)
qed

definition sample_feed_app :: "int feed_app_env" where
  "sample_feed_app = \<lparr>fa_to_string = (\<lambda>v. [of_int v]), fa_context = (\<lambda>p. []), fa_unexpected = (\<lambda>p. p),
     fa_is_response = (\<lambda>i. i > 100), fa_is_request = (\<lambda>i. i \<le> 100)\<rparr>"

definition one_stock :: "(int, nat, nat) random_feed_state" where
  "one_stock = \<lparr>fs_infos = [\<lparr>si_symbol = ''ABCDE'', si_currency = ''USD'', si_current = 3, si_open = 3, si_high = 3, si_low = 3\<rparr>],
     fs_listeners = [4], fs_rng = 2\<rparr>"

abbreviation sample_feed_shell :: "((int feed_payload, nat) shell_msg list \<times> bool, feed_handler) actor_shell" where
  "sample_feed_shell \<equiv> fst (feed_app_init list_mailbox ([], False) (7 :: nat))"

theorem feed_reaches_client_witness:
  "\<exists>effs st' q' a l'. feed_run counting_dists [Subscribe_atom 7, Update_atom, Down_msg 4, Update_atom] one_stock = Some (effs, st') \<and>
     map sm_payload (fst q') = map Feed_info (infos_for 7 effs) \<and> map si_current (infos_for 7 effs) = [3, 3, 5] \<and>
     feed_prepare_send sample_feed_app list_mailbox (ws_ptr pipe_env 0 1 (\<lambda>g. (g, g))) (sample_feed_shell\<lparr>sh_mailbox := q'\<rparr>)
       sample_layers = Some (True, a, l') \<and>
     framing_wrote (make_stream_oriented_layer_ptr (manager_ptr pipe_env 0 1)) sample_layers
       (map (\<lambda>x. Text_message (render_info sample_feed_app x)) (infos_for 7 effs)) l'"
proof -
  let ?es = "[Update_atom, Down_msg 4, Update_atom] :: nat feed_event list"
  have "map_option (\<lambda>(effs, st'). map si_current (infos_for 7 effs)) (feed_run counting_dists (Subscribe_atom 7 # ?es) one_stock) = Some [3, 3, 5]"
    by code_simp
  then obtain effs st' where r: "feed_run counting_dists (Subscribe_atom 7 # ?es) one_stock = Some (effs, st')"
    and c: "map si_current (infos_for 7 effs) = [3, 3, 5]" by (auto simp: map_option_eq_Some simp del: feed_run.simps)
  let ?q = "(map (\<lambda>x. \<lparr>sm_mid = 0, sm_sender = None :: nat option, sm_payload = Feed_info x\<rparr>) (infos_for 7 effs), False)"
  have m: "info_msgs sample_feed_app (infos_for 7 effs) (fst ?q)"
    by (auto simp: info_msgs_def sample_feed_app_def list_all_iff comp_def)
  have n: "7 \<notin> set (fs_listeners one_stock)" by (simp add: one_stock_def)
  have "feed_run counting_dists (snd (feed_app_init list_mailbox ([] :: (int feed_payload, nat) shell_msg list, False) 7) # ?es) one_stock = Some (effs, st')"
    using r by (simp add: feed_app_init_def)
  from feed_reaches_client [OF list_mailbox_reads n this _ _ m sample_layers_ready, of "\<lambda>g. (g, g)"] obtain a l' where
    "feed_prepare_send sample_feed_app list_mailbox (ws_ptr pipe_env 0 1 (\<lambda>g. (g, g))) (sample_feed_shell\<lparr>sh_mailbox := ?q\<rparr>) sample_layers = Some (True, a, l')"
    "framing_wrote (make_stream_oriented_layer_ptr (manager_ptr pipe_env 0 1)) sample_layers (map (\<lambda>x. Text_message (render_info sample_feed_app x)) (infos_for 7 effs)) l'"
    by auto
  then show ?thesis
    using r c by (intro exI [of _ effs] exI [of _ st'] exI [of _ ?q] exI [of _ a] exI [of _ l'] conjI) (simp_all add: comp_def)
qed

end
