(* ===== verification/Servers.thy ===== *)
theory Servers
  imports WebSocket_Apps Middleman
begin

text \<open>
  The programs of the two servers: \<open>caf_main\<close> of \<open>web-socket-calculator.cpp\<close> and \<open>web-socket-feed.cpp\<close>,
  \<open>middleman::make_acceptor\<close> and the factory adapter of \<open>connection_acceptor.hpp\<close>. The world of the
  multiplexer is the kernel, so the acceptor's initialization is the composition of the parts modelled
  elsewhere: \<open>socket_manager_impl::init\<close>, \<open>connection_acceptor::init\<close> and the registration for reading.
\<close>

section \<open>Acceptors\<close>

text \<open>\<open>connection_acceptor_factory_adapter\<close>: a function object as a factory.\<close>

definition factory_adapter ::
  "(socket_id \<Rightarrow> 'c) \<Rightarrow> ('c \<Rightarrow> 'k \<Rightarrow> caf_error option \<times> 'c \<times> 'k) \<Rightarrow> (unit, 'c, 'k) acceptor_factory" where
  "factory_adapter f child_init =
     \<lparr>af_init = (\<lambda>u. (None, u)), af_make = (\<lambda>connected_socket u. (f connected_socket, u)), af_child_init = child_init,
      af_abort = (\<lambda>err u. u)\<rparr>"

text \<open>\<open>make_socket_manager\<close>: a manager with an empty mask at a fresh address.\<close>

definition make_socket_manager :: "mgr \<Rightarrow> socket_id \<Rightarrow> 'w multiplexer \<Rightarrow> 'w multiplexer" where
  "make_socket_manager m handle M =
     M\<lparr>store := (store M)(m := \<lparr>sm_handle = sint handle, sm_mask = op_none, sm_abort_reason = None\<rparr>)\<rparr>"

definition make_acceptor :: "'w mpx_env \<Rightarrow> nat \<Rightarrow> mgr \<Rightarrow> socket_id \<Rightarrow> 'w multiplexer \<Rightarrow> 'w multiplexer" where
  "make_acceptor E self m sock M = mpx_init_manager E self m (make_socket_manager m sock M)"

text \<open>The virtual function \<open>init\<close> of a manager whose protocol is a connection acceptor.\<close>

definition acceptor_manager_init ::
  "'k posix \<Rightarrow> ('f, 'c, 'k) acceptor_factory \<Rightarrow> 'f \<Rightarrow> 'k mpx_env \<Rightarrow> nat \<Rightarrow> socket_id \<Rightarrow> mgr \<Rightarrow> 'k multiplexer \<Rightarrow>
   'k multiplexer \<times> caf_error option" where
  "acceptor_manager_init P F f E self sock m M =
     (case nonblocking P sock True (world M) of
        (Inl err, k) \<Rightarrow> (M\<lparr>world := k\<rparr>, Some err)
      | (Inr _, k) \<Rightarrow>
          (case acceptor_init F f of
             (Some err, _) \<Rightarrow> (M\<lparr>world := k\<rparr>, Some err)
           | (None, register, _) \<Rightarrow>
               (if register then sm_register_reading E self m (M\<lparr>world := k\<rparr>) else M\<lparr>world := k\<rparr>, None)))"

section \<open>The programs\<close>

text \<open>
  \<open>port\<close> is the configured port, \<open>any\<close> the address \<open>ipv4_address{}\<close>; the second result is what is printed
  to the standard error output. Spawning the worker or the feed changes nothing that is modelled here.
\<close>

abbreviation (input) default_port :: u16 where "default_port \<equiv> 8080"

record ('k, 'a) server_env =
  se_posix :: "'k posix"
  se_ip :: "'a ip_ops"
  se_any :: 'a
  se_mpx :: "'k mpx_env"
  se_show_port :: "u16 \<Rightarrow> string"
  se_show_error :: "caf_error \<Rightarrow> string"

definition calculator_main ::
  "('k, 'a) server_env \<Rightarrow> nat \<Rightarrow> mgr \<Rightarrow> u16 option \<Rightarrow> 'k multiplexer \<Rightarrow> exit_code \<times> string \<times> 'k multiplexer" where
  "calculator_main S self m cfg_port M =
     (let port = (case cfg_port of Some p \<Rightarrow> p | None \<Rightarrow> default_port) in
      case make_tcp_accept_socket (se_posix S) (se_ip S) \<lparr>ep_address = se_any S, ep_port = port\<rparr> False (world M) of
        (Inl err, k) \<Rightarrow>
          (EXIT_FAILURE, ''*** unable to open port '' @ se_show_port S port @ '': '' @ se_show_error S err, M\<lparr>world := k\<rparr>)
      | (Inr sock, k) \<Rightarrow> (EXIT_SUCCESS, [], make_acceptor (se_mpx S) self m sock (M\<lparr>world := k\<rparr>)))"

definition feed_main ::
  "('k, 'a) server_env \<Rightarrow> nat \<Rightarrow> mgr \<Rightarrow> u16 option \<Rightarrow> 'k multiplexer \<Rightarrow> exit_code \<times> string \<times> 'k multiplexer" where
  "feed_main S self m cfg_port M =
     (let port = (case cfg_port of Some p \<Rightarrow> p | None \<Rightarrow> default_port) in
      case make_tcp_accept_socket (se_posix S) (se_ip S) \<lparr>ep_address = se_any S, ep_port = port\<rparr> False (world M) of
        (Inl err, k) \<Rightarrow>
          (EXIT_FAILURE, ''*** unable to open port '' @ se_show_port S port @ '': '' @ se_show_error S err, M\<lparr>world := k\<rparr>)
      | (Inr sock, k) \<Rightarrow> (EXIT_SUCCESS, [], make_acceptor (se_mpx S) self m sock (M\<lparr>world := k\<rparr>)))"

text \<open>Both programs differ in the application only.\<close>

lemma feed_main_same: "feed_main S self m cfg_port M = calculator_main S self m cfg_port M"
  by (simp add: feed_main_def calculator_main_def)

section \<open>What the programs do\<close>

lemma fresh_manager_inv:
  assumes "mpx_inv M" and "m \<notin> set (managers M)"
  shows "mpx_inv (make_socket_manager m sock M)"
proof -
  let ?M = "make_socket_manager m sock M"
  have "map (entry_of ?M) (managers M) = map (entry_of M) (managers M)"
    using assms(2) by (auto simp: entry_of_def make_socket_manager_def)
  moreover have "mask_of ?M x = mask_of M x" for x
    using mpx_inv_registered [OF assms(1), of m] assms(2) by (simp add: make_socket_manager_def)
  ultimately show ?thesis using assms(1) unfolding mpx_inv_def by (simp add: make_socket_manager_def)
qed

text \<open>
  A server whose port can be opened is registered: if the multiplexer runs in the same thread, the
  accept socket is in the pollset and its read events are requested.
\<close>

lemma server_registers:
  assumes "mpx_inv M" and "m \<notin> set (managers M)" and "\<not> shutting_down M" and "self = tid M"
    and "make_tcp_accept_socket (se_posix S) (se_ip S) \<lparr>ep_address = se_any S, ep_port = port\<rparr> False (world M) = (Inr sock, k)"
    and "nonblocking (se_posix S) sock True k = (Inr (), k')"
    and "manager_init (se_mpx S) m = acceptor_manager_init (se_posix S) (factory_adapter f ci) () (se_mpx S) self sock m"
    and "calculator_main S self m (Some port) M = (code, out, M')"
  shows "code = EXIT_SUCCESS \<and> mpx_inv M' \<and> world M' = k' \<and>
    (\<exists>i < length (managers M'). managers M' ! i = m \<and> fd (pollset M' ! i) = sint sock \<and> events (pollset M' ! i) = input_mask)"
proof -
  let ?M = "(make_socket_manager m sock M)\<lparr>world := k'\<rparr>"
  have inv: "mpx_inv ?M"
    using fresh_manager_inv [OF assms(1,2), of sock] mpx_inv_cong [of ?M "make_socket_manager m sock M"] by simp
  have r: "M' = sm_register_reading (se_mpx S) self m ?M" and c: "code = EXIT_SUCCESS"
    using assms(3-8)
    by (auto simp: calculator_main_def make_acceptor_def mpx_init_manager_def acceptor_manager_init_def factory_adapter_def
        acceptor_init_def make_socket_manager_def)
  have "mpx_inv M'"
    using inv register_op_inv [OF inv, of op_read input_mask]
    by (simp add: r sm_register_reading_def mpx_register_reading_def op_bits_def)
  moreover have "M' = add_mgr m (set_mask m op_read ?M)"
    using assms(3,4) by (simp add: r sm_register_reading_def mpx_register_reading_def register_op_def mask_add_def
        make_socket_manager_def)
  then have "world M' = k'" "managers M' = managers M @ [m]"
    "pollset M' = pollset M @ [\<lparr>fd = sint sock, events = input_mask, revents = 0\<rparr>]"
    by (simp_all add: add_mgr_def set_mask_def make_socket_manager_def to_bitmask_def)
  ultimately show ?thesis using c mpx_inv_length [OF assms(1)] by (auto simp: nth_append intro!: exI [of _ "length (managers M)"])
qed

end
