(* ===== verification/Windows_Sockets.thy ===== *)
theory Windows_Sockets
  imports Sockets
begin

text \<open>
  The code the sources select for Windows: \<open>socket.cpp\<close>, \<open>network_socket.cpp\<close>, \<open>stream_socket.cpp\<close>,
  \<open>pipe_socket.cpp\<close>, \<open>datagram_socket.cpp\<close>, \<open>udp_datagram_socket.cpp\<close>, \<open>host.cpp\<close> and \<open>for_each_adapter\<close>
  of \<open>ip.cpp\<close>. The Winsock functions are operations of an environment on the state \<open>'k\<close> of the system. A
  socket is a \<open>size_t\<close> of 64 bits, an \<open>unsigned long\<close> (\<open>DWORD\<close>, \<open>ULONG\<close>) has 32. Error codes of Winsock
  are the constructors of a datatype, since the sources only use their names.
\<close>

section \<open>Winsock\<close>

type_synonym win_socket = u64
type_synonym dword = u32

abbreviation (input) INVALID_SOCKET :: win_socket where "INVALID_SOCKET \<equiv> - 1"

text \<open>The codes \<open>last_socket_error\<close> recognizes; \<open>WSA_other\<close> is any other one.\<close>

datatype wsa_code =
    WSA_INVALID_HANDLE | WSA_NOT_ENOUGH_MEMORY | WSA_INVALID_PARAMETER | WSAEINTR | WSAEBADF | WSAEACCES
  | WSAEFAULT | WSAEINVAL | WSAEMFILE | WSAEWOULDBLOCK | WSAEINPROGRESS | WSAEALREADY | WSAENOTSOCK
  | WSAEDESTADDRREQ | WSAEMSGSIZE | WSAEPROTOTYPE | WSAENOPROTOOPT | WSAEPROTONOSUPPORT | WSAESOCKTNOSUPPORT
  | WSAEOPNOTSUPP | WSAEPFNOSUPPORT | WSAEAFNOSUPPORT | WSAEADDRINUSE | WSAEADDRNOTAVAIL | WSAENETDOWN
  | WSAENETUNREACH | WSAENETRESET | WSAECONNABORTED | WSAECONNRESET | WSAENOBUFS | WSAEISCONN | WSAENOTCONN
  | WSAESHUTDOWN | WSAETIMEDOUT | WSAECONNREFUSED | WSAELOOP | WSAENAMETOOLONG | WSAEHOSTUNREACH
  | WSAENOTEMPTY | WSANOTINITIALISED | WSAEDISCON | WSAENOMORE | WSAECANCELLED | WSATRY_AGAIN
  | WSANO_RECOVERY | WSA_other c_int

datatype errc =
    invalid_argument | not_enough_memory | interrupted | bad_file_descriptor | permission_denied
  | bad_address | too_many_files_open | operation_would_block | operation_in_progress
  | connection_already_in_progress | not_a_socket | destination_address_required | message_size
  | wrong_protocol_type | no_protocol_option | protocol_not_supported | operation_not_supported
  | address_family_not_supported | address_in_use | address_not_available | network_down
  | network_unreachable | network_reset | connection_aborted | connection_reset | no_buffer_space
  | already_connected | not_connected | broken_pipe | timed_out | connection_refused
  | too_many_symbolic_link_levels | filename_too_long | host_unreachable | directory_not_empty
  | operation_canceled | resource_unavailable_try_again | state_not_recoverable

text \<open>A \<open>WSABUF\<close>: the length the system uses and the memory it points to.\<close>

record wsabuf =
  wb_len :: dword
  wb_buf :: "byte list"

record 'k winsock =
  ws_WSAGetLastError :: "'k \<Rightarrow> wsa_code"
  ws_WSASetLastError :: "wsa_code \<Rightarrow> 'k \<Rightarrow> 'k"
  ws_FormatMessage :: "wsa_code \<Rightarrow> string option"
  ws_WSAStartup :: "'k \<Rightarrow> c_int \<times> 'k"
  ws_WSACleanup :: "'k \<Rightarrow> 'k"
  ws_socket :: "'k \<Rightarrow> win_socket \<times> 'k"
  ws_WSASocketW :: "'k \<Rightarrow> win_socket \<times> 'k"
  ws_closesocket :: "win_socket \<Rightarrow> 'k \<Rightarrow> 'k"
  ws_ioctlsocket :: "win_socket \<Rightarrow> dword \<Rightarrow> 'k \<Rightarrow> c_int \<times> 'k"
  ws_WSAIoctl :: "win_socket \<Rightarrow> bool \<Rightarrow> 'k \<Rightarrow> c_int \<times> 'k"
  ws_setsockopt :: "win_socket \<Rightarrow> sockopt \<Rightarrow> byte list \<Rightarrow> 'k \<Rightarrow> c_int \<times> 'k"
  ws_bind :: "win_socket \<Rightarrow> sockaddr \<Rightarrow> 'k \<Rightarrow> c_int \<times> 'k"
  ws_getsockname :: "win_socket \<Rightarrow> 'k \<Rightarrow> (c_int \<times> u16) \<times> 'k"
  ws_listen :: "win_socket \<Rightarrow> c_int \<Rightarrow> 'k \<Rightarrow> c_int \<times> 'k"
  ws_connect :: "win_socket \<Rightarrow> sockaddr \<Rightarrow> 'k \<Rightarrow> c_int \<times> 'k"
  ws_accept :: "win_socket \<Rightarrow> 'k \<Rightarrow> win_socket \<times> 'k"
  ws_shutdown :: "win_socket \<Rightarrow> c_int \<Rightarrow> 'k \<Rightarrow> 'k"
  ws_recv :: "win_socket \<Rightarrow> nat \<Rightarrow> 'k \<Rightarrow> (c_int \<times> byte list) \<times> 'k"
  ws_send :: "win_socket \<Rightarrow> byte list \<Rightarrow> 'k \<Rightarrow> c_int \<times> 'k"
  ws_WSASend :: "win_socket \<Rightarrow> wsabuf list \<Rightarrow> 'k \<Rightarrow> (c_int \<times> dword) \<times> 'k"
  ws_WSASendTo :: "win_socket \<Rightarrow> wsabuf list \<Rightarrow> sockaddr \<Rightarrow> 'k \<Rightarrow> (c_int \<times> dword) \<times> 'k"

section \<open>Errors and sockets (socket.cpp)\<close>

definition win_close :: "'k winsock \<Rightarrow> win_socket \<Rightarrow> 'k \<Rightarrow> 'k" where
  "win_close W fd k = ws_closesocket W fd k"

text \<open>An unknown code aborts the program: \<open>None\<close>.\<close>

fun errc_of_wsa :: "wsa_code \<Rightarrow> errc option" where
  "errc_of_wsa WSA_INVALID_HANDLE = Some invalid_argument"
| "errc_of_wsa WSA_NOT_ENOUGH_MEMORY = Some not_enough_memory"
| "errc_of_wsa WSA_INVALID_PARAMETER = Some invalid_argument"
| "errc_of_wsa WSAEINTR = Some interrupted"
| "errc_of_wsa WSAEBADF = Some bad_file_descriptor"
| "errc_of_wsa WSAEACCES = Some permission_denied"
| "errc_of_wsa WSAEFAULT = Some bad_address"
| "errc_of_wsa WSAEINVAL = Some invalid_argument"
| "errc_of_wsa WSAEMFILE = Some too_many_files_open"
| "errc_of_wsa WSAEWOULDBLOCK = Some operation_would_block"
| "errc_of_wsa WSAEINPROGRESS = Some operation_in_progress"
| "errc_of_wsa WSAEALREADY = Some connection_already_in_progress"
| "errc_of_wsa WSAENOTSOCK = Some not_a_socket"
| "errc_of_wsa WSAEDESTADDRREQ = Some destination_address_required"
| "errc_of_wsa WSAEMSGSIZE = Some message_size"
| "errc_of_wsa WSAEPROTOTYPE = Some wrong_protocol_type"
| "errc_of_wsa WSAENOPROTOOPT = Some no_protocol_option"
| "errc_of_wsa WSAEPROTONOSUPPORT = Some protocol_not_supported"
| "errc_of_wsa WSAESOCKTNOSUPPORT = Some invalid_argument"
| "errc_of_wsa WSAEOPNOTSUPP = Some operation_not_supported"
| "errc_of_wsa WSAEPFNOSUPPORT = Some invalid_argument"
| "errc_of_wsa WSAEAFNOSUPPORT = Some address_family_not_supported"
| "errc_of_wsa WSAEADDRINUSE = Some address_in_use"
| "errc_of_wsa WSAEADDRNOTAVAIL = Some address_not_available"
| "errc_of_wsa WSAENETDOWN = Some network_down"
| "errc_of_wsa WSAENETUNREACH = Some network_unreachable"
| "errc_of_wsa WSAENETRESET = Some network_reset"
| "errc_of_wsa WSAECONNABORTED = Some connection_aborted"
| "errc_of_wsa WSAECONNRESET = Some connection_reset"
| "errc_of_wsa WSAENOBUFS = Some no_buffer_space"
| "errc_of_wsa WSAEISCONN = Some already_connected"
| "errc_of_wsa WSAENOTCONN = Some not_connected"
| "errc_of_wsa WSAESHUTDOWN = Some broken_pipe"
| "errc_of_wsa WSAETIMEDOUT = Some timed_out"
| "errc_of_wsa WSAECONNREFUSED = Some connection_refused"
| "errc_of_wsa WSAELOOP = Some too_many_symbolic_link_levels"
| "errc_of_wsa WSAENAMETOOLONG = Some filename_too_long"
| "errc_of_wsa WSAEHOSTUNREACH = Some host_unreachable"
| "errc_of_wsa WSAENOTEMPTY = Some directory_not_empty"
| "errc_of_wsa WSANOTINITIALISED = Some network_down"
| "errc_of_wsa WSAEDISCON = Some already_connected"
| "errc_of_wsa WSAENOMORE = Some not_connected"
| "errc_of_wsa WSAECANCELLED = Some operation_canceled"
| "errc_of_wsa WSATRY_AGAIN = Some resource_unavailable_try_again"
| "errc_of_wsa WSANO_RECOVERY = Some state_not_recoverable"
| "errc_of_wsa (WSA_other c) = None"

definition win_last_socket_error :: "'k winsock \<Rightarrow> 'k \<Rightarrow> errc option" where
  "win_last_socket_error W k = errc_of_wsa (ws_WSAGetLastError W k)"

definition win_would_block :: "wsa_code \<Rightarrow> bool" where
  "win_would_block errcode \<longleftrightarrow> errcode = WSAEWOULDBLOCK \<or> errcode = WSATRY_AGAIN"

definition win_last_socket_error_is_temporary :: "'k winsock \<Rightarrow> 'k \<Rightarrow> bool" where
  "win_last_socket_error_is_temporary W k \<longleftrightarrow>
     ws_WSAGetLastError W k = WSAEWOULDBLOCK \<or> ws_WSAGetLastError W k = WSATRY_AGAIN"

definition win_last_socket_error_as_string :: "'k winsock \<Rightarrow> 'k \<Rightarrow> string" where
  "win_last_socket_error_as_string W k =
     (case ws_FormatMessage W (ws_WSAGetLastError W k) of None \<Rightarrow> [] | Some errorText \<Rightarrow> errorText)"

text \<open>\<open>CAF_NET_SYSCALL\<close> with the error text of this platform.\<close>

definition win_syscall ::
  "'k winsock \<Rightarrow> string \<Rightarrow> bool \<Rightarrow> 'k \<Rightarrow> ('k \<Rightarrow> ('k, 'a) sys) \<Rightarrow> ('k, 'a) sys" where
  "win_syscall W funname failed k rest =
     (if failed
      then (Inl (Sec_error sec_network_syscall_failed (funname @ '': '' @ win_last_socket_error_as_string W k)), k)
      else rest k)"

definition win_child_process_inherit :: "win_socket \<Rightarrow> bool \<Rightarrow> caf_error option" where
  "win_child_process_inherit x b =
     (if x = INVALID_SOCKET
      then Some (Sec_error sec_network_syscall_failed ''ioctlsocket: invalid socket'') else None)"

definition win_nonblocking :: "'k winsock \<Rightarrow> win_socket \<Rightarrow> bool \<Rightarrow> 'k \<Rightarrow> ('k, unit) sys" where
  "win_nonblocking W x new_value k =
     (let (res, k) = ws_ioctlsocket W x (if new_value then 1 else 0) k in
      win_syscall W ''ioctlsocket'' (res \<noteq> 0) k (\<lambda>k. (Inr (), k)))"

section \<open>Starting up (host.cpp)\<close>

definition win_startup :: "'k winsock \<Rightarrow> 'k \<Rightarrow> ('k, unit) sys" where
  "win_startup W k =
     (let (res, k) = ws_WSAStartup W k in win_syscall W ''WSAStartup'' (res \<noteq> 0) k (\<lambda>k. (Inr (), k)))"

definition win_cleanup :: "'k winsock \<Rightarrow> 'k \<Rightarrow> 'k" where
  "win_cleanup W k = ws_WSACleanup W k"

text \<open>Everywhere else, there is nothing to set up.\<close>

definition posix_startup :: "'k \<Rightarrow> ('k, unit) sys" where
  "posix_startup k = (Inr (), k)"

definition posix_cleanup :: "'k \<Rightarrow> 'k" where
  "posix_cleanup k = k"

section \<open>Network and stream sockets (network\_socket.cpp, stream\_socket.cpp)\<close>

definition win_allow_sigpipe :: "win_socket \<Rightarrow> bool \<Rightarrow> caf_error option" where
  "win_allow_sigpipe x b =
     (if x = INVALID_SOCKET
      then Some (Sec_error sec_network_syscall_failed ''setsockopt: invalid socket'') else None)"

definition win_allow_udp_connreset :: "'k winsock \<Rightarrow> win_socket \<Rightarrow> bool \<Rightarrow> 'k \<Rightarrow> ('k, unit) sys" where
  "win_allow_udp_connreset W x new_value k =
     (let (res, k) = ws_WSAIoctl W x new_value k in win_syscall W ''WSAIoctl'' (res \<noteq> 0) k (\<lambda>k. (Inr (), k)))"

definition win_shutdown_read :: "'k winsock \<Rightarrow> win_socket \<Rightarrow> 'k \<Rightarrow> 'k" where
  "win_shutdown_read W x k = ws_shutdown W x 0 k"

definition win_shutdown_write :: "'k winsock \<Rightarrow> win_socket \<Rightarrow> 'k \<Rightarrow> 'k" where
  "win_shutdown_write W x k = ws_shutdown W x 1 k"

text \<open>\<open>htonl(INADDR_LOOPBACK)\<close> with the given port, on a little-endian host\<close>

definition loopback :: "u16 \<Rightarrow> sockaddr" where
  "loopback port = Sockaddr_in port 0x0100007f"

text \<open>
  The first half of \<open>make_stream_socket_pair\<close>: the listener is bound to a port of the loopback
  interface. Of the address the system returns, only the port is used.
\<close>

definition pair_listen :: "'k winsock \<Rightarrow> win_socket \<Rightarrow> 'k \<Rightarrow> ('k, u16) sys" where
  "pair_listen W listener k =
     (let (tmp1, k) = ws_setsockopt W listener SO_REUSEADDR [1, 0, 0, 0] k in
      win_syscall W ''setsockopt'' (tmp1 \<noteq> 0) k (\<lambda>k.
        let (tmp2, k) = ws_bind W listener (loopback 0) k in
        win_syscall W ''bind'' (tmp2 \<noteq> 0) k (\<lambda>k.
          let ((tmp3, port), k) = ws_getsockname W listener k in
          win_syscall W ''getsockname'' (tmp3 \<noteq> 0) k (\<lambda>k.
            let (tmp5, k) = ws_listen W listener 1 k in
            win_syscall W ''listen'' (tmp5 \<noteq> 0) k (\<lambda>k. (Inr port, k))))))"

text \<open>The second half: a client socket connects to the listener.\<close>

definition pair_connect ::
  "'k winsock \<Rightarrow> win_socket \<Rightarrow> u16 \<Rightarrow> 'k \<Rightarrow> ('k, win_socket \<times> win_socket) sys" where
  "pair_connect W listener port k =
     (let (read_fd, k) = ws_WSASocketW W k in
      win_syscall W ''WSASocketW'' (read_fd = INVALID_SOCKET) k (\<lambda>k.
        let (tmp6, k) = ws_connect W read_fd (loopback port) k in
        win_syscall W ''connect'' (tmp6 \<noteq> 0) k (\<lambda>k.
          let (write_fd, k) = ws_accept W listener k in
          win_syscall W ''accept'' (write_fd = INVALID_SOCKET) k (\<lambda>k.
            (Inr (read_fd, write_fd), win_close W listener k)))))"

text \<open>
  The scope guard runs on every failure after the listener exists. It closes the listener and the
  two elements of \<open>socks\<close>, which are never assigned.
\<close>

definition pair_guard :: "'k winsock \<Rightarrow> win_socket \<Rightarrow> win_socket \<times> win_socket \<Rightarrow> 'k \<Rightarrow> 'k" where
  "pair_guard W listener socks k =
     ws_WSASetLastError W (ws_WSAGetLastError W k)
       (win_close W (snd socks) (win_close W (fst socks) (win_close W listener k)))"

definition win_make_stream_socket_pair :: "'k winsock \<Rightarrow> 'k \<Rightarrow> ('k, win_socket \<times> win_socket) sys" where
  "win_make_stream_socket_pair W k =
     (let socks = (INVALID_SOCKET, INVALID_SOCKET);
          (listener, k) = ws_socket W k in
      win_syscall W ''socket'' (listener = INVALID_SOCKET) k (\<lambda>k.
        case pair_listen W listener k of
          (Inl err, k) \<Rightarrow> (Inl err, pair_guard W listener socks k)
        | (Inr port, k) \<Rightarrow>
            (case pair_connect W listener port k of
               (Inl err, k) \<Rightarrow> (Inl err, pair_guard W listener socks k)
             | (Inr fds, k) \<Rightarrow> (Inr fds, k))))"

definition win_keepalive :: "'k winsock \<Rightarrow> win_socket \<Rightarrow> bool \<Rightarrow> 'k \<Rightarrow> ('k, unit) sys" where
  "win_keepalive W x new_value k =
     (let (res, k) = ws_setsockopt W x SO_KEEPALIVE [if new_value then 1 else 0] k in
      win_syscall W ''setsockopt'' (res \<noteq> 0) k (\<lambda>k. (Inr (), k)))"

text \<open>Results of type \<open>ptrdiff_t\<close> are 64-bit words; the result of \<open>recv\<close> and \<open>send\<close> is an \<open>int\<close>.\<close>

definition win_stream_read :: "'k winsock \<Rightarrow> win_socket \<Rightarrow> nat \<Rightarrow> 'k \<Rightarrow> (u64 \<times> byte list) \<times> 'k" where
  "win_stream_read W x buf_size k =
     (let ((res, bytes), k) = ws_recv W x buf_size k in ((scast res, bytes), k))"

definition win_stream_write :: "'k winsock \<Rightarrow> win_socket \<Rightarrow> byte list \<Rightarrow> 'k \<Rightarrow> u64 \<times> 'k" where
  "win_stream_write W x buf k = (let (res, k) = ws_send W x buf k in (scast res, k))"

text \<open>\<open>static_cast<ULONG>\<close> keeps the low 32 bits of a size.\<close>

definition to_wsabuf :: "byte list \<Rightarrow> wsabuf" where
  "to_wsabuf buf = \<lparr>wb_len = word_of_nat (length buf), wb_buf = buf\<rparr>"

text \<open>
  More than nine buffers violate the assertion: \<open>None\<close>. The operands of the conditional operator
  are a \<open>DWORD\<close> and the \<open>int\<close> \<open>-1\<close>, so the result is a \<open>DWORD\<close> before it becomes a \<open>ptrdiff_t\<close>.
\<close>

definition win_stream_writev :: "'k winsock \<Rightarrow> win_socket \<Rightarrow> byte list list \<Rightarrow> 'k \<Rightarrow> (u64 \<times> 'k) option" where
  "win_stream_writev W x bufs k =
     (if length bufs < 10 then
        let ((res, bytes_sent), k) = ws_WSASend W x (map to_wsabuf bufs) k
        in Some (ucast (if res = 0 then bytes_sent else - 1), k)
      else None)"

section \<open>Pipes (pipe\_socket.cpp)\<close>

definition win_make_pipe :: "'k winsock \<Rightarrow> 'k \<Rightarrow> ('k, win_socket \<times> win_socket) sys" where
  "win_make_pipe W k =
     (case win_make_stream_socket_pair W k of
        (Inr (a, b), k) \<Rightarrow> (Inr (a, b), win_shutdown_read W b (win_shutdown_write W a k))
      | (Inl err, k) \<Rightarrow> (Inl err, k))"

definition win_pipe_write :: "'k winsock \<Rightarrow> win_socket \<Rightarrow> byte list \<Rightarrow> 'k \<Rightarrow> u64 \<times> 'k" where
  "win_pipe_write W x buf k = win_stream_write W x buf k"

definition win_pipe_read :: "'k winsock \<Rightarrow> win_socket \<Rightarrow> nat \<Rightarrow> 'k \<Rightarrow> (u64 \<times> byte list) \<times> 'k" where
  "win_pipe_read W x buf_size k = win_stream_read W x buf_size k"

section \<open>Datagram sockets (datagram\_socket.cpp, udp\_datagram\_socket.cpp)\<close>

definition win_allow_connreset :: "'k winsock \<Rightarrow> win_socket \<Rightarrow> bool \<Rightarrow> 'k \<Rightarrow> ('k, unit) sys" where
  "win_allow_connreset W x new_value k =
     (let (res, k) = ws_WSAIoctl W x new_value k in win_syscall W ''WSAIoctl'' (res \<noteq> 0) k (\<lambda>k. (Inr (), k)))"

definition win_udp_allow_connreset :: "'k winsock \<Rightarrow> win_socket \<Rightarrow> bool \<Rightarrow> 'k \<Rightarrow> ('k, unit) sys" where
  "win_udp_allow_connreset W x new_value k =
     (let (res, k) = ws_WSAIoctl W x new_value k in win_syscall W ''WSAIoctl'' (res \<noteq> 0) k (\<lambda>k. (Inr (), k)))"

text \<open>\<open>None\<close> if the error code is unknown and the program aborts.\<close>

definition win_io_error :: "'k winsock \<Rightarrow> 'k \<Rightarrow> sec option" where
  "win_io_error W k =
     (case win_last_socket_error W k of
        None \<Rightarrow> None
      | Some code \<Rightarrow>
          Some (if code = operation_would_block \<or> code = resource_unavailable_try_again
                then sec_unavailable_or_would_block else sec_socket_operation_failed))"

definition win_check_io_res :: "'k winsock \<Rightarrow> int \<Rightarrow> 'k \<Rightarrow> (sec + nat) option" where
  "win_check_io_res W res k =
     (if res < 0 then map_option Inl (win_io_error W k) else Some (Inr (nat res)))"

definition win_udp_write ::
  "'k winsock \<Rightarrow> 'a ip_ops \<Rightarrow> win_socket \<Rightarrow> byte list list \<Rightarrow> 'a ip_endpoint \<Rightarrow> 'k \<Rightarrow> ((sec + nat) option \<times> 'k) option" where
  "win_udp_write W A x bufs ep k =
     (if length bufs < 10 then
        let ((res, bytes_sent), k) = ws_WSASendTo W x (map to_wsabuf bufs) (convert_endpoint A ep) k
        in Some (if res \<noteq> 0 then map_option Inl (win_io_error W k) else Some (Inr (unat bytes_sent)), k)
      else None)"

section \<open>Network adapters (ip.cpp)\<close>

text \<open>
  The two calls of \<open>GetAdaptersAddresses\<close>: the first must fail with \<open>ERROR_BUFFER_OVERFLOW\<close> and then yields
  the length of the buffer, the second returns the adapters with their names and addresses.
\<close>

record win_ip =
  adapters_len :: "nat option"
  malloc_ok :: "nat \<Rightarrow> bool"
  get_adapters :: "nat \<Rightarrow> (string \<times> sockaddr list) list option"
  getnameinfo :: "sockaddr \<Rightarrow> string option"

text \<open>The buffer is cleared before \<open>getnameinfo\<close>, whose result is ignored.\<close>

fun win_address_calls ::
  "'a ip_ops \<Rightarrow> win_ip \<Rightarrow> bool \<Rightarrow> string \<Rightarrow> sockaddr list \<Rightarrow> (string \<times> 'a) list" where
  "win_address_calls A S is_link_local name [] = []"
| "win_address_calls A S is_link_local name (addr # rest) =
     (let ip_buf = (case getnameinfo S addr of None \<Rightarrow> [] | Some s \<Rightarrow> s) in
      if \<not> is_link_local \<and> is_prefix_of ''fe80:'' ip_buf then win_address_calls A S is_link_local name rest
      else
        case parse_ip A ip_buf of
          None \<Rightarrow> win_address_calls A S is_link_local name rest
        | Some ip \<Rightarrow> (name, ip) # win_address_calls A S is_link_local name rest)"

fun win_adapter_calls :: "'a ip_ops \<Rightarrow> win_ip \<Rightarrow> bool \<Rightarrow> (string \<times> sockaddr list) list \<Rightarrow> (string \<times> 'a) list" where
  "win_adapter_calls A S is_link_local [] = []"
| "win_adapter_calls A S is_link_local ((name, addrs) # rest) =
     win_address_calls A S is_link_local name addrs @ win_adapter_calls A S is_link_local rest"

definition win_for_each_adapter :: "'a ip_ops \<Rightarrow> win_ip \<Rightarrow> bool \<Rightarrow> (string \<times> 'a) list" where
  "win_for_each_adapter A S is_link_local =
     (case adapters_len S of
        None \<Rightarrow> []
      | Some len \<Rightarrow>
          if \<not> malloc_ok S len then []
          else case get_adapters S len of None \<Rightarrow> [] | Some l \<Rightarrow> win_adapter_calls A S is_link_local l)"

section \<open>Properties\<close>

text \<open>
  The two ways to ask for a temporary error agree, and so do the results of datagram operations: they
  report \<open>unavailable_or_would_block\<close> exactly for the temporary errors, and only a code without a
  counterpart ends the program.
\<close>

lemma errc_of_wsa_temporary:
  "errc_of_wsa c = Some operation_would_block \<longleftrightarrow> c = WSAEWOULDBLOCK"
  "errc_of_wsa c = Some resource_unavailable_try_again \<longleftrightarrow> c = WSATRY_AGAIN"
  by (cases c; simp)+

lemma errc_of_wsa_None: "errc_of_wsa c = None \<longleftrightarrow> (\<exists>n. c = WSA_other n)"
  by (cases c) simp_all

lemma win_io_error_temporary:
  "win_io_error W k = Some sec_unavailable_or_would_block \<longleftrightarrow> win_last_socket_error_is_temporary W k"
  "win_io_error W k = None \<longleftrightarrow> (\<exists>n. ws_WSAGetLastError W k = WSA_other n)"
  using errc_of_wsa_temporary [of "ws_WSAGetLastError W k"] errc_of_wsa_None [of "ws_WSAGetLastError W k"]
  by (auto simp: win_io_error_def win_last_socket_error_def win_last_socket_error_is_temporary_def
      split: option.splits)

lemma win_would_block_temporary:
  "win_last_socket_error_is_temporary W k \<longleftrightarrow> win_would_block (ws_WSAGetLastError W k)"
  by (simp add: win_last_socket_error_is_temporary_def win_would_block_def)

text \<open>
  A gathering write hands all bytes over as long as every buffer is shorter than 4 GiB; from a longer
  buffer, only the length modulo \<open>2 ^ 32\<close> is sent.
\<close>

lemma to_wsabuf_len: "unat (wb_len (to_wsabuf buf)) = length buf mod 2 ^ 32"
  by (simp add: to_wsabuf_def unat_of_nat)

lemma to_wsabuf_complete:
  "length buf < 2 ^ 32 \<Longrightarrow> take (unat (wb_len (to_wsabuf buf))) (wb_buf (to_wsabuf buf)) = buf"
  by (simp only: to_wsabuf_len mod_less) (simp add: to_wsabuf_def)

text \<open>
  A gathering write on a stream socket cannot report an error: whatever \<open>WSASend\<close> does, the result is
  not negative, and a failure looks like a write of \<open>2 ^ 32 - 1\<close> bytes. The write of a single buffer
  keeps the sign.
\<close>

lemma win_writev_hides_errors:
  assumes "length bufs < 10" and "ws_WSASend W x (map to_wsabuf bufs) k = ((res, sent), k')"
  obtains r where "win_stream_writev W x bufs k = Some (r, k')" and "0 \<le> sint r"
    and "res \<noteq> 0 \<Longrightarrow> uint r = 2 ^ 32 - 1" and "res = 0 \<Longrightarrow> uint r = uint sent"
proof
  let ?r = "ucast (if res = 0 then sent else - 1 :: dword) :: u64"
  show "win_stream_writev W x bufs k = Some (?r, k')" using assms by (simp add: win_stream_writev_def)
  show "0 \<le> sint ?r" by (auto simp: sint_uint signed_take_bit_eq_if_positive bit_uint_iff bit_ucast_iff dest: bit_imp_le_length)
  show "uint ?r = 2 ^ 32 - 1" if "res \<noteq> 0" using that by (simp add: uint_up_ucast is_up unsigned_minus_1_eq_mask mask_eq_exp_minus_1)
  show "uint ?r = uint sent" if "res = 0" using that by (simp add: uint_up_ucast is_up)
qed

lemma win_write_keeps_sign: "ws_send W x buf k = (res, k') \<Longrightarrow> sint (fst (win_stream_write W x buf k)) = sint res"
  by (simp add: win_stream_write_def sint_up_scast is_up)

text \<open>
  What the calls do to the set of open sockets: \<open>socket\<close>, \<open>WSASocketW\<close> and \<open>accept\<close> open a new one or fail,
  \<open>closesocket\<close> closes one, the others leave the set alone. \<open>INVALID_SOCKET\<close> is never open.
\<close>

definition new_socket :: "('k \<Rightarrow> win_socket set) \<Rightarrow> 'k \<Rightarrow> win_socket \<times> 'k \<Rightarrow> bool" where
  "new_socket fds k r \<longleftrightarrow>
     (if fst r = INVALID_SOCKET then fds (snd r) = fds k
      else fst r \<notin> fds k \<and> fds (snd r) = insert (fst r) (fds k))"

definition winsock_ok :: "'k winsock \<Rightarrow> ('k \<Rightarrow> win_socket set) \<Rightarrow> bool" where
  "winsock_ok W fds \<longleftrightarrow>
     (\<forall>k. INVALID_SOCKET \<notin> fds k) \<and>
     (\<forall>k. new_socket fds k (ws_socket W k)) \<and>
     (\<forall>k. new_socket fds k (ws_WSASocketW W k)) \<and>
     (\<forall>x k. new_socket fds k (ws_accept W x k)) \<and>
     (\<forall>x k. fds (ws_closesocket W x k) = fds k - {x}) \<and>
     (\<forall>e k. fds (ws_WSASetLastError W e k) = fds k) \<and>
     (\<forall>x opt v k. fds (snd (ws_setsockopt W x opt v k)) = fds k) \<and>
     (\<forall>x sa k. fds (snd (ws_bind W x sa k)) = fds k) \<and>
     (\<forall>x k. fds (snd (ws_getsockname W x k)) = fds k) \<and>
     (\<forall>x n k. fds (snd (ws_listen W x n k)) = fds k) \<and>
     (\<forall>x sa k. fds (snd (ws_connect W x sa k)) = fds k) \<and>
     (\<forall>x how k. fds (ws_shutdown W x how k) = fds k)"

lemma winsock_new:
  assumes "winsock_ok W fds"
  shows "ws_socket W k = r \<Longrightarrow> new_socket fds k r" "ws_WSASocketW W k = r \<Longrightarrow> new_socket fds k r"
    "ws_accept W x k = r \<Longrightarrow> new_socket fds k r"
  using assms by (auto simp: winsock_ok_def)

lemma winsock_keeps:
  assumes "winsock_ok W fds"
  shows "ws_setsockopt W x opt v k = (r, k') \<Longrightarrow> fds k' = fds k" "ws_bind W x sa k = (r, k') \<Longrightarrow> fds k' = fds k"
    "ws_getsockname W x k = (p, k') \<Longrightarrow> fds k' = fds k" "ws_listen W x n k = (r, k') \<Longrightarrow> fds k' = fds k"
    "ws_connect W x sa k = (r, k') \<Longrightarrow> fds k' = fds k"
  using assms unfolding winsock_ok_def by (metis snd_conv)+

lemma pair_guard_fds:
  assumes "winsock_ok W fds"
  shows "fds (pair_guard W l (INVALID_SOCKET, INVALID_SOCKET) k) = fds k - {l}"
  using assms by (auto simp: winsock_ok_def pair_guard_def win_close_def)

lemma pair_listen_fds:
  assumes "winsock_ok W fds" and "pair_listen W l k = (r, k')"
  shows "fds k' = fds k"
  using assms(2) winsock_keeps [OF assms(1)]
  by (auto simp: pair_listen_def win_syscall_def Let_def split: prod.splits if_splits)

text \<open>The second half leaves the new socket open if \<open>connect\<close> or \<open>accept\<close> fail.\<close>

lemma pair_connect_fds:
  assumes ok: "winsock_ok W fds" and l: "l \<in> fds k" and r: "pair_connect W l port k = (r, k')"
  shows "case r of
      Inl _ \<Rightarrow> fds k' = fds k \<or> (\<exists>fd. fd \<notin> fds k \<and> fds k' = insert fd (fds k))
    | Inr (a, b) \<Rightarrow> a \<noteq> b \<and> a \<notin> fds k \<and> b \<notin> fds k \<and> fds k' = {a, b} \<union> (fds k - {l})"
proof -
  obtain fd k1 where s: "ws_WSASocketW W k = (fd, k1)" by fastforce
  obtain c k2 where c: "ws_connect W fd (loopback port) k1 = (c, k2)" by fastforce
  obtain b k3 where a: "ws_accept W l k2 = (b, k3)" by fastforce
  have cl: "fds (ws_closesocket W l k3) = fds k3 - {l}" using ok by (simp add: winsock_ok_def)
  have new: "new_socket fds k (fd, k1)" "fds k2 = fds k1" "new_socket fds k2 (b, k3)"
    using winsock_new(2) [OF ok s] winsock_keeps(5) [OF ok c] winsock_new(3) [OF ok a] .
  show ?thesis using r l new cl
    by (cases "fd = INVALID_SOCKET"; cases "c = 0"; cases "b = INVALID_SOCKET")
      (auto simp: pair_connect_def s c a win_syscall_def win_close_def new_socket_def)
qed

text \<open>
  \<open>make_stream_socket_pair\<close> opens exactly the two sockets it returns. If it fails, it may leave one socket
  open.
\<close>

lemma win_socket_pair_outcomes:
  assumes ok: "winsock_ok W fds" and r: "win_make_stream_socket_pair W k = (r, k')"
  shows "case r of
      Inl _ \<Rightarrow> fds k' = fds k \<or> (\<exists>fd. fd \<notin> fds k \<and> fds k' = insert fd (fds k))
    | Inr (a, b) \<Rightarrow> a \<noteq> b \<and> a \<notin> fds k \<and> b \<notin> fds k \<and> fds k' = {a, b} \<union> fds k"
proof -
  obtain l k1 where s: "ws_socket W k = (l, k1)" by fastforce
  have new: "new_socket fds k (l, k1)" using winsock_new(1) [OF ok s] .
  obtain p k2 where p: "pair_listen W l k1 = (p, k2)" by fastforce
  have k2: "fds k2 = fds k1" using pair_listen_fds [OF ok p] .
  note guard = pair_guard_fds [OF ok, of l]
  show ?thesis
  proof (cases "l = INVALID_SOCKET")
    case True
    then show ?thesis using r new by (auto simp: win_make_stream_socket_pair_def s win_syscall_def new_socket_def)
  next
    case l: False
    then have new: "l \<notin> fds k" "fds k1 = insert l (fds k)" using new by (simp_all add: new_socket_def)
    show ?thesis
    proof (cases p)
      case (Inl e)
      then show ?thesis
        using r l new k2 guard [of k2] by (auto simp: win_make_stream_socket_pair_def s p win_syscall_def)
    next
      case (Inr port)
      obtain q k3 where q: "pair_connect W l port k2 = (q, k3)" by fastforce
      have "case q of
          Inl _ \<Rightarrow> fds k3 = fds k2 \<or> (\<exists>fd. fd \<notin> fds k2 \<and> fds k3 = insert fd (fds k2))
        | Inr (a, b) \<Rightarrow> a \<noteq> b \<and> a \<notin> fds k2 \<and> b \<notin> fds k2 \<and> fds k3 = {a, b} \<union> (fds k2 - {l})"
        using pair_connect_fds [OF ok _ q] new k2 by simp
      then show ?thesis using r l new k2 guard [of k3] Inr
        by (cases q) (auto simp: win_make_stream_socket_pair_def s p q win_syscall_def)
    qed
  qed
qed

text \<open>
  It does so whenever \<open>connect\<close> fails: the read end has been created, but the guard does not know it.
\<close>

lemma win_socket_pair_leaks:
  assumes ok: "winsock_ok W fds"
    and l: "ws_socket W k = (l, k1)" "l \<noteq> INVALID_SOCKET" and p: "pair_listen W l k1 = (Inr port, k2)"
    and s: "ws_WSASocketW W k2 = (fd, k3)" "fd \<noteq> INVALID_SOCKET"
    and c: "ws_connect W fd (loopback port) k3 = (res, k4)" "res \<noteq> 0"
  obtains err k' where "win_make_stream_socket_pair W k = (Inl err, k')" and "fd \<notin> fds k"
    and "fds k' = insert fd (fds k)"
proof
  let ?err = "Sec_error sec_network_syscall_failed (''connect'' @ '': '' @ win_last_socket_error_as_string W k4)"
  have new: "l \<notin> fds k" "fds k1 = insert l (fds k)" "fd \<notin> fds k2" "fds k3 = insert fd (fds k2)"
    using winsock_new(1) [OF ok l(1)] winsock_new(2) [OF ok s(1)] l s by (simp_all add: new_socket_def)
  have same: "fds k2 = fds k1" "fds k4 = fds k3"
    using pair_listen_fds [OF ok p] winsock_keeps(5) [OF ok c(1)] .
  show "win_make_stream_socket_pair W k = (Inl ?err, pair_guard W l (INVALID_SOCKET, INVALID_SOCKET) k4)"
    using l p s c by (simp add: win_make_stream_socket_pair_def pair_connect_def win_syscall_def)
  show "fd \<notin> fds k" using new same by simp
  show "fds (pair_guard W l (INVALID_SOCKET, INVALID_SOCKET) k4) = insert fd (fds k)"
    using new same by (auto simp: pair_guard_fds [OF ok])
qed

text \<open>
  Both implementations of \<open>for_each_adapter\<close> visit the same adapters and addresses in the same order, if the
  systems list them in the same order and print them in the same way.
\<close>

definition prints_alike :: "win_ip \<Rightarrow> ip_sys \<Rightarrow> sockaddr \<Rightarrow> bool" where
  "prints_alike S T addr \<longleftrightarrow> getnameinfo S addr \<noteq> None \<and> getnameinfo S addr = fetch_addr_str T (Some addr)"

definition flat_adapters :: "(string \<times> sockaddr list) list \<Rightarrow> (string \<times> sockaddr option) list" where
  "flat_adapters l = concat (map (\<lambda>(name, addrs). map (\<lambda>addr. (name, Some addr)) addrs) l)"

lemma win_address_calls_append:
  "list_all (prints_alike S T) addrs \<Longrightarrow>
   win_address_calls A S ll name addrs @ adapter_calls A T ll rest =
   adapter_calls A T ll (map (\<lambda>addr. (name, Some addr)) addrs @ rest)"
proof (induction addrs)
  case (Cons addr addrs)
  then obtain s where "getnameinfo S addr = Some s" "fetch_addr_str T (Some addr) = Some s"
    by (auto simp: prints_alike_def)
  then show ?case using Cons by (cases "parse_ip A s") auto
qed simp

lemma win_for_each_adapter_posix:
  assumes "adapters_len S = Some len" "malloc_ok S len" "get_adapters S len = Some l"
    and "getifaddrs T = Some (flat_adapters l)"
    and "list_all (\<lambda>(name, addrs). list_all (prints_alike S T) addrs) l"
  shows "win_for_each_adapter A S ll = for_each_adapter A T ll"
proof -
  have "win_adapter_calls A S ll l = adapter_calls A T ll (flat_adapters l)"
    using assms(5)
  proof (induction l)
    case (Cons x l)
    obtain name addrs where "x = (name, addrs)" by (cases x)
    then show ?case using Cons by (simp add: flat_adapters_def win_address_calls_append)
  qed (simp add: flat_adapters_def)
  then show ?thesis using assms(1-4) by (simp add: win_for_each_adapter_def for_each_adapter_def)
qed

end
