(* ===== verification/Spec2Isabelle.thy ===== *)
theory Spec2Isabelle
  imports WebSocket_Endpoint Length_Prefix Pollset_Updater Basp_Application Datagram_Endpoint Remoting Enum_Strings Building_Blocks
    Segmented_Sessions Feed Servers Windows_Sockets
begin

text \<open>
  Verification of the CAF incubator: the networking library \<open>libcaf_net\<close>, the building blocks of
  \<open>libcaf_bb\<close>, the generator for enumeration strings and the programs under \<open>examples/net\<close>. All paths are relative to \<open>src/\<close>; for
  \<open>libcaf_net\<close> they start below \<open>libcaf_net/\<close>.

  \<^bold>\<open>The program.\<close> A multiplexer polls sockets and calls the event handlers of socket managers. A manager
  owns a stack of layers: a transport reads and writes the socket, framing layers cut its byte stream into
  messages, an application is on top. Every layer reaches the one below through a pointer type
  (\<open>stream_oriented_layer_ptr\<close> and others). BASP, the binary actor system protocol, is an application that
  connects actor systems; its workers deserialize messages in parallel and a message queue restores their
  order. The older endpoint managers feed datagram transports from an inbox, actor shells turn a manager
  into an actor, the middleman and its backends open connections. The examples are WebSocket applications
  with an actor shell: a calculator, a stock feed and an interactive client.

  \<^bold>\<open>How code becomes definitions.\<close> A class is a record, a member function is a definition on it that
  returns the new state, an early return is a branch, an error is \<open>caf_error\<close> in an option or a sum.
  Template parameters and virtual functions are records of operations. What belongs to the CAF core library
  (serializers, registries, mailboxes, settings, URIs) or to the operating system (sockets, poll, random
  numbers) is an argument, and what the code relies on is a named predicate or locale on it, with an
  instance that satisfies it. Integers keep their width where it matters (\<open>u8\<close> to \<open>u64\<close>).
  Byte buffers are lists; accesses outside of the read buffer of the transport are an explicit outcome.
  Loops are recursive functions; loops whose end depends on the environment are partial functions into
  option, and theorems then state that they return. No fuel is used.

  \<^bold>\<open>Theories, in the order of their imports.\<close>

  \<^item> \<open>Net_Prelude\<close>: word types, network byte order with its round trips, generic lemmas.
  \<^item> \<open>Net_Enums\<close>: \<open>operation\<close>, \<open>ec\<close>, \<open>connection_state\<close>, \<open>message_type\<close> with the generated string
    conversions (\<open>src/net/operation_strings.cpp\<close>, \<open>src/net/basp/*_strings.cpp\<close>) and errors.
  \<^item> \<open>Message_Queue\<close> (\<open>src/message_queue.cpp\<close>): the queue as an instance of the interface
    \<open>ordered_queue\<close>; runs of threads that draw IDs and push in any order (C1, C2).
  \<^item> \<open>RFC6455\<close> (\<open>src/detail/rfc6455.cpp\<close>): masking, assembling and decoding of frames; decoding undoes
    assembling, and bytes behind a complete header do not matter.
  \<^item> \<open>Layers\<close>: \<open>receive_policy\<close>, the layer pointers and the interface \<open>stream_lower\<close> that every layer on a
    stream relies on.
  \<^item> \<open>Stream_Transport\<close> (\<open>caf/net/stream_transport.hpp\<close>): all callbacks; the interface \<open>io_parent\<close> and the
    proof that the transport offers \<open>stream_lower\<close>; no byte is lost in either direction (C3, C4).
  \<^item> \<open>WebSocket_Framing\<close> (\<open>caf/net/web_socket/framing.hpp\<close>), \<open>Handshake\<close>
    (\<open>src/net/web_socket/handshake.cpp\<close>), \<open>WebSocket_Endpoint\<close> (\<open>server.hpp\<close>, \<open>client.hpp\<close>): frames,
    HTTP messages and both endpoints; client and server agree on the opening handshake (C5).
  \<^item> \<open>Length_Prefix\<close> (\<open>caf/net/length_prefix_framing.hpp\<close>): length-prefixed messages.
  \<^item> \<open>Framed_Streams\<close>: both framing layers on the stream transport. A layer that offers the interface
    \<open>chunked_consumer\<close> ends in the state after one call of \<open>consume\<close>, in whatever segments its input arrives, and a
    peer that sends acceptable input is never disconnected. The interface gives \<open>stream_consumer\<close>, what the
    transport relies on. \<open>Server_Streams\<close>: the server layer, which reads the request before it hands the stream to
    such a layer, is one itself.
  \<^item> \<open>Multiplexer\<close>, \<open>Multiplexer_Inv\<close>, \<open>Pollset_Updater\<close> (\<open>src/multiplexer.cpp\<close>,
    \<open>src/socket_manager.cpp\<close>, \<open>src/pollset_updater.cpp\<close>): managers in a store, the pollset, requests of other
    threads through a pipe; managers are an instance of \<open>io_parent\<close>; the pollset mirrors the masks of the
    managers, registration, shutdown and requests have their effects (C6 to C9).
  \<^item> \<open>Basp_Header\<close>, \<open>Basp_Worker\<close>, \<open>Basp_Application\<close> (\<open>src/header.cpp\<close>, \<open>src/worker.cpp\<close>,
    \<open>caf/net/basp/remote_message_handler.hpp\<close>, \<open>src/net/basp/application.cpp\<close>): the protocol, with step
    relations for workers and for the application; ordered delivery, the packets of a stream, the handshake,
    resolving of paths and actor messages (C10 to C16).
  \<^item> \<open>Ip\<close> (\<open>src/ip.cpp\<close>, \<open>src/convert_ip_endpoint.cpp\<close>) and \<open>Sockets\<close> (\<open>src/socket.cpp\<close>,
    \<open>src/*_socket.cpp\<close>): addresses, name resolution and the socket functions over system calls; conversions
    are inverse, descriptors do not leak (C18, C19) except where a lemma says so.
  \<^item> \<open>Windows_Sockets\<close>: what the same files and \<open>src/host.cpp\<close> contain for Windows, over the functions of
    Winsock; error codes keep their meaning, both platforms visit the same adapters, a gathering write
    hides errors and a failing socket pair leaks one socket.
  \<^item> \<open>Datagram_Transport\<close> (\<open>caf/net/datagram_transport.hpp\<close>, \<open>transport_base.hpp\<close>,
    \<open>transport_worker_dispatcher.hpp\<close>, \<open>transport_worker.hpp\<close>, \<open>packet_writer*.hpp\<close>): packets, buffer caches
    and one application per endpoint (C22, C23).
  \<^item> \<open>Endpoint_Manager\<close> (\<open>src/endpoint_manager.cpp\<close>, \<open>endpoint_manager_queue.hpp\<close>,
    \<open>endpoint_manager_impl.hpp\<close>): the inbox and the write event (C26, C27).
  \<^item> \<open>Datagram_Endpoint\<close> (\<open>transport_base.hpp\<close>): the callbacks of the transport, the interface
    \<open>em_transport_inv\<close> of a manager to its transport, and a manager on a datagram transport (C25).
  \<^item> \<open>Building_Blocks\<close> (\<open>libcaf_bb/caf\<close>): the tokenized integer reader, container sources and stream readers
    (C28).
  \<^item> \<open>Enum_Strings\<close> (\<open>cmake/caf-generate-enum-strings.cpp\<close>): the generator behind the conversions of
    \<open>Net_Enums\<close>; it finds the enumerators of every header and reproduces \<open>operation_strings.cpp\<close> (C31).
  \<^item> \<open>Middleman\<close> (\<open>src/net/middleman.cpp\<close>, \<open>src/net/backend/*.cpp\<close>, \<open>connection_acceptor.hpp\<close>,
    \<open>socket_manager.hpp\<close>): backends, acceptors and the callbacks of managers (C32, C34).
  \<^item> \<open>Remoting\<close> (\<open>caf/net/middleman.hpp\<close>): creating the middleman, publishing and \<open>remote_actor\<close>, with the
    messages that the other components send to it (C17).
  \<^item> \<open>Actor_Shell\<close> (\<open>src/net/abstract_actor_shell.cpp\<close>, \<open>src/net/actor_shell.cpp\<close>,
    \<open>typed_actor_shell.hpp\<close>): mailbox, behaviors, responses and the owning pointers (C35).
  \<^item> \<open>Mixed_Layer\<close>, \<open>WebSocket_Apps\<close>: the interface \<open>mixed_lower\<close> of an application to the framing layer, which
    the layer offers on every stream, and what the example applications share: the loop over the mailbox, with
    \<open>process_all\<close> as its specification.
  \<^item> \<open>Calculator\<close> (\<open>examples/net/web-socket-calculator.cpp\<close>): lines, requests and answers (C29, C36).
  \<^item> \<open>Feed\<close> (\<open>examples/net/web-socket-feed.cpp\<close>): the feed actor and its WebSocket listener (C21, C24, C33).
  \<^item> \<open>Client\<close> (\<open>examples/net/web-socket-client.cpp\<close>): terminal, input loop and application (C30).
  \<^item> \<open>Calculator_Client\<close>, \<open>Segmented_Sessions\<close>: the client and the calculator across both WebSocket layers; the
    calculator below its server layer, on a connection that cuts the stream into segments, is an instance of
    \<open>server_stream\<close> (C20, C39).
  \<^item> \<open>Servers\<close>: \<open>caf_main\<close> of both servers and \<open>make_acceptor\<close>.
  \<^item> This theory: the layers put together on a manager of the multiplexer, and messages that cross a
    connection through both framing layers (C37, C38, C40).

  \<^bold>\<open>Bounds.\<close> The IDs of the message queue are 64-bit numbers that wrap; the theorems assume that fewer than
  \<open>2 ^ 64\<close> IDs are drawn. WebSocket payloads are bounded by \<open>max_frame_size\<close>, length-prefixed messages by
  \<open>max_message_length\<close>, as in the code; C37 asks for 14 bytes less, the longest frame header.

  \<^bold>\<open>Not modelled.\<close> \<open>actor_proxy_impl\<close>, which does not compile at this commit; the poll
  masks and \<open>WSAPoll\<close> of the multiplexer for Windows; the declaration of configuration options, default values, forward
  declarations, accessors and logging, in the examples also what the servers print. Reference counts are
  modelled only where they travel through the pipe of the multiplexer and in the pointers to actor shells.
  Memory exhaustion is not modelled.
\<close>

section \<open>The stack of layers on a socket manager\<close>

text \<open>The layer pointer of the stream transport whose parent is a manager of the multiplexer.\<close>

abbreviation transport_ptr ::
  "'w mpx_env \<Rightarrow> nat \<Rightarrow> mgr \<Rightarrow> 'w multiplexer transport_stack stream_oriented_layer_ptr" where
  "transport_ptr E self m \<equiv> make_stream_oriented_layer_ptr (manager_ptr E self m)"

lemma transport_output: "output_buffer (transport_ptr E self m) d = write_buf (fst d)"
  by (cases d) (simp add: make_stream_oriented_layer_ptr_def)

text \<open>An application that records the messages it receives.\<close>

definition recorder :: "(ws_message list, ('g, 'd) framing_stack) mixed_upper" where
  "recorder =
     \<lparr>mu_init = (\<lambda>u l. (u, l, None)), mu_prepare_send = (\<lambda>u d. (u, d, True)),
      mu_done_sending = (\<lambda>u d. (u, d, True)), mu_abort = (\<lambda>e u d. (u, d)),
      mu_consume_text = (\<lambda>p u l. (u @ [Text_message p], l, int (length p))),
      mu_consume_binary = (\<lambda>p u l. (u @ [Binary_message p], l, int (length p)))\<rparr>"

lemma recorder_deliver: "deliver_message recorder m u l = (u @ [m], l, int (length (msg_payload m)))"
  by (cases m) (simp_all add: recorder_def)

lemma recorder_keeps_assembly: "keeps_assembly recorder"
  by (simp add: keeps_assembly_def recorder_deliver)

lemma recorder_blind: "blind_app h recorder"
  by (simp add: blind_app_def recorder_deliver outcome3_def lower3_def)

lemma recorder_delivers: "deliver_messages recorder ms u f d = (u @ ms, f, d, True)"
  by (induction ms arbitrary: u) (simp_all add: recorder_deliver)

definition log_messages :: "(byte list list, 'd lp_stack) message_upper" where
  "log_messages =
     \<lparr>mo_init = (\<lambda>u l. (u, l, None)), mo_prepare_send = (\<lambda>u l. (u, l, True)), mo_done_sending = (\<lambda>u l. (u, l, True)),
      mo_abort = (\<lambda>e u l. (u, l)), mo_consume = (\<lambda>p u l. (u @ [p], l, int (length p)))\<rparr>"

lemma log_messages_blind: "blind_receiver h log_messages"
  by (simp add: blind_receiver_def log_messages_def)

section \<open>Messages across a connection\<close>

text \<open>
  C37: What an application writes to a fresh WebSocket framing layer on a stream transport of a socket
  manager, the application of the peer receives: the same messages with their kinds and contents, each
  once and in order, whatever masking keys are drawn and in whatever segments and with whatever pauses the
  bytes arrive. After more read events than there are segments and pauses, the application has handled all
  messages, the connection is up and no byte is left over. The application accepts the messages and does not
  look at the transport.
\<close>

theorem websocket_messages_arrive:
  assumes "write_buf t = []" and "keeps_assembly U" and "ms \<noteq> []" and "\<forall>m \<in> set ms. fits_frame m"
    and "feed Y = write_buf (fst (snd (send_messages
           (make_mixed_message_oriented_layer_ptr (transport_ptr E self mgr) nxt) ms (framing_new g, (t, M)))))"
    and "blind_app (\<lambda>Y. (recvd Y, feed Y, pace Y)) U" and "parent_keeps P (\<lambda>Y. (recvd Y, feed Y, pace Y))"
    and "reads_well S recvd" and "feeds S feed pace" and "recvd Y = []" and "pace Y < n"
    and "unread_transport r" and "min_read_size r = 1" and "max_consecutive_reads r \<noteq> 0"
    and "deliver_messages U ms u (framing_new h) (r, Y) = (u', f', e', True)"
  shows "\<exists>r' Y'. read_events P S (framing_layer (make_stream_oriented_layer_ptr P) U nxt' seeded) n (u, framing_new h) r Y
      = ((u', f'), (r', Y'), Returned True) \<and> pending_input r' = []"
proof -
  have "consume_frames (make_stream_oriented_layer_ptr P) U nxt' (feed Y) 0 u (framing_new h) (r, Y) =
      (u', f', configure_read (make_stream_oriented_layer_ptr P) (policy_up_to 2048) e', int (length (feed Y)))"
    using sent_is_received [OF manager.transport.stream_lower_axioms, of "framing_new g" E self mgr "(t, M)" U ms
        "framing_new h" "feed Y" nxt "make_stream_oriented_layer_ptr P" nxt' u "(r, Y)"] assms(1-5,15)
    by (simp add: transport_output framing_new_def)
  from framing_read_events [OF assms(6-9,12-14,10,11) this, of seeded] show ?thesis by blast
qed

theorem websocket_messages_arrive_witness:
  "let wire = write_buf (fst (snd (send_messages (make_mixed_message_oriented_layer_ptr (transport_ptr pipe_env 0 7) (\<lambda>g. (g, g + 1)))
        [Text_message [104, 105], Binary_message []] (framing_new (0x01020304 :: u32), (stream_transport_new, sample_mpx)))))
   in fst (fst (read_events connection_parent paced_sys
        (framing_layer (make_stream_oriented_layer_ptr connection_parent) recorder (\<lambda>g. (g, g + 1)) 0)
        (length wire + 4) ([], framing_new (5 :: u32)) (idle_transport 2 1 2048)
        (fresh_connection [take 3 wire, [], drop 3 wire])))
      = [Text_message [104, 105], Binary_message []]"
proof -
  let ?ms = "[Text_message [104, 105], Binary_message []]"
  define wire where "wire = write_buf (fst (snd (send_messages
      (make_mixed_message_oriented_layer_ptr (transport_ptr pipe_env 0 7) (\<lambda>g. (g, g + 1))) ?ms
      (framing_new (0x01020304 :: u32), (stream_transport_new, sample_mpx)))))"
  let ?Y = "fresh_connection [take 3 wire, [], drop 3 wire]"
  have y: "concat (chunks ?Y) = wire" "received ?Y = []" "segments_left ?Y < length wire + 4"
    by (simp_all add: fresh_connection_def segments_left_def)
  have r: "unread_transport (idle_transport 2 1 2048)" "min_read_size (idle_transport 2 1 2048) = 1"
    "max_consecutive_reads (idle_transport 2 1 2048) \<noteq> 0"
    using idle_unread [of 2048 1 2] by (simp_all add: idle_transport_def)
  have m: "write_buf stream_transport_new = []" "?ms \<noteq> []" "\<forall>m \<in> set ?ms. fits_frame m"
    by (simp_all add: stream_transport_new_def fits_frame_def)
  from websocket_messages_arrive [OF m(1) recorder_keeps_assembly m(2,3) y(1) [unfolded wire_def] recorder_blind
      connection_parent_keeps paced_reads_well paced_feeds y(2,3) [unfolded wire_def] r recorder_delivers,
      where nxt' = "\<lambda>g. (g, g + 1)" and seeded = 0 and u = "[]" and h = 5]
  show ?thesis unfolding wire_def [symmetric] Let_def by auto
qed

text \<open>
  C38: A message that arrives in fragments, with any number of continuation frames and any masking
  keys, reaches the application once and as a whole, and the layer is ready for the next message.
\<close>

theorem fragments_are_reassembled:
  assumes "cur_opcode f = nil_code" and "payload_buf f = []"
    and "piece_fits (key, first)" and "\<forall>kp \<in> set kps. piece_fits kp" and "piece_fits (key', final)"
    and "length (first @ concat (map snd kps) @ final) \<le> max_frame_size"
    and "msg_payload m = first @ concat (map snd kps) @ final"
    and "deliver_message U m u (f\<lparr>cur_opcode := msg_opcode m, payload_buf := msg_payload m\<rparr>, d) = (u', (f', d'), res)"
    and "0 \<le> res"
    and "wire = wire_frame 0 (msg_opcode m) key first @ continuation_frames kps @ wire_frame fin_flag continuation_frame key' final"
  shows "framing_consume L U nxt wire delta (u, f) d =
    ((u', f'\<lparr>cur_opcode := nil_code, payload_buf := []\<rparr>), configure_read L (policy_up_to 2048) d', int (length wire))"
  using consume_fragmented [OF assms(1-6,8,9,7,10), of L nxt] by (simp add: framing_consume_def)

theorem fragments_are_reassembled_witness:
  "fst (fst (framing_consume (transport_ptr pipe_env 0 1) recorder (\<lambda>g. (g, g))
     (wire_frame 0 text_frame 9 [104] @ continuation_frames [(3, [105]), (0, [])] @ wire_frame fin_flag continuation_frame 8 [33])
     [] ([], framing_new (0 :: u32)) (stream_transport_new, sample_mpx)))
   = [Text_message [104, 105, 33]]"
proof -
  let ?f = "framing_new (0 :: u32)" and ?m = "Text_message [104, 105, 33]"
  have d: "deliver_message recorder ?m [] (?f\<lparr>cur_opcode := msg_opcode ?m, payload_buf := msg_payload ?m\<rparr>, d)
      = ([] @ [?m], (?f\<lparr>cur_opcode := msg_opcode ?m, payload_buf := msg_payload ?m\<rparr>, d), int (length (msg_payload ?m)))"
    for d :: "byte list multiplexer transport_stack"
    by (rule recorder_deliver)
  show ?thesis
    using fragments_are_reassembled [where f = ?f and m = ?m and first = "[104]" and kps = "[(3, [105]), (0, [])]"
        and final = "[33]" and L = "transport_ptr pipe_env 0 1" and delta = "[]", OF _ _ _ _ _ _ _ d _ refl]
    by (simp add: framing_new_def piece_fits_def)
qed

text \<open>
  C40: Messages sent through a length-prefix framing layer on a stream transport of a socket manager
  are handed to the application of the peer in order, unchanged and without empty messages in between, in
  whatever segments and with whatever pauses the bytes arrive. The layer starts with the receive policy that
  its \<open>init\<close> sets up; it raises the upper bound for long messages.
\<close>

theorem length_prefix_messages_arrive:
  assumes "write_buf t = []" and "\<forall>p \<in> set ps. p \<noteq> [] \<and> length p < max_message_length"
    and "blind_receiver (\<lambda>Y. (recvd Y, feed Y, pace Y)) U" and "parent_keeps P (\<lambda>Y. (recvd Y, feed Y, pace Y))"
    and "reads_well S recvd" and "feeds S feed pace" and "recvd Y = []" and "pace Y < n"
    and "unread_transport r" and "min_read_size r = 4" and "max_read_size r = receive_buf_upper_bound h"
    and "max_consecutive_reads r \<noteq> 0" and "hand_over U ps u h (r, Y) = (u', h', e', True)"
  shows "\<exists>f' t' M'. lp_send_all (make_message_oriented_layer_ptr (transport_ptr E self mgr)) ps (f, (t, M))
        = ((f', (t', M')), True) \<and>
      (feed Y = write_buf t' \<longrightarrow>
        (\<exists>g r' Y'. read_events P S (length_prefix_layer (make_stream_oriented_layer_ptr P) U) n (u, h) r Y
            = ((u', g), (r', Y'), Returned True) \<and> pending_input r' = []))"
proof -
  obtain f' t' M' where s:
    "lp_send_all (make_message_oriented_layer_ptr (transport_ptr E self mgr)) ps (f, (t, M)) = ((f', (t', M')), True)"
    "write_buf t' = concat (map lp_frame ps)"
    using stream_lower.lp_send_all_frames [OF manager.transport.stream_lower_axioms assms(2), of E self mgr f "(t, M)"] assms(1)
    by (auto simp: transport_output)
  have "\<forall>p \<in> set ps. lp_sized p" using assms(2) by (auto simp: lp_sized_def)
  note c = consume_all_messages [OF this, of "make_stream_oriented_layer_ptr P" U 0 u h "(r, Y)"]
  have "lp_policy (u, h) (min_read_size r) (max_read_size r)"
    using assms(9-11) by (auto simp: lp_policy_def unread_transport_def)
  note length_prefix_read_events [OF assms(3-6,9) this assms(12,7,8)]
  then have "feed Y = write_buf t' \<longrightarrow>
      (\<exists>g r' Y'. read_events P S (length_prefix_layer (make_stream_oriented_layer_ptr P) U) n (u, h) r Y
          = ((u', g), (r', Y'), Returned True) \<and> pending_input r' = [])"
    using c assms(13) unfolding s(2) by fastforce
  with s(1) show ?thesis by blast
qed

theorem length_prefix_messages_arrive_witness:
  "\<exists>f' t' M'. lp_send_all (make_message_oriented_layer_ptr (transport_ptr pipe_env 0 7)) [[1, 2], [3]]
        (length_prefix_framing_new, (stream_transport_new, sample_mpx)) = ((f', (t', M')), True) \<and>
      fst (fst (read_events connection_parent paced_sys
          (length_prefix_layer (make_stream_oriented_layer_ptr connection_parent) log_messages) (length (write_buf t') + 4)
          ([], length_prefix_framing_new) (idle_transport 2 4 default_receive_size)
          (fresh_connection [take 3 (write_buf t'), [], drop 3 (write_buf t')])))
      = [[1, 2], [3]]"
proof -
  let ?r = "idle_transport 2 4 default_receive_size" and ?h = length_prefix_framing_new
  have m: "write_buf stream_transport_new = []" "\<forall>p \<in> set [[1, 2], [3 :: byte]]. p \<noteq> [] \<and> length p < max_message_length"
    by (simp_all add: stream_transport_new_def)
  have r: "unread_transport ?r" "min_read_size ?r = 4" "max_read_size ?r = receive_buf_upper_bound ?h" "max_consecutive_reads ?r \<noteq> 0"
    using idle_unread [of default_receive_size 4 2] by (simp_all add: idle_transport_def length_prefix_framing_new_def)
  have c: "received (fresh_connection bs) = []" "segments_left (fresh_connection bs) < length (concat bs) + length bs + 1" for bs
    by (simp_all add: fresh_connection_def segments_left_def)
  have h: "hand_over log_messages [[1, 2], [3]] [] ?h d = ([[1, 2], [3]], ?h, d, True)" for d :: "connection transport_stack"
    by (simp add: log_messages_def)
  note T = length_prefix_messages_arrive [OF m log_messages_blind connection_parent_keeps paced_reads_well paced_feeds c r h,
      where E = pipe_env and self = 0 and mgr = 7 and f = ?h and M = sample_mpx]
  from T [of "[]"] obtain f' t' M' where a: "lp_send_all (make_message_oriented_layer_ptr (transport_ptr pipe_env 0 7)) [[1, 2], [3]]
      (?h, (stream_transport_new, sample_mpx)) = ((f', (t', M')), True)" by blast
  let ?bs = "[take 3 (write_buf t'), [], drop 3 (write_buf t')]"
  have "concat (chunks (fresh_connection ?bs)) = write_buf t'" "length (concat ?bs) + length ?bs + 1 = length (write_buf t') + 4"
    by (simp_all add: fresh_connection_def)
  from T [of ?bs, unfolded this] a show ?thesis by auto
qed

end
